(* ===== verification/Prelude.thy ===== *)
theory Prelude
  imports Main "HOL-Library.Word" "HOL-Library.Code_Target_Nat"
begin

text \<open>
  Shared vocabulary of the development: results with the two ways a Rust routine can leave
  without a value, slices and in-place writes of byte buffers, and the little-endian
  integer codecs every binary format of the repository is built from.

  Conventions. \<open>u8\<close>, \<open>u16\<close>, \<open>u32\<close>, \<open>u64\<close> and \<open>i32\<close> are words of that width. A \<open>usize\<close> is a
  \<open>nat\<close>: it always is a length of, or an offset into, a buffer that is in memory, on a
  64-bit target; the checked operations on it still carry the bound \<open>2 ^ 64\<close>.
\<close>

section \<open>Results\<close>

text \<open>
  \<open>Anyhow m\<close> is an \<open>anyhow!\<close> error (interpolated values are left out of the message),
  \<open>Panic\<close> is a Rust panic: an index or slice out of range, or an overflow of an unchecked
  operation. Keeping them apart makes absence of panics a statement.
\<close>

datatype error = Anyhow string | Panic

type_synonym 'a res = "error + 'a"

type_synonym u8 = "8 word"
type_synonym u16 = "16 word"
type_synonym u32 = "32 word"
type_synonym u64 = "64 word"
type_synonym i32 = "32 word"

abbreviation bail :: "string \<Rightarrow> 'a res" where
  "bail m \<equiv> Inl (Anyhow m)"

fun rbind :: "'a res \<Rightarrow> ('a \<Rightarrow> 'b res) \<Rightarrow> 'b res" where
  "rbind (Inl e) f = Inl e"
| "rbind (Inr x) f = f x"

definition ok_or :: "'a option \<Rightarrow> string \<Rightarrow> 'a res" where
  "ok_or x m = (case x of None \<Rightarrow> bail m | Some y \<Rightarrow> Inr y)"

text \<open>\<open>unwrap_or_panic\<close> is \<open>unwrap\<close>, \<open>expect\<close> and the indexing operators.\<close>

definition unwrap_or_panic :: "'a option \<Rightarrow> 'a res" where
  "unwrap_or_panic x = (case x of None \<Rightarrow> Inl Panic | Some y \<Rightarrow> Inr y)"

definition is_ok :: "'a res \<Rightarrow> bool" where
  "is_ok r = (case r of Inl _ \<Rightarrow> False | Inr _ \<Rightarrow> True)"

named_theorems res_simps \<open>unfolding of results that are known to be values\<close>

lemma rbind_Inr_iff [res_simps]: "rbind m f = Inr y \<longleftrightarrow> (\<exists>x. m = Inr x \<and> f x = Inr y)"
  by (cases m) auto

lemma rbind_Inl_iff: "rbind m f = Inl e \<longleftrightarrow> m = Inl e \<or> (\<exists>x. m = Inr x \<and> f x = Inl e)"
  by (cases m) auto

lemma if_bail_Inr [res_simps]:
  "(if c then Inl e else r) = Inr y \<longleftrightarrow> \<not> c \<and> r = Inr y"
  "(if c then r else Inl e) = Inr y \<longleftrightarrow> c \<and> r = Inr y"
  by auto

lemma rbind_assoc: "rbind (rbind m f) g = rbind m (\<lambda>x. rbind (f x) g)"
  by (cases m) auto

lemma rbind_cong [fundef_cong]:
  "m = m' \<Longrightarrow> (\<And>x. m' = Inr x \<Longrightarrow> f x = f' x) \<Longrightarrow> rbind m f = rbind m' f'"
  by (cases m') auto

lemma rbind_no_panic:
  "m \<noteq> Inl Panic \<Longrightarrow> (\<And>x. m = Inr x \<Longrightarrow> f x \<noteq> Inl Panic) \<Longrightarrow> rbind m f \<noteq> Inl Panic"
  by (cases m) auto

lemma ok_or_simps [simp]:
  "ok_or None m = bail m"
  "ok_or (Some y) m = Inr y"
  by (simp_all add: ok_or_def)

lemma ok_or_Inr_iff [res_simps]: "ok_or x m = Inr y \<longleftrightarrow> x = Some y"
  by (cases x) simp_all

lemma ok_or_Inl_iff: "ok_or x m = Inl e \<longleftrightarrow> x = None \<and> e = Anyhow m"
  by (cases x) auto

lemma ok_or_no_panic [simp]: "ok_or x m \<noteq> Inl Panic"
  by (cases x) simp_all

lemma unwrap_or_panic_simps [simp]:
  "unwrap_or_panic None = Inl Panic"
  "unwrap_or_panic (Some y) = Inr y"
  by (simp_all add: unwrap_or_panic_def)

lemma unwrap_or_panic_Inr_iff [res_simps]: "unwrap_or_panic x = Inr y \<longleftrightarrow> x = Some y"
  by (cases x) simp_all

lemma is_ok_simps [simp]: "is_ok (Inr x)" "\<not> is_ok (Inl e)"
  by (simp_all add: is_ok_def)

lemma is_ok_iff: "is_ok r \<longleftrightarrow> (\<exists>x. r = Inr x)"
  by (cases r) auto

text \<open>\<open>obind\<close> is the question mark of a routine that answers with an \<^verbatim>\<open>Option\<close>.\<close>

definition obind :: "'a option \<Rightarrow> ('a \<Rightarrow> 'b option) \<Rightarrow> 'b option" where
  "obind m f = (case m of None \<Rightarrow> None | Some x \<Rightarrow> f x)"

lemma obind_simps [simp]: "obind None f = None" "obind (Some x) f = f x"
  by (simp_all add: obind_def)

lemma obind_Some_iff: "obind m f = Some y \<longleftrightarrow> (\<exists>x. m = Some x \<and> f x = Some y)"
  by (cases m) auto

section \<open>Slices and writes\<close>

text \<open>\<open>sub xs a n\<close> is the window of \<open>n\<close> elements at offset \<open>a\<close>.\<close>

definition sub :: "'a list \<Rightarrow> nat \<Rightarrow> nat \<Rightarrow> 'a list" where
  "sub xs a n = take n (drop a xs)"

text \<open>\<open>slice_get xs a b\<close> is \<open>xs.get(a..b)\<close>; \<open>slice_idx\<close> is \<open>&xs[a..b]\<close>, which panics.\<close>

definition slice_get :: "'a list \<Rightarrow> nat \<Rightarrow> nat \<Rightarrow> 'a list option" where
  "slice_get xs a b = (if a \<le> b \<and> b \<le> length xs then Some (sub xs a (b - a)) else None)"

definition slice_idx :: "'a list \<Rightarrow> nat \<Rightarrow> nat \<Rightarrow> 'a list res" where
  "slice_idx xs a b = unwrap_or_panic (slice_get xs a b)"

text \<open>\<open>patch xs a ys\<close> is \<open>xs[a..a + ys.len()].copy_from_slice(ys)\<close> where that is in range.\<close>

definition patch :: "'a list \<Rightarrow> nat \<Rightarrow> 'a list \<Rightarrow> 'a list" where
  "patch xs a ys = take a xs @ ys @ drop (a + length ys) xs"

definition copy_at :: "'a list \<Rightarrow> nat \<Rightarrow> 'a list \<Rightarrow> 'a list res" where
  "copy_at xs a ys = (if a + length ys \<le> length xs then Inr (patch xs a ys) else Inl Panic)"

definition checked_add_usize :: "nat \<Rightarrow> nat \<Rightarrow> nat option" where
  "checked_add_usize a b = (if a + b < 2 ^ 64 then Some (a + b) else None)"

definition checked_add_u32 :: "u32 \<Rightarrow> u32 \<Rightarrow> u32 option" where
  "checked_add_u32 a b = (if unat a + unat b < 2 ^ 32 then Some (a + b) else None)"

definition checked_add_u64 :: "u64 \<Rightarrow> u64 \<Rightarrow> u64 option" where
  "checked_add_u64 a b = (if unat a + unat b < 2 ^ 64 then Some (a + b) else None)"

text \<open>\<open>u32::try_from(n)\<close> on a \<open>usize\<close>.\<close>

definition u32_try_from :: "nat \<Rightarrow> u32 option" where
  "u32_try_from n = (if n < 2 ^ 32 then Some (word_of_nat n) else None)"

named_theorems slice_simps \<open>windows of buffers and of updated buffers\<close>

lemma length_sub [slice_simps]: "a + n \<le> length xs \<Longrightarrow> length (sub xs a n) = n"
  by (simp add: sub_def)

lemma length_patch [slice_simps]:
  "a + length ys \<le> length xs \<Longrightarrow> length (patch xs a ys) = length xs"
  by (simp add: patch_def)

lemma sub_patch_same [slice_simps]:
  "a + length ys \<le> length xs \<Longrightarrow> n = length ys \<Longrightarrow> sub (patch xs a ys) a n = ys"
  by (simp add: sub_def patch_def)

lemma sub_append_left [slice_simps]: "a + n \<le> length xs \<Longrightarrow> sub (xs @ ys) a n = sub xs a n"
  by (simp add: sub_def)

lemma sub_append_right [slice_simps]:
  "length xs \<le> a \<Longrightarrow> sub (xs @ ys) a n = sub ys (a - length xs) n"
  by (simp add: sub_def)

lemma sub_take [slice_simps]: "a + n \<le> m \<Longrightarrow> sub (take m xs) a n = sub xs a n"
  by (simp add: sub_def drop_take min_absorb1)

lemma sub_patch_before [slice_simps]:
  "b + n \<le> a \<Longrightarrow> a + length ys \<le> length xs \<Longrightarrow> sub (patch xs a ys) b n = sub xs b n"
  unfolding patch_def by (subst sub_append_left) (simp_all add: sub_take)

lemma sub_patch_after [slice_simps]:
  "a + length ys \<le> b \<Longrightarrow> a + length ys \<le> length xs \<Longrightarrow> sub (patch xs a ys) b n = sub xs b n"
  by (simp add: sub_def patch_def min_def add.commute)

lemma sub_whole [simp]: "sub xs 0 (length xs) = xs"
  by (simp add: sub_def)

lemma sub_zero [simp]: "sub xs a 0 = []"
  by (simp add: sub_def)

lemma patch_same_again: "a + length ys \<le> length xs \<Longrightarrow> length zs = length ys \<Longrightarrow>
    patch (patch xs a ys) a zs = patch xs a zs"
  by (simp add: patch_def)

lemma nth_patch:
  "a + length ys \<le> length xs \<Longrightarrow> i < length xs \<Longrightarrow>
   patch xs a ys ! i = (if a \<le> i \<and> i < a + length ys then ys ! (i - a) else xs ! i)"
  by (auto simp: patch_def nth_append min_def)

lemma take_patch: "n \<le> a \<Longrightarrow> a + length ys \<le> length xs \<Longrightarrow> take n (patch xs a ys) = take n xs"
  by (simp add: patch_def min_def)

lemma patch_append [slice_simps]:
  "a + length ys \<le> length xs \<Longrightarrow> patch (xs @ zs) a ys = patch xs a ys @ zs"
  by (simp add: patch_def)

lemma patch_commute:
  "a + length ys \<le> b \<Longrightarrow> b + length zs \<le> length xs \<Longrightarrow>
   patch (patch xs a ys) b zs = patch (patch xs b zs) a ys"
  by (rule nth_equalityI) (auto simp: length_patch nth_patch)

lemma patch_adjacent:
  "a + length ys + length zs \<le> length xs \<Longrightarrow>
   patch (patch xs a ys) (a + length ys) zs = patch xs a (ys @ zs)"
  by (simp add: patch_def add_ac)

lemma sub_prefix: "sub (xs @ ys) 0 (length xs) = xs"
  by (simp add: sub_def)

lemma take_at: "length x = n \<Longrightarrow> take n (x @ y) = x"
  by auto

lemma drop_at: "length x = n \<Longrightarrow> drop n (x @ y) = y"
  by auto

lemma sub_split: "sub xs a (m + n) = sub xs a m @ sub xs (a + m) n"
  by (simp add: sub_def take_add add.commute)

lemma sub_three:
  assumes "a \<le> b"
  shows "sub xs a ((b - a) + (m + k)) = sub xs a (b - a) @ sub xs b m @ sub xs (b + m) k"
  using assms by (simp only: sub_split le_add_diff_inverse)

lemma sub_eq_nth: "a + n \<le> length xs \<Longrightarrow> sub xs a n = map (\<lambda>i. xs ! (a + i)) [0..<n]"
  by (rule nth_equalityI) (auto simp: sub_def)

lemma patch_sub_self: "a + n \<le> length xs \<Longrightarrow> patch xs a (sub xs a n) = xs"
  by (simp add: patch_def sub_def) (metis append_take_drop_id drop_drop add.commute)

lemma slice_get_Some [slice_simps]:
  "slice_get xs a b = Some ys \<longleftrightarrow> a \<le> b \<and> b \<le> length xs \<and> ys = sub xs a (b - a)"
  by (auto simp: slice_get_def)

lemma slice_get_None [slice_simps]: "slice_get xs a b = None \<longleftrightarrow> \<not> (a \<le> b \<and> b \<le> length xs)"
  by (auto simp: slice_get_def)

lemma slice_idx_Inr [slice_simps]:
  "slice_idx xs a b = Inr ys \<longleftrightarrow> a \<le> b \<and> b \<le> length xs \<and> ys = sub xs a (b - a)"
  by (simp add: slice_idx_def res_simps slice_get_Some)

lemma slice_idx_ok [simp]:
  "a \<le> b \<Longrightarrow> b \<le> length xs \<Longrightarrow> slice_idx xs a b = Inr (sub xs a (b - a))"
  by (simp add: slice_idx_Inr)

lemma slice_idx_no_panic [slice_simps]:
  "slice_idx xs a b = Inl e \<longleftrightarrow> \<not> (a \<le> b \<and> b \<le> length xs) \<and> e = Panic"
  by (auto simp: slice_idx_def slice_get_def)

lemma copy_at_ok [simp]: "a + length ys \<le> length xs \<Longrightarrow> copy_at xs a ys = Inr (patch xs a ys)"
  by (simp add: copy_at_def)

section \<open>Little-endian integers\<close>

fun le_nat :: "u8 list \<Rightarrow> nat" where
  "le_nat [] = 0"
| "le_nat (b # bs) = unat b + 256 * le_nat bs"

fun le_bytes :: "nat \<Rightarrow> nat \<Rightarrow> u8 list" where
  "le_bytes 0 x = []"
| "le_bytes (Suc n) x = word_of_nat (x mod 256) # le_bytes n (x div 256)"

definition u16_from_le :: "u8 list \<Rightarrow> u16" where "u16_from_le bs = word_of_nat (le_nat bs)"
definition u32_from_le :: "u8 list \<Rightarrow> u32" where "u32_from_le bs = word_of_nat (le_nat bs)"
definition u64_from_le :: "u8 list \<Rightarrow> u64" where "u64_from_le bs = word_of_nat (le_nat bs)"
definition u16_to_le :: "u16 \<Rightarrow> u8 list" where "u16_to_le w = le_bytes 2 (unat w)"
definition u32_to_le :: "u32 \<Rightarrow> u8 list" where "u32_to_le w = le_bytes 4 (unat w)"
definition u64_to_le :: "u64 \<Rightarrow> u8 list" where "u64_to_le w = le_bytes 8 (unat w)"

lemma length_le_bytes [simp]: "length (le_bytes n x) = n"
  by (induction n arbitrary: x) auto

text \<open>For evaluation on literals.\<close>

lemma le_bytes_numeral:
  "le_bytes (numeral k) x = word_of_nat (x mod 256) # le_bytes (pred_numeral k) (x div 256)"
  unfolding numeral_eq_Suc [of k] le_bytes.simps ..

lemma le_bytes_1: "le_bytes 1 x = [word_of_nat (x mod 256)]" "le_bytes (Suc 0) x = [word_of_nat (x mod 256)]"
  by (simp_all add: One_nat_def)

lemmas le_bytes_width = le_bytes_numeral le_bytes_1

lemma unat_u8_of_nat_mod [simp]: "unat (word_of_nat (x mod 256) :: u8) = x mod 256"
  by (simp add: unat_of_nat)

lemma u8_bound: "unat (b :: u8) < 256"
  using unsigned_less [of b, where 'a = nat] by simp

lemma u16_bound: "unat (b :: u16) < 65536"
  using unsigned_less [of b, where 'a = nat] by simp

lemma u32_bound: "unat (b :: u32) < 4294967296"
  using unsigned_less [of b, where 'a = nat] by simp

lemma u64_bound: "unat (b :: u64) < 18446744073709551616"
  using unsigned_less [of b, where 'a = nat] by simp

lemma le_nat_le_bytes: "le_nat (le_bytes n x) = x mod 256 ^ n"
  by (induction n arbitrary: x) (simp_all add: mod_mult2_eq)

lemma le_nat_bound: "le_nat bs < 256 ^ length bs"
proof (induction bs)
  case (Cons b bs)
  with u8_bound [of b] show ?case by simp
qed simp

lemma le_bytes_le_nat: "le_bytes (length bs) (le_nat bs) = bs"
proof (induction bs)
  case (Cons b bs)
  have b: "unat b < 256" by (rule u8_bound)
  then have "(unat b + 256 * le_nat bs) mod 256 = unat b"
    and "(unat b + 256 * le_nat bs) div 256 = le_nat bs"
    by simp_all
  with Cons show ?case by simp
qed simp

text \<open>
  The contract of a fixed-width integer field: what it writes has its width and reads back.
  Everything said of a header field after a header write follows from these two laws.
\<close>

locale byte_codec =
  fixes width :: nat and enc :: "'a \<Rightarrow> u8 list" and dec :: "u8 list \<Rightarrow> 'a"
  assumes width_enc: "length (enc x) = width"
    and dec_enc: "dec (enc x) = x"
begin

lemma read_back: "a + width \<le> length xs \<Longrightarrow> dec (sub (patch xs a (enc x)) a width) = x"
  by (simp add: width_enc dec_enc sub_patch_same)

lemma read_other:
  "a + width \<le> length xs \<Longrightarrow> b + n \<le> a \<or> a + width \<le> b \<Longrightarrow>
   sub (patch xs a (enc x)) b n = sub xs b n"
  by (auto simp: width_enc sub_patch_before sub_patch_after)

lemma length_write: "a + width \<le> length xs \<Longrightarrow> length (patch xs a (enc x)) = length xs"
  by (simp add: width_enc length_patch)

lemma enc_inject: "enc x = enc y \<longleftrightarrow> x = y"
  by (metis dec_enc)

end

interpretation u16le: byte_codec 2 u16_to_le u16_from_le
proof
  fix x :: u16
  have "unat x < 65536" by (rule u16_bound)
  then show "u16_from_le (u16_to_le x) = x"
    by (simp add: u16_to_le_def u16_from_le_def le_nat_le_bytes)
qed (simp add: u16_to_le_def)

interpretation u32le: byte_codec 4 u32_to_le u32_from_le
proof
  fix x :: u32
  have "unat x < 4294967296" by (rule u32_bound)
  then show "u32_from_le (u32_to_le x) = x"
    by (simp add: u32_to_le_def u32_from_le_def le_nat_le_bytes)
qed (simp add: u32_to_le_def)

interpretation u64le: byte_codec 8 u64_to_le u64_from_le
proof
  fix x :: u64
  have "unat x < 18446744073709551616" by (rule u64_bound)
  then show "u64_from_le (u64_to_le x) = x"
    by (simp add: u64_to_le_def u64_from_le_def le_nat_le_bytes)
qed (simp add: u64_to_le_def)

lemmas le_codec_simps [simp] =
  u16le.width_enc u16le.dec_enc u32le.width_enc u32le.dec_enc u64le.width_enc u64le.dec_enc

lemma u16_to_from_le: "length bs = 2 \<Longrightarrow> u16_to_le (u16_from_le bs) = bs"
  using le_nat_bound [of bs] le_bytes_le_nat [of bs]
  by (simp add: u16_to_le_def u16_from_le_def unat_of_nat)

lemma u32_to_from_le: "length bs = 4 \<Longrightarrow> u32_to_le (u32_from_le bs) = bs"
  using le_nat_bound [of bs] le_bytes_le_nat [of bs]
  by (simp add: u32_to_le_def u32_from_le_def unat_of_nat)

lemma u64_to_from_le: "length bs = 8 \<Longrightarrow> u64_to_le (u64_from_le bs) = bs"
  using le_nat_bound [of bs] le_bytes_le_nat [of bs]
  by (simp add: u64_to_le_def u64_from_le_def unat_of_nat)

lemma unat_u32_of_nat: "n < 2 ^ 32 \<Longrightarrow> unat (word_of_nat n :: u32) = n"
  by (simp add: unat_of_nat)

lemma unat_widen: "unat (ucast (w :: u32) :: u64) = unat w"
  using u32_bound [of w] by (simp add: unsigned_ucast_eq take_bit_nat_eq_self_iff)

lemma u32_try_from_Some: "u32_try_from n = Some w \<longleftrightarrow> n < 2 ^ 32 \<and> w = word_of_nat n"
  by (auto simp: u32_try_from_def)

lemma u32_try_from_unat: "u32_try_from n = Some w \<Longrightarrow> unat w = n"
  by (auto simp: u32_try_from_Some unat_of_nat)

lemma checked_add_u32_Some:
  "checked_add_u32 a b = Some c \<Longrightarrow> c = a + b \<and> unat c = unat a + unat b"
  by (auto simp: checked_add_u32_def unat_word_ariths split: if_splits)

lemma checked_add_u64_Some:
  "checked_add_u64 a b = Some c \<Longrightarrow> c = a + b \<and> unat c = unat a + unat b"
  by (auto simp: checked_add_u64_def unat_word_ariths split: if_splits)

lemma checked_add_usize_Some: "checked_add_usize a b = Some c \<longleftrightarrow> a + b < 2 ^ 64 \<and> c = a + b"
  by (auto simp: checked_add_usize_def)

end
