(* ===== verification/Pe_Embed.thy ===== *)
theory Pe_Embed
  imports Prelude
begin

text \<open>
  Model of \<^verbatim>\<open>crates/psign-sip-digest/src/pe_embed.rs\<close>: the optional-header offsets, the security
  data directory, the image checksum, and the three mutations of the attribute certificate
  table (append, replace one row, remove). A PE image is its byte list.

  The checksum accumulator is a \<open>nat\<close>; \<open>pe_checksum_loop_bound\<close> shows that it stays far below
  the \<open>u64\<close> range, so no wrap-around is lost. The \<^verbatim>\<open>debug_assert_eq!\<close> of
  \<^verbatim>\<open>pe_refresh_image_checksum\<close> is not part of the model (release build); what it asserts is
  \<open>refresh_checksum_stable\<close>, and it needs an even CheckSum offset.
\<close>

section \<open>Header offsets\<close>

definition WIN_CERT_REVISION_2_0 :: u16 where "WIN_CERT_REVISION_2_0 = 0x0200"
definition WIN_CERT_TYPE_PKCS_SIGNED_DATA :: u16 where "WIN_CERT_TYPE_PKCS_SIGNED_DATA = 0x0002"
definition PE32_MAGIC :: u16 where "PE32_MAGIC = 0x10b"
definition PE32PLUS_MAGIC :: u16 where "PE32PLUS_MAGIC = 0x20b"

lemmas pe_consts = WIN_CERT_REVISION_2_0_def WIN_CERT_TYPE_PKCS_SIGNED_DATA_def
  PE32_MAGIC_def PE32PLUS_MAGIC_def

definition rd16 :: "u8 list \<Rightarrow> nat \<Rightarrow> u16 res" where
  "rd16 pe off = rbind (slice_idx pe off (off + 2)) (\<lambda>b. Inr (u16_from_le b))"

definition rd32 :: "u8 list \<Rightarrow> nat \<Rightarrow> u32 res" where
  "rd32 pe off = rbind (slice_idx pe off (off + 4)) (\<lambda>b. Inr (u32_from_le b))"

definition pe_optional_header_start :: "u8 list \<Rightarrow> (nat \<times> u16) res" where
  "pe_optional_header_start pe =
     (if length pe < 0x3c + 4 then bail ''PE image too small''
      else if slice_get pe 0 2 \<noteq> Some [0x4d, 0x5a] then bail ''missing MZ DOS stub''
      else rbind (rd32 pe 0x3c) (\<lambda>lfanew. let pe_off = unat lfanew in
        if length pe < pe_off + 24 then bail ''invalid e_lfanew''
        else if slice_get pe pe_off (pe_off + 4) \<noteq> Some [0x50, 0x45, 0, 0]
          then bail ''missing PE signature''
        else let optional_start = pe_off + 4 + 20 in
          if length pe < optional_start + 2 then bail ''truncated optional header''
          else rbind (rd16 pe optional_start) (\<lambda>magic. Inr (optional_start, magic))))"

definition data_directory_entry_offset :: "nat \<Rightarrow> u16 \<Rightarrow> nat res" where
  "data_directory_entry_offset optional_start magic =
     rbind (if magic = PE32_MAGIC then Inr (optional_start + 96)
            else if magic = PE32PLUS_MAGIC then Inr (optional_start + 112)
            else bail ''unsupported optional header magic'')
       (\<lambda>dir0. Inr (dir0 + 4 * 8))"

definition number_of_rva_and_sizes_offset :: "nat \<Rightarrow> u16 \<Rightarrow> nat res" where
  "number_of_rva_and_sizes_offset optional_start magic =
     (if magic = PE32_MAGIC then Inr (optional_start + 92)
      else if magic = PE32PLUS_MAGIC then Inr (optional_start + 108)
      else bail ''unsupported optional header magic'')"

definition pe_checksum_field_file_offset :: "u8 list \<Rightarrow> nat res" where
  "pe_checksum_field_file_offset pe =
     rbind (pe_optional_header_start pe) (\<lambda>(optional_start, _). let off = optional_start + 64 in
       if length pe < off + 4 then bail ''PE image truncated before Optional Header CheckSum''
       else Inr off)"

section \<open>Image checksum\<close>

function pe_checksum_loop :: "u8 list \<Rightarrow> nat \<Rightarrow> nat \<Rightarrow> nat \<Rightarrow> nat" where
  "pe_checksum_loop img check_off i acc =
     (if i < length img then
        if check_off \<le> i \<and> i < check_off + 4
        then pe_checksum_loop img check_off (check_off + 4) acc
        else let w = (if i + 1 < length img then unat (u16_from_le [img ! i, img ! (i + 1)])
                      else unat (img ! i));
                 s = acc + w
             in pe_checksum_loop img check_off (i + 2) (s div 65536 + s mod 65536)
      else acc)"
  by pat_completeness auto
termination
  by (relation "measure (\<lambda>(img, check_off, i, acc). length img - i)") auto

declare pe_checksum_loop.simps [simp del]

function pe_checksum_fold :: "nat \<Rightarrow> nat" where
  "pe_checksum_fold acc =
     (if acc div 65536 \<noteq> 0 then pe_checksum_fold (acc div 65536 + acc mod 65536) else acc)"
  by pat_completeness auto
termination
proof (relation "measure id", goal_cases)
  case (2 acc)
  have "acc = 65536 * (acc div 65536) + acc mod 65536" by simp
  with 2 have "acc div 65536 + acc mod 65536 < acc" by linarith
  then show ?case by simp
qed simp

declare pe_checksum_fold.simps [simp del]

definition pe_compute_image_checksum :: "u8 list \<Rightarrow> u32 res" where
  "pe_compute_image_checksum img =
     rbind (pe_checksum_field_file_offset img) (\<lambda>check_off.
       let acc = pe_checksum_fold (pe_checksum_loop img check_off 0 0)
       in Inr (word_of_nat acc + word_of_nat (length img)))"

definition pe_write_image_checksum :: "u8 list \<Rightarrow> u32 \<Rightarrow> u8 list res" where
  "pe_write_image_checksum img checksum =
     rbind (pe_checksum_field_file_offset img) (\<lambda>off. copy_at img off (u32_to_le checksum))"

definition pe_read_image_checksum :: "u8 list \<Rightarrow> u32 res" where
  "pe_read_image_checksum img =
     rbind (pe_checksum_field_file_offset img) (\<lambda>off. rd32 img off)"

definition pe_refresh_image_checksum :: "u8 list \<Rightarrow> u8 list res" where
  "pe_refresh_image_checksum img =
     rbind (pe_compute_image_checksum img) (\<lambda>c. pe_write_image_checksum img c)"

section \<open>Security data directory\<close>

definition read_security_data_directory :: "u8 list \<Rightarrow> (u32 \<times> u32) res" where
  "read_security_data_directory pe =
     rbind (pe_optional_header_start pe) (\<lambda>(optional_start, magic).
     rbind (number_of_rva_and_sizes_offset optional_start magic) (\<lambda>num_rva_off.
       if length pe < num_rva_off + 4 then bail ''truncated NumberOfRvaAndSizes''
       else rbind (rd32 pe num_rva_off) (\<lambda>num.
         if unat num \<le> 4 then bail ''PE optional header has only few data directories''
         else rbind (data_directory_entry_offset optional_start magic) (\<lambda>dd_off.
           if length pe < dd_off + 8 then bail ''truncated security data directory''
           else rbind (rd32 pe dd_off) (\<lambda>va.
                rbind (rd32 pe (dd_off + 4)) (\<lambda>size. Inr (va, size)))))))"

definition write_security_data_directory :: "u8 list \<Rightarrow> u32 \<Rightarrow> u32 \<Rightarrow> u8 list res" where
  "write_security_data_directory pe cert_file_ptr cert_size =
     rbind (pe_optional_header_start pe) (\<lambda>(optional_start, magic).
     rbind (data_directory_entry_offset optional_start magic) (\<lambda>dd_off.
       if length pe < dd_off + 8 then bail ''truncated security data directory (write)''
       else rbind (copy_at pe dd_off (u32_to_le cert_file_ptr)) (\<lambda>pe1.
            copy_at pe1 (dd_off + 4) (u32_to_le cert_size))))"

definition validate_attribute_certificate_table_alignment :: "u32 \<Rightarrow> u32 \<Rightarrow> unit res" where
  "validate_attribute_certificate_table_alignment cert_file_ptr cert_size =
     (if cert_file_ptr = 0 \<and> cert_size = 0 then Inr ()
      else if cert_file_ptr = 0 \<or> cert_size = 0
        then bail ''incomplete PE certificate table directory''
      else if unat cert_file_ptr mod 8 \<noteq> 0
        then bail ''PE certificate table offset is not 8-byte aligned''
      else if unat cert_size mod 8 \<noteq> 0
        then bail ''PE certificate table size is not 8-byte aligned''
      else Inr ())"

definition pe_validate_attribute_certificate_table_alignment :: "u8 list \<Rightarrow> unit res" where
  "pe_validate_attribute_certificate_table_alignment pe_image =
     rbind (read_security_data_directory pe_image) (\<lambda>(va, size).
       validate_attribute_certificate_table_alignment va size)"

section \<open>Certificate table mutations\<close>

function pad_to_8 :: "u8 list \<Rightarrow> u8 list" where
  "pad_to_8 body = (if length body mod 8 \<noteq> 0 then pad_to_8 (body @ [0]) else body)"
  by pat_completeness auto
termination
  by (relation "measure (\<lambda>body. if length body mod 8 = 0 then 0 else 8 - length body mod 8)")
    (auto simp: mod_Suc)

declare pad_to_8.simps [simp del]

definition wrap_pkcs7_der_authenticode_win_certificate :: "u8 list \<Rightarrow> u8 list" where
  "wrap_pkcs7_der_authenticode_win_certificate pkcs7_der =
     (let body = replicate (8 + length pkcs7_der) 0;
          body = patch body 4 (u16_to_le WIN_CERT_REVISION_2_0);
          body = patch body 6 (u16_to_le WIN_CERT_TYPE_PKCS_SIGNED_DATA);
          body = patch body 8 pkcs7_der;
          body = pad_to_8 body
      in patch body 0 (u32_to_le (word_of_nat (length body))))"

definition pe_prepare_for_authenticode_signing :: "u8 list \<Rightarrow> u8 list res" where
  "pe_prepare_for_authenticode_signing pe_image =
     rbind (read_security_data_directory pe_image) (\<lambda>(cert_file_ptr, cert_size).
     rbind (validate_attribute_certificate_table_alignment cert_file_ptr cert_size) (\<lambda>_.
       if cert_file_ptr \<noteq> 0 then Inr pe_image
       else let remainder = length pe_image mod 8; padding = (8 - remainder) mod 8 in
         rbind (ok_or (checked_add_usize (length pe_image) padding)
                  ''PE image length overflow while aligning certificate table'') (\<lambda>padded_len.
           Inr (pe_image @ replicate (padded_len - length pe_image) 0))))"

definition pe_append_authenticode_pkcs7_certificate :: "u8 list \<Rightarrow> u8 list \<Rightarrow> u8 list res" where
  "pe_append_authenticode_pkcs7_certificate pe_image pkcs7_der =
     (let wrapped = wrap_pkcs7_der_authenticode_win_certificate pkcs7_der in
      rbind (read_security_data_directory pe_image) (\<lambda>(va, size).
      rbind (validate_attribute_certificate_table_alignment va size) (\<lambda>_.
        if va = 0 \<and> size = 0 then
          if length pe_image mod 8 \<noteq> 0
          then bail ''PE image length is not 8-byte aligned; prepare it first''
          else rbind (ok_or (u32_try_from (length pe_image))
                   ''PE certificate table offset exceeds u32'') (\<lambda>off.
               rbind (ok_or (u32_try_from (length wrapped))
                   ''WIN_CERTIFICATE size exceeds u32'') (\<lambda>wrapped_len.
               rbind (write_security_data_directory (pe_image @ wrapped) off wrapped_len)
                 pe_refresh_image_checksum))
        else let start = unat va in
          rbind (ok_or (checked_add_usize start (unat size)) ''security directory size overflow'')
            (\<lambda>end.
            if length pe_image < start then bail ''security directory pointer past EOF''
            else rbind (if end < length pe_image then Inr (take end pe_image)
                        else if length pe_image < end
                          then bail ''security directory end beyond EOF''
                        else Inr pe_image) (\<lambda>pe_image.
              rbind (ok_or (u32_try_from (length wrapped)) ''WIN_CERTIFICATE size exceeds u32'')
                (\<lambda>wrapped_len.
              rbind (ok_or (checked_add_u32 size wrapped_len) ''certificate table size overflow'')
                (\<lambda>new_size.
              rbind (write_security_data_directory (pe_image @ wrapped) va new_size)
                pe_refresh_image_checksum)))))))"

function pe_replace_loop ::
  "u8 list \<Rightarrow> nat \<Rightarrow> u8 list \<Rightarrow> nat \<Rightarrow> nat \<Rightarrow> bool \<Rightarrow> u8 list \<Rightarrow> (bool \<times> u8 list) res" where
  "pe_replace_loop table pkcs7_index replacement offset pkcs7_seen replaced rebuilt =
     (if offset < length table then
        if length table < offset + 8 then bail ''truncated WIN_CERTIFICATE header''
        else let len = unat (u32_from_le (sub table offset 4)) in
          if len < 8 \<or> length table < offset + len then bail ''invalid WIN_CERTIFICATE length''
          else let cert_type = u16_from_le (sub table (offset + 6) 2);
                   row = sub table offset len
            in if cert_type = WIN_CERT_TYPE_PKCS_SIGNED_DATA then
                 if pkcs7_seen = pkcs7_index
                 then pe_replace_loop table pkcs7_index replacement (offset + len)
                        (pkcs7_seen + 1) True (rebuilt @ replacement)
                 else pe_replace_loop table pkcs7_index replacement (offset + len)
                        (pkcs7_seen + 1) replaced (rebuilt @ row)
               else pe_replace_loop table pkcs7_index replacement (offset + len)
                      pkcs7_seen replaced (rebuilt @ row)
      else Inr (replaced, rebuilt))"
  by pat_completeness auto
termination
  by (relation "measure (\<lambda>(table, _, _, offset, _). length table - offset)")
    (simp_all only: wf_measure in_measure case_prod_conv, linarith+)

declare pe_replace_loop.simps [simp del]

definition pe_replace_authenticode_pkcs7_certificate_at ::
  "u8 list \<Rightarrow> nat \<Rightarrow> u8 list \<Rightarrow> u8 list res" where
  "pe_replace_authenticode_pkcs7_certificate_at pe_image pkcs7_index pkcs7_der =
     (let replacement = wrap_pkcs7_der_authenticode_win_certificate pkcs7_der in
      rbind (read_security_data_directory pe_image) (\<lambda>(va, size).
        if va = 0 \<or> size = 0 then bail ''PE has no certificate table''
        else let start = unat va in
          rbind (ok_or (checked_add_usize start (unat size)) ''security directory size overflow'')
            (\<lambda>end.
            if length pe_image < start \<or> length pe_image < end
            then bail ''security directory range is outside PE length''
            else rbind (slice_idx pe_image start end) (\<lambda>table.
              rbind (pe_replace_loop table pkcs7_index replacement 0 0 False []) (\<lambda>(replaced, rebuilt).
                if \<not> replaced then bail ''no PKCS#7 Authenticode entry at index''
                else rbind (write_security_data_directory (take start pe_image @ rebuilt) va
                             (word_of_nat (length rebuilt)))
                       pe_refresh_image_checksum)))))"

definition pe_remove_authenticode_certificates :: "u8 list \<Rightarrow> (u8 list \<times> nat) res" where
  "pe_remove_authenticode_certificates pe_image =
     rbind (read_security_data_directory pe_image) (\<lambda>(va, size).
       if va = 0 \<or> size = 0 then Inr (pe_image, 0)
       else let start = unat va in
         rbind (ok_or (checked_add_usize start (unat size)) ''security directory size overflow'')
           (\<lambda>end.
           if length pe_image < start \<or> length pe_image < end
           then bail ''security directory range is outside PE length''
           else rbind (write_security_data_directory (take start pe_image @ drop end pe_image) 0 0)
                  (\<lambda>pe_image. rbind (pe_refresh_image_checksum pe_image)
                  (\<lambda>pe_image. Inr (pe_image, unat size)))))"


section \<open>The header survives writes behind it\<close>

lemma rd16_Inr [res_simps]: "rd16 pe off = Inr w \<longleftrightarrow> off + 2 \<le> length pe \<and> w = u16_from_le (sub pe off 2)"
  by (auto simp: rd16_def rbind_Inr_iff slice_idx_Inr)

lemma rd32_Inr [res_simps]: "rd32 pe off = Inr w \<longleftrightarrow> off + 4 \<le> length pe \<and> w = u32_from_le (sub pe off 4)"
  by (auto simp: rd32_def rbind_Inr_iff slice_idx_Inr)

lemma rd16_ok [simp]: "off + 2 \<le> length pe \<Longrightarrow> rd16 pe off = Inr (u16_from_le (sub pe off 2))"
  by (simp add: rd16_Inr)

lemma rd32_ok [simp]: "off + 4 \<le> length pe \<Longrightarrow> rd32 pe off = Inr (u32_from_le (sub pe off 4))"
  by (simp add: rd32_Inr)

definition lfanew :: "u8 list \<Rightarrow> nat" where
  "lfanew pe = unat (u32_from_le (sub pe 0x3c 4))"

lemma pe_optional_header_start_Inr:
  "pe_optional_header_start pe = Inr (opt, magic) \<longleftrightarrow>
   64 \<le> length pe \<and> sub pe 0 2 = [0x4d, 0x5a] \<and> lfanew pe + 26 \<le> length pe \<and>
   sub pe (lfanew pe) 4 = [0x50, 0x45, 0, 0] \<and> opt = lfanew pe + 24 \<and>
   magic = u16_from_le (sub pe opt 2)"
  unfolding pe_optional_header_start_def lfanew_def Let_def res_simps rd16_Inr rd32_Inr
  by (auto simp: slice_get_def add.commute)

text \<open>The header is read from bytes in front of the CheckSum field only.\<close>

lemma optional_header_start_cong:
  assumes "pe_optional_header_start pe = Inr (opt, magic)"
    and "take (opt + 64) pe' = take (opt + 64) pe"
    and "opt + 64 \<le> length pe" and "opt + 64 \<le> length pe'"
  shows "pe_optional_header_start pe' = Inr (opt, magic)"
proof -
  have opt: "opt = lfanew pe + 24"
    using assms(1) by (simp add: pe_optional_header_start_Inr)
  have same: "sub pe' a n = sub pe a n" if "a + n \<le> opt + 64" for a n
    using that assms(2) by (metis sub_take)
  have lf: "lfanew pe' = lfanew pe"
    unfolding lfanew_def using opt by (subst same) simp_all
  have "sub pe' 0 2 = sub pe 0 2" "sub pe' (lfanew pe) 4 = sub pe (lfanew pe) 4"
    "sub pe' opt 2 = sub pe opt 2"
    using opt by (simp_all add: same)
  with lf assms opt show ?thesis
    by (simp add: pe_optional_header_start_Inr)
qed

lemma data_directory_entry_offset_Inr:
  "data_directory_entry_offset opt magic = Inr dd \<longleftrightarrow>
   magic = PE32_MAGIC \<and> dd = opt + 128 \<or> magic = PE32PLUS_MAGIC \<and> dd = opt + 144"
  by (auto simp: data_directory_entry_offset_def rbind_Inr_iff pe_consts)

lemma number_of_rva_and_sizes_offset_eq:
  "data_directory_entry_offset opt magic = Inr dd \<Longrightarrow>
   number_of_rva_and_sizes_offset opt magic = Inr (dd - 36)"
  by (auto simp: number_of_rva_and_sizes_offset_def data_directory_entry_offset_Inr pe_consts)

lemma number_of_rva_and_sizes_offset_Inr:
  "number_of_rva_and_sizes_offset opt magic = Inr nr \<Longrightarrow>
   data_directory_entry_offset opt magic = Inr (nr + 36)"
  by (auto simp: number_of_rva_and_sizes_offset_def data_directory_entry_offset_Inr pe_consts
      split: if_splits)

text \<open>
  \<open>pe_fields pe opt magic dd\<close>: the header is accepted, and CheckSum, NumberOfRvaAndSizes and
  the security directory entry (at \<open>dd\<close>) are inside the file.
\<close>

definition pe_fields :: "u8 list \<Rightarrow> nat \<Rightarrow> u16 \<Rightarrow> nat \<Rightarrow> bool" where
  "pe_fields pe opt magic dd \<longleftrightarrow>
     pe_optional_header_start pe = Inr (opt, magic) \<and>
     data_directory_entry_offset opt magic = Inr dd \<and>
     dd + 8 \<le> length pe \<and> 4 < unat (u32_from_le (sub pe (dd - 36) 4))"

lemma pe_fields_dd: "pe_fields pe opt magic dd \<Longrightarrow> opt + 128 \<le> dd \<and> dd \<le> opt + 144"
  by (auto simp: pe_fields_def data_directory_entry_offset_Inr)

lemma pe_fields_len: "pe_fields pe opt magic dd \<Longrightarrow> dd + 8 \<le> length pe"
  by (simp add: pe_fields_def)

lemma read_security_data_directory_fields:
  assumes "pe_fields pe opt magic dd"
  shows "read_security_data_directory pe =
     Inr (u32_from_le (sub pe dd 4), u32_from_le (sub pe (dd + 4) 4))"
proof -
  have "pe_optional_header_start pe = Inr (opt, magic)"
    "data_directory_entry_offset opt magic = Inr dd" "dd + 8 \<le> length pe"
    "\<not> unat (u32_from_le (sub pe (dd - 36) 4)) \<le> 4"
    "number_of_rva_and_sizes_offset opt magic = Inr (dd - 36)"
    using assms number_of_rva_and_sizes_offset_eq by (auto simp: pe_fields_def)
  then show ?thesis
    by (simp add: read_security_data_directory_def)
qed

lemma read_security_data_directory_Inr:
  assumes "read_security_data_directory pe = Inr (va, sz)"
  obtains opt magic dd where "pe_fields pe opt magic dd"
    "va = u32_from_le (sub pe dd 4)" "sz = u32_from_le (sub pe (dd + 4) 4)"
proof -
  from assms obtain opt magic nr dd where
    "pe_optional_header_start pe = Inr (opt, magic)"
    and nr: "number_of_rva_and_sizes_offset opt magic = Inr nr"
    and "4 < unat (u32_from_le (sub pe nr 4))"
    and dd: "data_directory_entry_offset opt magic = Inr dd" "dd + 8 \<le> length pe"
    by (auto simp: read_security_data_directory_def rbind_Inr_iff rd32_Inr split: if_splits)
  moreover have "nr = dd - 36"
    using number_of_rva_and_sizes_offset_Inr [OF nr] dd by simp
  ultimately have "pe_fields pe opt magic dd"
    by (simp add: pe_fields_def)
  with that assms show ?thesis
    by (simp add: read_security_data_directory_fields)
qed

lemma pe_fields_unique:
  "pe_fields pe opt magic dd \<Longrightarrow> pe_fields pe opt' magic' dd' \<Longrightarrow> opt = opt' \<and> magic = magic' \<and> dd = dd'"
  by (auto simp: pe_fields_def)

lemma checksum_offset_fields:
  assumes "pe_fields pe opt magic dd"
  shows "pe_checksum_field_file_offset pe = Inr (opt + 64)"
proof -
  have "opt + 68 \<le> length pe"
    using pe_fields_dd [OF assms] pe_fields_len [OF assms] by simp
  with assms show ?thesis
    by (simp add: pe_checksum_field_file_offset_def pe_fields_def)
qed

text \<open>
  A file that differs at most in CheckSum, in the security directory entry and behind it has
  the same fields.
\<close>

lemma pe_fields_cong:
  assumes "pe_fields pe opt magic dd"
    and "take (opt + 64) pe' = take (opt + 64) pe"
    and "sub pe' (dd - 36) 4 = sub pe (dd - 36) 4"
    and "dd + 8 \<le> length pe'"
  shows "pe_fields pe' opt magic dd"
proof -
  have "opt + 64 \<le> length pe" "opt + 64 \<le> length pe'"
    using pe_fields_dd [OF assms(1)] pe_fields_len [OF assms(1)] assms(4) by simp_all
  then have "pe_optional_header_start pe' = Inr (opt, magic)"
    using assms(1,2) unfolding pe_fields_def by (blast intro: optional_header_start_cong)
  then show ?thesis
    using assms(1,3,4) unfolding pe_fields_def by presburger
qed

lemma pe_fields_patch_checksum:
  assumes "pe_fields pe opt magic dd" "length ys = 4"
  shows "pe_fields (patch pe (opt + 64) ys) opt magic dd"
proof (rule pe_fields_cong [OF assms(1)])
  have le: "opt + 64 + length ys \<le> length pe" "opt + 64 + length ys \<le> dd - 36" "dd + 8 \<le> length pe"
    using pe_fields_dd [OF assms(1)] pe_fields_len [OF assms(1)] assms(2) by linarith+
  show "take (opt + 64) (patch pe (opt + 64) ys) = take (opt + 64) pe"
    using le by (simp add: take_patch)
  show "sub (patch pe (opt + 64) ys) (dd - 36) 4 = sub pe (dd - 36) 4"
    using le by (simp add: sub_patch_after)
  show "dd + 8 \<le> length (patch pe (opt + 64) ys)"
    using le by (simp add: length_patch)
qed

lemma pe_fields_patch_behind:
  assumes "pe_fields pe opt magic dd" "dd \<le> a" "a + length ys \<le> length pe"
  shows "pe_fields (patch pe a ys) opt magic dd"
proof (rule pe_fields_cong [OF assms(1)])
  have le: "opt + 64 \<le> a" "dd - 36 + 4 \<le> a" "dd + 8 \<le> length pe"
    using pe_fields_dd [OF assms(1)] pe_fields_len [OF assms(1)] assms(2) by simp_all
  show "take (opt + 64) (patch pe a ys) = take (opt + 64) pe"
    using le assms(3) by (simp add: take_patch)
  show "sub (patch pe a ys) (dd - 36) 4 = sub pe (dd - 36) 4"
    using le assms(3) by (simp add: sub_patch_before)
  show "dd + 8 \<le> length (patch pe a ys)"
    using le assms(3) by (simp add: length_patch)
qed

lemma pe_fields_take_append:
  assumes "pe_fields pe opt magic dd" "dd + 8 \<le> n" "n \<le> length pe"
  shows "pe_fields (take n pe @ ys) opt magic dd"
proof (rule pe_fields_cong [OF assms(1)])
  have le: "opt + 64 \<le> n" "dd - 36 + 4 \<le> n"
    using pe_fields_dd [OF assms(1)] assms(2) by simp_all
  show "take (opt + 64) (take n pe @ ys) = take (opt + 64) pe"
    using le assms(3) by (simp add: min_def)
  show "sub (take n pe @ ys) (dd - 36) 4 = sub pe (dd - 36) 4"
    using le assms(3) by (simp add: sub_append_left sub_take)
  show "dd + 8 \<le> length (take n pe @ ys)"
    using assms(2,3) by simp
qed

lemma pe_fields_append: "pe_fields pe opt magic dd \<Longrightarrow> pe_fields (pe @ ys) opt magic dd"
  using pe_fields_take_append [of pe opt magic dd "length pe" ys] by (simp add: pe_fields_len)

section \<open>Checksum\<close>

lemma checksum_step_bound: "acc \<le> 65537 \<Longrightarrow> w < 65536 \<Longrightarrow> (acc + w) div 65536 + (acc + w) mod 65536 \<le> (65537::nat)"
proof -
  assume a: "acc \<le> 65537" "w < 65536"
  have "acc + w = 65536 * ((acc + w) div 65536) + (acc + w) mod 65536" by simp
  moreover have "(acc + w) mod 65536 < 65536" by simp
  ultimately show ?thesis using a by linarith
qed

lemma pe_checksum_loop_bound: "acc \<le> 65537 \<Longrightarrow> pe_checksum_loop img off i acc \<le> 65537"
proof (induction img off i acc rule: pe_checksum_loop.induct)
  case (1 img off i acc)
  let ?w = "if i + 1 < length img then unat (u16_from_le [img ! i, img ! (i + 1)]) else unat (img ! i)"
  have "?w < 65536"
    using u16_bound [of "u16_from_le [img ! i, img ! (i + 1)]"] u8_bound [of "img ! i"] by simp
  with 1 checksum_step_bound [of acc ?w] show ?case
    by (subst pe_checksum_loop.simps) (simp add: Let_def)
qed

lemma pe_checksum_loop_patch:
  "even off \<Longrightarrow> even i \<Longrightarrow> length ys = 4 \<Longrightarrow> off + 4 \<le> length img \<Longrightarrow>
   pe_checksum_loop (patch img off ys) off i acc = pe_checksum_loop img off i acc"
proof (induction img off i acc rule: pe_checksum_loop.induct)
  case (1 img off i acc)
  have len: "length (patch img off ys) = length img"
    using "1.prems" by (simp add: length_patch)
  have nth: "patch img off ys ! j = img ! j" if "j < length img" "\<not> (off \<le> j \<and> j < off + 4)" for j
    using that "1.prems" by (subst nth_patch) auto
  have outside: "\<not> (off \<le> i + 1 \<and> i + 1 < off + 4)" if "\<not> (off \<le> i \<and> i < off + 4)"
    using that "1.prems"(1,2) by (auto elim!: evenE)
  show ?case
  proof (cases "i < length img \<and> \<not> (off \<le> i \<and> i < off + 4)")
    case True
    then have "i + 1 < length img \<Longrightarrow> patch img off ys ! (i + 1) = img ! (i + 1)"
      using nth outside by blast
    with True show ?thesis
      using "1.IH"(2) "1.prems" nth [of i]
      by (subst (1 2) pe_checksum_loop.simps) (auto simp: len Let_def)
  next
    case False
    then show ?thesis
      using "1.IH"(1) "1.prems"
      by (subst (1 2) pe_checksum_loop.simps) (auto simp: len)
  qed
qed

lemma pe_compute_image_checksum_fields:
  "pe_fields pe opt magic dd \<Longrightarrow> pe_compute_image_checksum pe =
     Inr (word_of_nat (pe_checksum_fold (pe_checksum_loop pe (opt + 64) 0 0)) + word_of_nat (length pe))"
  by (simp add: pe_compute_image_checksum_def checksum_offset_fields)

lemma pe_write_image_checksum_fields:
  assumes "pe_fields pe opt magic dd"
  shows "pe_write_image_checksum pe c = Inr (patch pe (opt + 64) (u32_to_le c))"
proof -
  have "opt + 64 + length (u32_to_le c) \<le> length pe"
    using pe_fields_dd [OF assms] pe_fields_len [OF assms] by simp
  then show ?thesis
    unfolding pe_write_image_checksum_def checksum_offset_fields [OF assms] rbind.simps
    by (rule copy_at_ok)
qed

lemma pe_refresh_fields:
  assumes "pe_fields pe opt magic dd"
  obtains c where "pe_compute_image_checksum pe = Inr c"
    and "pe_refresh_image_checksum pe = Inr (patch pe (opt + 64) (u32_to_le c))"
  using pe_compute_image_checksum_fields [OF assms] pe_write_image_checksum_fields [OF assms]
  by (simp add: pe_refresh_image_checksum_def)

lemma checksum_ignores_field:
  assumes "pe_fields pe opt magic dd" "even opt" "length ys = 4"
  shows "pe_compute_image_checksum (patch pe (opt + 64) ys) = pe_compute_image_checksum pe"
proof -
  have le: "opt + 64 + 4 \<le> length pe"
    using pe_fields_dd [OF assms(1)] pe_fields_len [OF assms(1)] by simp
  then show ?thesis
    using assms by (simp add: pe_compute_image_checksum_fields [OF pe_fields_patch_checksum]
        pe_compute_image_checksum_fields length_patch pe_checksum_loop_patch)
qed

lemma pe_read_image_checksum_fields:
  assumes "pe_fields pe opt magic dd"
  shows "pe_read_image_checksum pe = Inr (u32_from_le (sub pe (opt + 64) 4))"
proof -
  have "opt + 64 + 4 \<le> length pe"
    using pe_fields_dd [OF assms] pe_fields_len [OF assms] by simp
  then show ?thesis
    by (simp add: pe_read_image_checksum_def checksum_offset_fields [OF assms])
qed

section \<open>The WIN\_CERTIFICATE record\<close>

lemma pad_to_8_eq: "pad_to_8 body = body @ replicate ((8 - length body mod 8) mod 8) 0"
proof (induction body rule: pad_to_8.induct)
  case (1 body)
  show ?case
  proof (cases "length body mod 8 = 0")
    case True
    then show ?thesis by (simp add: pad_to_8.simps)
  next
    case False
    then have "(8 - length body mod 8) mod 8 = Suc ((8 - Suc (length body) mod 8) mod 8)"
      by (auto simp: mod_Suc)
    with 1 False show ?thesis by (simp add: pad_to_8.simps [of body])
  qed
qed

definition win_certificate_padding :: "nat \<Rightarrow> nat" where
  "win_certificate_padding n = (8 - n mod 8) mod 8"

lemma win_certificate_padding_mod: "(n + win_certificate_padding n) mod 8 = 0"
proof (cases "n mod 8 = 0")
  case False
  have "n + (8 - r) = 8 * (q + 1)" if "n = 8 * q + r" "r < 8" for q r
    using that by simp
  from this [of "n div 8" "n mod 8"] have "n + (8 - n mod 8) = 8 * (n div 8 + 1)"
    by simp
  with False show ?thesis by (simp add: win_certificate_padding_def)
qed (simp add: win_certificate_padding_def)

lemma wrap_body:
  assumes "length a = 2" "length b = 2"
  shows "patch (patch (patch (replicate (8 + length p) 0) 4 a) 6 b) 8 p = replicate 4 0 @ a @ b @ p"
  using assms by (simp add: patch_def min_def)

lemma wrap_eq:
  "wrap_pkcs7_der_authenticode_win_certificate p =
     (let n = 8 + length p; pad = win_certificate_padding n in
      u32_to_le (word_of_nat (n + pad)) @ u16_to_le WIN_CERT_REVISION_2_0 @
      u16_to_le WIN_CERT_TYPE_PKCS_SIGNED_DATA @ p @ replicate pad 0)"
proof -
  let ?b = "replicate 4 (0 :: u8) @ u16_to_le WIN_CERT_REVISION_2_0 @
      u16_to_le WIN_CERT_TYPE_PKCS_SIGNED_DATA @ p"
  have b: "patch (patch (patch (replicate (8 + length p) 0) 4 (u16_to_le WIN_CERT_REVISION_2_0))
      6 (u16_to_le WIN_CERT_TYPE_PKCS_SIGNED_DATA)) 8 p = ?b"
    by (rule wrap_body) simp_all
  have l: "length ?b = 8 + length p" by simp
  have "patch (?b @ zs) 0 (u32_to_le c) =
      u32_to_le c @ u16_to_le WIN_CERT_REVISION_2_0 @ u16_to_le WIN_CERT_TYPE_PKCS_SIGNED_DATA @ p @ zs" for c zs
    by (simp add: patch_def)
  then show ?thesis
    unfolding wrap_pkcs7_der_authenticode_win_certificate_def Let_def b pad_to_8_eq l
      win_certificate_padding_def by (simp only: length_append [of ?b] length_replicate l)
qed

lemma length_wrap: "length (wrap_pkcs7_der_authenticode_win_certificate p) =
    8 + length p + win_certificate_padding (8 + length p)"
  by (simp add: wrap_eq Let_def)

lemma wrap_mod_8: "length (wrap_pkcs7_der_authenticode_win_certificate p) mod 8 = 0"
  unfolding length_wrap by (rule win_certificate_padding_mod)

lemma wrap_fields:
  "sub (wrap_pkcs7_der_authenticode_win_certificate p) 0 4 =
     u32_to_le (word_of_nat (length (wrap_pkcs7_der_authenticode_win_certificate p)))"
  "sub (wrap_pkcs7_der_authenticode_win_certificate p) 6 2 = u16_to_le WIN_CERT_TYPE_PKCS_SIGNED_DATA"
  "sub (wrap_pkcs7_der_authenticode_win_certificate p) 8 (length p) = p"
  by (simp_all add: wrap_eq Let_def sub_def add.assoc)

section \<open>Rows of the certificate table\<close>

definition wf_row :: "u8 list \<Rightarrow> bool" where
  "wf_row r \<longleftrightarrow> 8 \<le> length r \<and> unat (u32_from_le (sub r 0 4)) = length r"

definition row_is_pkcs7 :: "u8 list \<Rightarrow> bool" where
  "row_is_pkcs7 r \<longleftrightarrow> u16_from_le (sub r 6 2) = WIN_CERT_TYPE_PKCS_SIGNED_DATA"

lemma wf_row_wrap:
  "length (wrap_pkcs7_der_authenticode_win_certificate p) < 2 ^ 32 \<Longrightarrow>
   wf_row (wrap_pkcs7_der_authenticode_win_certificate p)"
  by (simp add: wf_row_def wrap_fields unat_of_nat) (simp add: length_wrap)

lemma row_is_pkcs7_wrap: "row_is_pkcs7 (wrap_pkcs7_der_authenticode_win_certificate p)"
  by (simp add: row_is_pkcs7_def wrap_fields)

fun replace_nth_pkcs7 :: "nat \<Rightarrow> u8 list \<Rightarrow> u8 list list \<Rightarrow> u8 list list option" where
  "replace_nth_pkcs7 k new [] = None"
| "replace_nth_pkcs7 k new (r # rs) =
     (if row_is_pkcs7 r then
        (case k of 0 \<Rightarrow> Some (new # rs) | Suc j \<Rightarrow> map_option ((#) r) (replace_nth_pkcs7 j new rs))
      else map_option ((#) r) (replace_nth_pkcs7 k new rs))"

lemma pe_replace_loop_row:
  assumes "wf_row r"
  shows "pe_replace_loop (pre @ r @ post) k new (length pre) seen rep out =
    (if row_is_pkcs7 r then
       if seen = k then pe_replace_loop (pre @ r @ post) k new (length (pre @ r)) (seen + 1) True (out @ new)
       else pe_replace_loop (pre @ r @ post) k new (length (pre @ r)) (seen + 1) rep (out @ r)
     else pe_replace_loop (pre @ r @ post) k new (length (pre @ r)) seen rep (out @ r))"
proof -
  have l: "8 \<le> length r" "unat (u32_from_le (sub r 0 4)) = length r" and ne: "r \<noteq> []"
    using assms by (auto simp: wf_row_def)
  have s: "sub (pre @ r @ post) (length pre) 4 = sub r 0 4"
    "sub (pre @ r @ post) (length pre + 6) 2 = sub r 6 2"
    "sub (pre @ r @ post) (length pre) (length r) = r"
    using l(1) by (simp_all add: sub_append_right sub_append_left)
  have g: "\<not> length r + length post < 8" "\<not> length r < 8"
    using l(1) by simp_all
  show ?thesis
    unfolding pe_replace_loop.simps [of "pre @ r @ post" k new "length pre"] Let_def s l(2)
    by (simp add: g ne row_is_pkcs7_def)
qed

lemma pe_replace_loop_done:
  "\<forall>r\<in>set rows. wf_row r \<Longrightarrow> k < seen \<Longrightarrow>
   pe_replace_loop (pre @ concat rows) k new (length pre) seen rep out = Inr (rep, out @ concat rows)"
proof (induction rows arbitrary: pre seen out)
  case Nil
  then show ?case by (simp add: pe_replace_loop.simps)
next
  case (Cons r rows)
  then show ?case
    using Cons.IH [of _ "pre @ r" "out @ r"]
    by (simp add: pe_replace_loop_row del: length_append)
qed

lemma pe_replace_loop_rows:
  "\<forall>r\<in>set rows. wf_row r \<Longrightarrow> seen \<le> k \<Longrightarrow>
   pe_replace_loop (pre @ concat rows) k new (length pre) seen rep out =
     (case replace_nth_pkcs7 (k - seen) new rows of
        None \<Rightarrow> Inr (rep, out @ concat rows)
      | Some rows' \<Rightarrow> Inr (True, out @ concat rows'))"
proof (induction rows arbitrary: pre seen out)
  case Nil
  then show ?case by (simp add: pe_replace_loop.simps)
next
  case (Cons r rows)
  have wf: "wf_row r" "\<forall>r\<in>set rows. wf_row r" using Cons.prems by simp_all
  show ?case
  proof (cases "row_is_pkcs7 r \<and> seen = k")
    case True
    then show ?thesis
      using wf pe_replace_loop_done [OF wf(2), of k "seen + 1" "pre @ r" new True "out @ new"]
      by (simp add: pe_replace_loop_row del: length_append)
  next
    case False
    then have "row_is_pkcs7 r \<Longrightarrow> k - seen = Suc (k - (seen + 1))" "row_is_pkcs7 r \<Longrightarrow> seen + 1 \<le> k"
      using Cons.prems(2) by auto
    then show ?thesis
      using wf False Cons.prems(2) Cons.IH [OF wf(2), of "seen + 1" "pre @ r" "out @ r"]
        Cons.IH [OF wf(2), of seen "pre @ r" "out @ r"]
      by (auto simp: pe_replace_loop_row simp del: length_append split: option.splits)
  qed
qed

section \<open>Mutations as operations on the row list\<close>

lemma write_dir_fields:
  assumes "pe_fields pe opt magic dd"
  shows "write_security_data_directory pe a b = Inr (patch pe dd (u32_to_le a @ u32_to_le b))"
proof -
  have "dd + 4 + 4 \<le> length pe" using pe_fields_len [OF assms] by simp
  moreover have "pe_optional_header_start pe = Inr (opt, magic)"
    "data_directory_entry_offset opt magic = Inr dd"
    using assms by (simp_all add: pe_fields_def)
  moreover have "patch (patch pe dd (u32_to_le a)) (dd + 4) (u32_to_le b)
      = patch pe dd (u32_to_le a @ u32_to_le b)"
    using pe_fields_len [OF assms] patch_adjacent [of dd "u32_to_le a" "u32_to_le b" pe] by simp
  ultimately show ?thesis
    by (simp add: write_security_data_directory_def length_patch)
qed

lemma write_and_refresh:
  assumes "pe_fields pe opt magic dd"
  shows "\<exists>out.
    rbind (write_security_data_directory pe a b) pe_refresh_image_checksum = Inr out \<and>
    pe_fields out opt magic dd \<and> read_security_data_directory out = Inr (a, b) \<and>
    length out = length pe \<and> (\<forall>i n. dd + 8 \<le> i \<longrightarrow> sub out i n = sub pe i n) \<and>
    (even opt \<longrightarrow> pe_read_image_checksum out = pe_compute_image_checksum out) \<and>
    (\<exists>c. out = patch (patch pe dd (u32_to_le a @ u32_to_le b)) (opt + 64) (u32_to_le c))"
proof -
  let ?w = "patch pe dd (u32_to_le a @ u32_to_le b)"
  have len: "dd + 8 \<le> length pe" "opt + 64 + 4 \<le> dd" "opt + 128 \<le> dd"
    using pe_fields_dd [OF assms] pe_fields_len [OF assms] by linarith+
  have w: "pe_fields ?w opt magic dd"
    using assms len by (intro pe_fields_patch_behind) simp_all
  have lw: "length ?w = length pe" using len by (simp add: length_patch)
  from pe_refresh_fields [OF w] obtain c
    where c: "pe_compute_image_checksum ?w = Inr c"
      and r: "pe_refresh_image_checksum ?w = Inr (patch ?w (opt + 64) (u32_to_le c))" .
  let ?o = "patch ?w (opt + 64) (u32_to_le c)"
  have o: "pe_fields ?o opt magic dd"
    using w by (rule pe_fields_patch_checksum) simp
  have behind: "sub ?o i n = sub ?w i n" if "dd \<le> i" for i n
    using that len lw by (intro sub_patch_after) simp_all
  have "sub ?w dd 8 = u32_to_le a @ u32_to_le b"
    using len by (intro sub_patch_same) simp_all
  then have "sub ?w dd 4 @ sub ?w (dd + 4) 4 = u32_to_le a @ u32_to_le b"
    using sub_split [of ?w dd 4 4] by simp
  then have "sub ?w dd 4 = u32_to_le a" "sub ?w (dd + 4) 4 = u32_to_le b"
    using len lw by (simp_all add: append_eq_append_conv length_sub)
  then have rd: "read_security_data_directory ?o = Inr (a, b)"
    by (simp add: read_security_data_directory_fields [OF o] behind)
  have beyond: "sub ?o i n = sub pe i n" if "dd + 8 \<le> i" for i n
  proof -
    have "sub ?o i n = sub ?w i n" using that by (intro behind) simp
    also have "\<dots> = sub pe i n" using that len by (intro sub_patch_after) simp_all
    finally show ?thesis .
  qed
  have chk: "pe_read_image_checksum ?o = pe_compute_image_checksum ?o" if "even opt"
  proof -
    have "pe_compute_image_checksum ?o = Inr c"
      using checksum_ignores_field [OF w that] c by simp
    moreover have "sub ?o (opt + 64) 4 = u32_to_le c"
      using len lw by (intro sub_patch_same) simp_all
    ultimately show ?thesis by (simp add: pe_read_image_checksum_fields [OF o])
  qed
  have "rbind (write_security_data_directory pe a b) pe_refresh_image_checksum = Inr ?o"
    by (simp add: write_dir_fields [OF assms] r)
  moreover have "length ?o = length pe" using len lw by (simp add: length_patch)
  ultimately show ?thesis using o rd beyond chk by blast
qed

text \<open>
  \<open>pe_table pe rows\<close>: the image carries exactly the certificate rows \<open>rows\<close>, in the layout the
  mutations expect (a table behind the headers, quadword-aligned, inside the file); with no
  row, the directory entry is clear and the file is ready for a first row.
\<close>

definition pe_table :: "u8 list \<Rightarrow> u8 list list \<Rightarrow> bool" where
  "pe_table pe rows \<longleftrightarrow> (\<exists>opt magic dd va sz.
     pe_fields pe opt magic dd \<and> read_security_data_directory pe = Inr (va, sz) \<and>
     (\<forall>r\<in>set rows. wf_row r \<and> length r mod 8 = 0) \<and>
     (if rows = [] then va = 0 \<and> sz = 0 \<and> length pe mod 8 = 0
      else dd + 8 \<le> unat va \<and> unat va mod 8 = 0 \<and> unat va + unat sz \<le> length pe \<and>
           sub pe (unat va) (unat sz) = concat rows))"

lemma concat_rows_mod_8: "\<forall>r\<in>set rows. length r mod 8 = 0 \<Longrightarrow> length (concat rows) mod 8 = 0"
  by (induction rows) (auto simp: mod_add_eq [symmetric])

lemma concat_rows_pos: "rows \<noteq> [] \<Longrightarrow> \<forall>r\<in>set rows. wf_row r \<Longrightarrow> 8 \<le> length (concat rows)"
  by (cases rows) (auto simp: wf_row_def)

lemma pe_table_nonempty:
  assumes "pe_table pe rows" "rows \<noteq> []"
  obtains opt magic dd va sz where "pe_fields pe opt magic dd"
    "read_security_data_directory pe = Inr (va, sz)" "\<forall>r\<in>set rows. wf_row r \<and> length r mod 8 = 0"
    "dd + 8 \<le> unat va" "unat va mod 8 = 0" "unat va + unat sz \<le> length pe"
    "sub pe (unat va) (unat sz) = concat rows" "unat sz = length (concat rows)"
    "va \<noteq> 0" "sz \<noteq> 0" "unat sz mod 8 = 0"
proof -
  from assms obtain opt magic dd va sz where f: "pe_fields pe opt magic dd"
    "read_security_data_directory pe = Inr (va, sz)" and w: "\<forall>r\<in>set rows. wf_row r \<and> length r mod 8 = 0"
    and va: "dd + 8 \<le> unat va" "unat va mod 8 = 0" "unat va + unat sz \<le> length pe"
    "sub pe (unat va) (unat sz) = concat rows"
    by (auto simp: pe_table_def)
  then have len: "unat sz = length (concat rows)"
    using length_sub [of "unat va" "unat sz" pe] by simp
  moreover have "va \<noteq> 0" using va(1) by (intro notI) simp
  moreover have "8 \<le> unat sz"
    using concat_rows_pos [OF assms(2)] w len by simp
  then have "sz \<noteq> 0" by (intro notI) simp
  moreover have "unat sz mod 8 = 0" using len w concat_rows_mod_8 [of rows] by simp
  ultimately show ?thesis by (intro that [OF f w va])
qed

lemma pe_table_empty:
  assumes "pe_table pe []"
  obtains opt magic dd where "pe_fields pe opt magic dd"
    "read_security_data_directory pe = Inr (0, 0)" "length pe mod 8 = 0"
  using assms that by (auto simp: pe_table_def)

lemma pe_append_empty:
  assumes "pe_table pe []" "length pe + length (wrap_pkcs7_der_authenticode_win_certificate p) < 2 ^ 32"
  shows "pe_append_authenticode_pkcs7_certificate pe p =
    rbind (write_security_data_directory (pe @ wrap_pkcs7_der_authenticode_win_certificate p)
      (word_of_nat (length pe)) (word_of_nat (length (wrap_pkcs7_der_authenticode_win_certificate p))))
      pe_refresh_image_checksum"
  using assms
  by (elim pe_table_empty) (simp add: pe_append_authenticode_pkcs7_certificate_def u32_try_from_def
      validate_attribute_certificate_table_alignment_def Let_def)

lemma validate_alignment_ok:
  "a \<noteq> 0 \<Longrightarrow> b \<noteq> 0 \<Longrightarrow> unat a mod 8 = 0 \<Longrightarrow> unat b mod 8 = 0 \<Longrightarrow>
   validate_attribute_certificate_table_alignment a b = Inr ()"
  by (simp add: validate_attribute_certificate_table_alignment_def)

lemma pe_append_nonempty:
  assumes f: "read_security_data_directory pe = Inr (va, sz)"
    and al: "va \<noteq> 0" "sz \<noteq> 0" "unat va mod 8 = 0" "unat sz mod 8 = 0"
    and le: "unat va + unat sz \<le> length pe"
    and small: "unat va + unat sz + length (wrap_pkcs7_der_authenticode_win_certificate p) < 2 ^ 32"
  shows "pe_append_authenticode_pkcs7_certificate pe p =
    rbind (write_security_data_directory
      (take (unat va + unat sz) pe @ wrap_pkcs7_der_authenticode_win_certificate p)
      va (sz + word_of_nat (length (wrap_pkcs7_der_authenticode_win_certificate p))))
      pe_refresh_image_checksum"
proof -
  have "unat va + unat sz < 2 ^ 64" using small by simp
  moreover have "\<not> length pe < unat va" "\<not> length pe < unat va + unat sz" using le by simp_all
  moreover have "(if unat va + unat sz < length pe then Inr (take (unat va + unat sz) pe) else Inr pe)
      = (Inr (take (unat va + unat sz) pe) :: u8 list res)" using le by simp
  moreover have "checked_add_u32 sz (word_of_nat (length (wrap_pkcs7_der_authenticode_win_certificate p)))
      = Some (sz + word_of_nat (length (wrap_pkcs7_der_authenticode_win_certificate p)))"
    using small by (simp add: checked_add_u32_def unat_of_nat)
  moreover have "u32_try_from (length (wrap_pkcs7_der_authenticode_win_certificate p))
      = Some (word_of_nat (length (wrap_pkcs7_der_authenticode_win_certificate p)))"
    using small by (simp add: u32_try_from_def)
  ultimately show ?thesis
    using al by (simp add: pe_append_authenticode_pkcs7_certificate_def f Let_def
        validate_alignment_ok checked_add_usize_def)
qed

lemma pe_append_refines:
  assumes t: "pe_table pe rows"
    and small: "length pe + length (wrap_pkcs7_der_authenticode_win_certificate p) < 2 ^ 32"
  obtains out where "pe_append_authenticode_pkcs7_certificate pe p = Inr out"
    and "pe_table out (rows @ [wrap_pkcs7_der_authenticode_win_certificate p])"
    and "length out \<le> length pe + length (wrap_pkcs7_der_authenticode_win_certificate p)"
proof (cases "rows = []")
  case True
  let ?w = "wrap_pkcs7_der_authenticode_win_certificate p"
  have t0: "pe_table pe []" using t True by simp
  then obtain opt magic dd where f: "pe_fields pe opt magic dd"
    "read_security_data_directory pe = Inr (0, 0)" "length pe mod 8 = 0" by (rule pe_table_empty)
  from write_and_refresh [OF pe_fields_append [OF f(1), of ?w], of "word_of_nat (length pe)"
      "word_of_nat (length ?w)"]
  obtain out where o: "rbind (write_security_data_directory (pe @ ?w) (word_of_nat (length pe))
        (word_of_nat (length ?w))) pe_refresh_image_checksum = Inr out"
    "pe_fields out opt magic dd"
    "read_security_data_directory out = Inr (word_of_nat (length pe), word_of_nat (length ?w))"
    "length out = length (pe @ ?w)" "\<And>i n. dd + 8 \<le> i \<Longrightarrow> sub out i n = sub (pe @ ?w) i n" by blast
  have u: "unat (word_of_nat (length pe) :: u32) = length pe"
    "unat (word_of_nat (length ?w) :: u32) = length ?w"
    using small by (simp_all add: unat_of_nat)
  have "sub out (length pe) (length ?w) = ?w"
    using o(5) [of "length pe"] pe_fields_len [OF f(1)] by (simp add: sub_append_right)
  then have "pe_table out [?w]"
    unfolding pe_table_def
    using o(2-4) f u small pe_fields_len [OF f(1)] wf_row_wrap [of p] wrap_mod_8 [of p]
    by (intro exI conjI) auto
  then show ?thesis
    using that [of out] True o(1,4) pe_append_empty [OF t0 small] by simp
next
  case False
  let ?w = "wrap_pkcs7_der_authenticode_win_certificate p"
  from t False obtain opt magic dd va sz where f: "pe_fields pe opt magic dd"
    "read_security_data_directory pe = Inr (va, sz)" and wf: "\<forall>r\<in>set rows. wf_row r \<and> length r mod 8 = 0"
    and va: "dd + 8 \<le> unat va" "unat va mod 8 = 0" "unat va + unat sz \<le> length pe"
    "sub pe (unat va) (unat sz) = concat rows" and sz: "unat sz = length (concat rows)"
    and nz: "va \<noteq> 0" "sz \<noteq> 0" "unat sz mod 8 = 0"
    by (rule pe_table_nonempty)
  let ?pe1 = "take (unat va + unat sz) pe @ ?w" and ?sz = "sz + word_of_nat (length ?w)"
  have small': "unat va + unat sz + length ?w < 2 ^ 32" using small va(3) by simp
  have u: "unat ?sz = unat sz + length ?w"
    using small' by (simp add: unat_word_ariths unat_of_nat)
  have "pe_fields ?pe1 opt magic dd"
    using f(1) va by (intro pe_fields_take_append) simp_all
  from write_and_refresh [OF this, of va ?sz] obtain out
    where o: "rbind (write_security_data_directory ?pe1 va ?sz) pe_refresh_image_checksum = Inr out"
      "pe_fields out opt magic dd" "read_security_data_directory out = Inr (va, ?sz)"
      "length out = length ?pe1" "\<And>i n. dd + 8 \<le> i \<Longrightarrow> sub out i n = sub ?pe1 i n" by blast
  have "sub ?pe1 (unat va) (unat sz) = concat rows"
    using va(3,4) by (simp add: sub_append_left sub_take)
  moreover have "sub ?pe1 (unat va + unat sz) (length ?w) = ?w"
    using va(3) by (simp add: sub_append_right)
  ultimately have "sub out (unat va) (unat ?sz) = concat (rows @ [?w])"
    using o(5) [OF va(1)] o(5) [of "unat va + unat sz"] va(1) u by (simp add: sub_split)
  then have "pe_table out (rows @ [?w])"
    unfolding pe_table_def
    using o(2-4) va wf u small' wf_row_wrap [of p] wrap_mod_8 [of p]
    by (intro exI conjI) auto
  then show ?thesis
    using that [of out] o(1,4) pe_append_nonempty [OF f(2) nz(1,2) va(2) nz(3) va(3) small'] by simp
qed

lemma replace_nth_pkcs7_set:
  "replace_nth_pkcs7 k new rows = Some rows' \<Longrightarrow> set rows' \<subseteq> insert new (set rows) \<and> rows' \<noteq> []"
  by (induction k new rows arbitrary: rows' rule: replace_nth_pkcs7.induct)
    (force split: if_splits nat.splits)+

lemma replace_nth_pkcs7_length:
  "replace_nth_pkcs7 k new rows = Some rows' \<Longrightarrow>
   length (concat rows') \<le> length (concat rows) + length new"
  by (induction k new rows arbitrary: rows' rule: replace_nth_pkcs7.induct)
    (force split: if_splits nat.splits)+

lemma pe_replace_eq:
  assumes t: "pe_table pe rows" "rows \<noteq> []"
    and f: "read_security_data_directory pe = Inr (va, sz)"
  shows "pe_replace_authenticode_pkcs7_certificate_at pe k p =
    (case replace_nth_pkcs7 k (wrap_pkcs7_der_authenticode_win_certificate p) rows of
       None \<Rightarrow> bail ''no PKCS#7 Authenticode entry at index''
     | Some rows' \<Rightarrow> rbind (write_security_data_directory (take (unat va) pe @ concat rows') va
                       (word_of_nat (length (concat rows')))) pe_refresh_image_checksum)"
proof -
  from t obtain opt magic dd where wf: "\<forall>r\<in>set rows. wf_row r \<and> length r mod 8 = 0"
    and va: "unat va + unat sz \<le> length pe" "sub pe (unat va) (unat sz) = concat rows"
    and nz: "va \<noteq> 0" "sz \<noteq> 0"
    using f by (auto elim!: pe_table_nonempty)
  have "unat va + unat sz < 2 ^ 64" using u32_bound [of va] u32_bound [of sz] by simp
  moreover have "slice_idx pe (unat va) (unat va + unat sz) = Inr (concat rows)"
    using va by simp
  moreover have "\<not> (length pe < unat va \<or> length pe < unat va + unat sz)" using va(1) by simp
  moreover have "pe_replace_loop (concat rows) k new 0 0 False [] =
     (case replace_nth_pkcs7 k new rows of None \<Rightarrow> Inr (False, concat rows)
      | Some rows' \<Rightarrow> Inr (True, concat rows'))" for new
    using pe_replace_loop_rows [of rows 0 k "[]" new False "[]"] wf
    by (cases "replace_nth_pkcs7 k new rows") simp_all
  ultimately show ?thesis
    using nz by (simp add: pe_replace_authenticode_pkcs7_certificate_at_def f Let_def
        checked_add_usize_def split: option.splits)
qed

lemma pe_replace_refines:
  assumes t: "pe_table pe rows"
    and r: "replace_nth_pkcs7 k (wrap_pkcs7_der_authenticode_win_certificate p) rows = Some rows'"
    and small: "length pe + length (wrap_pkcs7_der_authenticode_win_certificate p) < 2 ^ 32"
  obtains out where "pe_replace_authenticode_pkcs7_certificate_at pe k p = Inr out" and "pe_table out rows'"
proof -
  let ?w = "wrap_pkcs7_der_authenticode_win_certificate p"
  have ne: "rows \<noteq> []" using r by auto
  from t ne obtain opt magic dd va sz where f: "pe_fields pe opt magic dd"
    "read_security_data_directory pe = Inr (va, sz)" and wf: "\<forall>r\<in>set rows. wf_row r \<and> length r mod 8 = 0"
    and va: "dd + 8 \<le> unat va" "unat va mod 8 = 0" "unat va + unat sz \<le> length pe"
    and sz: "unat sz = length (concat rows)"
    by (rule pe_table_nonempty)
  let ?pe1 = "take (unat va) pe @ concat rows'" and ?sz = "word_of_nat (length (concat rows')) :: u32"
  have l: "length (concat rows') \<le> length (concat rows) + length ?w"
    using r by (rule replace_nth_pkcs7_length)
  then have small': "unat va + length (concat rows') < 2 ^ 32"
    using small va(3) sz by simp
  then have u: "unat ?sz = length (concat rows')" by (simp add: unat_of_nat)
  have "pe_fields ?pe1 opt magic dd"
    using f(1) va by (intro pe_fields_take_append) simp_all
  from write_and_refresh [OF this, of va ?sz] obtain out
    where o: "rbind (write_security_data_directory ?pe1 va ?sz) pe_refresh_image_checksum = Inr out"
      "pe_fields out opt magic dd" "read_security_data_directory out = Inr (va, ?sz)"
      "length out = length ?pe1" "\<And>i n. dd + 8 \<le> i \<Longrightarrow> sub out i n = sub ?pe1 i n" by blast
  have tab: "sub out (unat va) (unat ?sz) = concat rows'"
    using o(5) [OF va(1)] va(3) u by (simp add: sub_append_right)
  have "\<forall>r\<in>set rows'. wf_row r \<and> length r mod 8 = 0" "rows' \<noteq> []"
    using replace_nth_pkcs7_set [OF r] wf wf_row_wrap [of p] wrap_mod_8 [of p] small by auto
  then have "pe_table out rows'"
    unfolding pe_table_def using o(2-4) va tab u by (intro exI conjI) auto
  then show ?thesis
    using that [of out] o(1) pe_replace_eq [OF t ne f(2), of k p] r by simp
qed

lemma pe_remove_after_append:
  assumes t: "pe_table pe []"
    and small: "length pe + length (wrap_pkcs7_der_authenticode_win_certificate p) < 2 ^ 32"
    and a: "pe_append_authenticode_pkcs7_certificate pe p = Inr out"
  shows "\<exists>pe' c. pe_remove_authenticode_certificates out =
           Inr (pe', length (wrap_pkcs7_der_authenticode_win_certificate p)) \<and>
         pe_table pe' [] \<and> pe_write_image_checksum pe c = Inr pe'"
proof -
  let ?w = "wrap_pkcs7_der_authenticode_win_certificate p"
  from t obtain opt magic dd where f: "pe_fields pe opt magic dd"
    "read_security_data_directory pe = Inr (0, 0)" "length pe mod 8 = 0" by (rule pe_table_empty)
  have len: "dd + 8 \<le> length pe" "opt + 64 + 4 \<le> dd"
    using pe_fields_dd [OF f(1)] pe_fields_len [OF f(1)] by linarith+
  let ?va = "word_of_nat (length pe) :: u32" and ?sz = "word_of_nat (length ?w) :: u32"
  have u: "unat ?va = length pe" "unat ?sz = length ?w"
    using small by (simp_all add: unat_of_nat)
  from write_and_refresh [OF pe_fields_append [OF f(1), of ?w], of ?va ?sz] a pe_append_empty [OF t small]
  obtain c1 where o: "pe_fields out opt magic dd" "read_security_data_directory out = Inr (?va, ?sz)"
    "length out = length (pe @ ?w)"
    "out = patch (patch (pe @ ?w) dd (u32_to_le ?va @ u32_to_le ?sz)) (opt + 64) (u32_to_le c1)"
    by auto
  define cut where "cut = patch (patch pe dd (u32_to_le ?va @ u32_to_le ?sz)) (opt + 64) (u32_to_le c1)"
  have lcut: "length cut = length pe" using len by (simp add: cut_def length_patch)
  have "out = cut @ ?w" using o(4) len by (simp add: cut_def patch_append length_patch)
  then have cut: "take (length pe) out @ drop (length pe + length ?w) out = cut"
    using lcut by simp
  have fcut: "pe_fields cut opt magic dd"
    unfolding cut_def using f(1) len
    by (intro pe_fields_patch_checksum pe_fields_patch_behind) simp_all
  from write_and_refresh [OF fcut, of 0 0] obtain pe' c2
    where pe': "rbind (write_security_data_directory cut 0 0) pe_refresh_image_checksum = Inr pe'"
      "pe_fields pe' opt magic dd" "read_security_data_directory pe' = Inr (0, 0)"
      "length pe' = length cut"
      "pe' = patch (patch cut dd (u32_to_le 0 @ u32_to_le 0)) (opt + 64) (u32_to_le c2)" by blast
  have "sub pe dd 4 @ sub pe (dd + 4) 4 = u32_to_le 0 @ u32_to_le 0"
  proof -
    have "u32_from_le (sub pe dd 4) = 0" "u32_from_le (sub pe (dd + 4) 4) = 0"
      using f(2) by (simp_all add: read_security_data_directory_fields [OF f(1)])
    then have "u32_to_le (u32_from_le (sub pe dd 4)) = u32_to_le 0"
      "u32_to_le (u32_from_le (sub pe (dd + 4) 4)) = u32_to_le 0" by simp_all
    then show ?thesis using len by (simp add: u32_to_from_le length_sub)
  qed
  then have clear: "patch pe dd (u32_to_le 0 @ u32_to_le 0) = pe"
    using len patch_sub_self [of dd 8 pe] sub_split [of pe dd 4 4] by simp
  have "pe' = patch pe (opt + 64) (u32_to_le c2)"
    unfolding pe'(5) cut_def using len clear
    by (simp add: patch_commute [of "opt + 64"] patch_same_again length_patch)
  then have "pe_write_image_checksum pe c2 = Inr pe'"
    by (simp add: pe_write_image_checksum_fields [OF f(1)])
  moreover have "pe_table pe' []"
    unfolding pe_table_def using pe' lcut f(3) by auto
  moreover have "pe_remove_authenticode_certificates out = Inr (pe', length ?w)"
  proof -
    have "?va \<noteq> 0" "?sz \<noteq> 0" using u len by (auto simp: length_wrap)
    moreover have "length pe + length ?w < 2 ^ 64" using small by simp
    ultimately show ?thesis
      using pe'(1) o(3) cut u
      by (simp add: pe_remove_authenticode_certificates_def o(2) Let_def checked_add_usize_def
          rbind_assoc [symmetric])
  qed
  ultimately show ?thesis by blast
qed

section \<open>Preparing an unsigned image\<close>

lemma pe_prepare_unsigned:
  assumes f: "read_security_data_directory pe = Inr (0, 0)" and small: "length pe + 8 \<le> 2 ^ 64"
  shows "pe_prepare_for_authenticode_signing pe =
    Inr (pe @ replicate (win_certificate_padding (length pe)) 0)"
proof -
  have "win_certificate_padding (length pe) < 8"
    by (simp add: win_certificate_padding_def)
  with small show ?thesis
    by (simp add: pe_prepare_for_authenticode_signing_def f
        validate_attribute_certificate_table_alignment_def Let_def
        checked_add_usize_def win_certificate_padding_def [symmetric])
qed

lemma read_directory_append:
  assumes "read_security_data_directory pe = Inr d"
  shows "read_security_data_directory (pe @ ys) = Inr d"
proof -
  obtain va sz where d: "d = (va, sz)" by force
  from assms [unfolded d] obtain opt magic dd where f: "pe_fields pe opt magic dd"
    "va = u32_from_le (sub pe dd 4)" "sz = u32_from_le (sub pe (dd + 4) 4)"
    by (rule read_security_data_directory_Inr)
  moreover have "dd + 8 \<le> length pe" using f(1) by (rule pe_fields_len)
  ultimately show ?thesis
    by (simp add: d read_security_data_directory_fields [OF pe_fields_append [OF f(1)]]
        sub_append_left)
qed

lemma pe_table_prepared:
  assumes "read_security_data_directory pe = Inr (0, 0)"
  shows "pe_table (pe @ replicate (win_certificate_padding (length pe)) 0) []"
proof -
  from assms obtain opt magic dd where "pe_fields pe opt magic dd"
    by (rule read_security_data_directory_Inr)
  then show ?thesis
    using read_directory_append [OF assms] win_certificate_padding_mod [of "length pe"]
    unfolding pe_table_def by (simp add: pe_fields_append) (blast intro: pe_fields_append)
qed

section \<open>Checksum of a refreshed image\<close>

lemma checksum_offset_Inr:
  "pe_checksum_field_file_offset pe = Inr off \<longleftrightarrow>
   (\<exists>opt magic. pe_optional_header_start pe = Inr (opt, magic) \<and> off = opt + 64 \<and> opt + 68 \<le> length pe)"
proof (cases "pe_optional_header_start pe")
  case (Inr r)
  then show ?thesis
    by (cases r) (auto simp: pe_checksum_field_file_offset_def Let_def not_less add.commute)
qed (simp add: pe_checksum_field_file_offset_def)

lemma checksum_offset_patch:
  assumes "pe_checksum_field_file_offset pe = Inr off" "length ys = 4"
  shows "pe_checksum_field_file_offset (patch pe off ys) = Inr off"
proof -
  from assms(1) obtain opt magic where o: "pe_optional_header_start pe = Inr (opt, magic)"
    "off = opt + 64" "opt + 68 \<le> length pe"
    by (auto simp: checksum_offset_Inr)
  then have "pe_optional_header_start (patch pe off ys) = Inr (opt, magic)"
    using assms(2) by (intro optional_header_start_cong [OF o(1)]) (simp_all add: take_patch length_patch)
  then show ?thesis
    using o assms(2) by (simp add: checksum_offset_Inr length_patch)
qed

lemma refresh_eq:
  assumes "pe_checksum_field_file_offset pe = Inr off"
  shows "pe_refresh_image_checksum pe = Inr (patch pe off (u32_to_le
    (word_of_nat (pe_checksum_fold (pe_checksum_loop pe off 0 0)) + word_of_nat (length pe))))"
proof -
  have "off + 4 \<le> length pe" using assms by (auto simp: checksum_offset_Inr)
  then show ?thesis
    using assms by (simp add: pe_refresh_image_checksum_def pe_compute_image_checksum_def
        pe_write_image_checksum_def Let_def)
qed

section \<open>Properties\<close>

text \<open>A smallest PE32 image: every header field the mutations read, and nothing else.\<close>

definition sample_pe :: "u8 list" where
  "sample_pe = [0x4d, 0x5a] @ replicate 58 0 @ [64, 0, 0, 0] @ [0x50, 0x45, 0, 0] @ replicate 20 0 @
     [0x0b, 0x01] @ replicate 90 0 @ [5, 0, 0, 0] @ replicate 40 0"

lemma sample_pe_fields: "pe_fields sample_pe 88 PE32_MAGIC 216"
  by (simp add: sample_pe_def pe_fields_def pe_optional_header_start_Inr lfanew_def
      data_directory_entry_offset_Inr sub_def u32_from_le_def u16_from_le_def pe_consts)

lemma sample_pe_directory: "read_security_data_directory sample_pe = Inr (0, 0)"
  unfolding read_security_data_directory_fields [OF sample_pe_fields]
  by (simp add: sample_pe_def sub_def u32_from_le_def eval_nat_numeral)

lemma length_sample_pe: "length sample_pe = 224"
  by (simp add: sample_pe_def)

lemmas sample_pe_facts = sample_pe_fields sample_pe_directory length_sample_pe

lemma sample_pe_table: "pe_table sample_pe []"
  unfolding pe_table_def using sample_pe_facts by (intro exI) auto

text \<open>C1: appending a PKCS#7 blob to an image that carries the certificate rows \<open>rows\<close> (or none
  and is quadword aligned) succeeds whenever the result stays below 4 GiB, and the written image
  carries exactly the old rows followed by the new \<open>WIN_CERTIFICATE\<close>: the directory entry, the
  alignment of the table and its extent are consistent with the file.\<close>

theorem pe_append_adds_row:
  assumes "pe_table pe rows"
    and "length pe + length (wrap_pkcs7_der_authenticode_win_certificate p) < 2 ^ 32"
  shows "\<exists>out. pe_append_authenticode_pkcs7_certificate pe p = Inr out \<and>
    pe_table out (rows @ [wrap_pkcs7_der_authenticode_win_certificate p])"
  using pe_append_refines [OF assms] by blast

theorem pe_append_adds_row_witness:
  "\<exists>out. pe_append_authenticode_pkcs7_certificate sample_pe [0x30, 0] = Inr out \<and>
    pe_table out ([] @ [wrap_pkcs7_der_authenticode_win_certificate [0x30, 0]])"
  by (rule pe_append_adds_row [OF sample_pe_table]) (simp add: sample_pe_facts length_wrap
      win_certificate_padding_def)

text \<open>C2: replacing the k-th PKCS#7 row refines list update on the rows: the other rows, the
  non-PKCS#7 ones included, keep their bytes and order, and the k-th PKCS#7 row is the wrapped
  replacement.\<close>

theorem pe_replace_swaps_row:
  assumes "pe_table pe rows"
    and "replace_nth_pkcs7 k (wrap_pkcs7_der_authenticode_win_certificate p) rows = Some rows'"
    and "length pe + length (wrap_pkcs7_der_authenticode_win_certificate p) < 2 ^ 32"
  shows "\<exists>out. pe_replace_authenticode_pkcs7_certificate_at pe k p = Inr out \<and> pe_table out rows'"
  using pe_replace_refines [OF assms] by blast

theorem pe_replace_swaps_row_witness:
  "\<exists>pe out. pe_append_authenticode_pkcs7_certificate sample_pe [0x30, 0] = Inr pe \<and>
    pe_replace_authenticode_pkcs7_certificate_at pe 0 [0x31, 0] = Inr out \<and>
    pe_table out [wrap_pkcs7_der_authenticode_win_certificate [0x31, 0]]"
proof -
  have l: "length (wrap_pkcs7_der_authenticode_win_certificate [a, b]) = 16" for a b
    by (simp add: length_wrap win_certificate_padding_def)
  then have "length sample_pe + length (wrap_pkcs7_der_authenticode_win_certificate [0x30, 0]) < 2 ^ 32"
    by (simp add: sample_pe_facts)
  from pe_append_refines [OF sample_pe_table this] obtain pe
    where pe: "pe_append_authenticode_pkcs7_certificate sample_pe [0x30, 0] = Inr pe"
      "pe_table pe [wrap_pkcs7_der_authenticode_win_certificate [0x30, 0]]" "length pe \<le> 240"
    by (auto simp: l sample_pe_facts)
  then show ?thesis
    using pe_replace_swaps_row [OF pe(2), of 0 "[0x31, 0]"]
    by (simp add: row_is_pkcs7_wrap l)
qed

text \<open>removing the certificate table takes back what append did to an unsigned image: the
  removed byte count is the size of the row, the directory entry is clear again, and the result is
  the original image with some CheckSum value written to it.\<close>

theorem pe_remove_undoes_append:
  assumes "pe_table pe []"
    and "length pe + length (wrap_pkcs7_der_authenticode_win_certificate p) < 2 ^ 32"
    and "pe_append_authenticode_pkcs7_certificate pe p = Inr out"
  shows "\<exists>pe' c. pe_remove_authenticode_certificates out =
           Inr (pe', length (wrap_pkcs7_der_authenticode_win_certificate p)) \<and>
         pe_table pe' [] \<and> pe_write_image_checksum pe c = Inr pe'"
  using assms by (rule pe_remove_after_append)

theorem pe_remove_undoes_append_witness:
  "\<exists>out pe' c. pe_append_authenticode_pkcs7_certificate sample_pe [0x30, 0] = Inr out \<and>
     pe_remove_authenticode_certificates out = Inr (pe', 16) \<and>
     pe_write_image_checksum sample_pe c = Inr pe'"
proof -
  have l: "length (wrap_pkcs7_der_authenticode_win_certificate [0x30, 0]) = 16"
    by (simp add: length_wrap win_certificate_padding_def)
  then have "length sample_pe + length (wrap_pkcs7_der_authenticode_win_certificate [0x30, 0]) < 2 ^ 32"
    by (simp add: sample_pe_facts)
  from pe_append_refines [OF sample_pe_table this] obtain out
    where "pe_append_authenticode_pkcs7_certificate sample_pe [0x30, 0] = Inr out" .
  with pe_remove_undoes_append [OF sample_pe_table, of "[0x30, 0]" out] show ?thesis
    by (auto simp: sample_pe_facts l)
qed

text \<open>Preparing an unsigned image pads it with fewer than eight zero bytes to a quadword
  boundary, keeps its bytes, and makes it ready for the first row, so that an append that follows
  cannot fail for alignment.\<close>

theorem pe_prepare_then_append:
  assumes "read_security_data_directory pe = Inr (0, 0)"
    and "length pe + length (wrap_pkcs7_der_authenticode_win_certificate p) + 8 < 2 ^ 32"
  shows "\<exists>n out. n < 8 \<and> pe_prepare_for_authenticode_signing pe = Inr (pe @ replicate n 0) \<and>
    pe_append_authenticode_pkcs7_certificate (pe @ replicate n 0) p = Inr out \<and>
    pe_table out [wrap_pkcs7_der_authenticode_win_certificate p]"
proof -
  let ?n = "win_certificate_padding (length pe)"
  have n: "?n < 8" by (simp add: win_certificate_padding_def)
  then have "length (pe @ replicate ?n 0) + length (wrap_pkcs7_der_authenticode_win_certificate p) < 2 ^ 32"
    using assms(2) by simp
  from pe_append_refines [OF pe_table_prepared [OF assms(1)] this]
  show ?thesis using n pe_prepare_unsigned [OF assms(1)] assms(2) by auto
qed

theorem pe_prepare_then_append_witness:
  "\<exists>n out. n < 8 \<and> pe_prepare_for_authenticode_signing (sample_pe @ [1]) = Inr ((sample_pe @ [1]) @ replicate n 0) \<and>
    pe_append_authenticode_pkcs7_certificate ((sample_pe @ [1]) @ replicate n 0) [0x30, 0] = Inr out \<and>
    pe_table out [wrap_pkcs7_der_authenticode_win_certificate [0x30, 0]]"
  by (rule pe_prepare_then_append)
    (simp_all add: read_directory_append sample_pe_facts length_wrap win_certificate_padding_def)

text \<open>After a refresh, the stored CheckSum is the checksum of the refreshed image, provided the
  CheckSum field is at an even file offset: the summed words skip the field itself.\<close>

theorem refresh_checksum_stable:
  assumes "pe_checksum_field_file_offset pe = Inr off" and "even off"
  shows "\<exists>out. pe_refresh_image_checksum pe = Inr out \<and>
    pe_read_image_checksum out = pe_compute_image_checksum out"
proof -
  let ?c = "word_of_nat (pe_checksum_fold (pe_checksum_loop pe off 0 0)) + word_of_nat (length pe) :: u32"
  have le: "off + 4 \<le> length pe" using assms(1) by (auto simp: checksum_offset_Inr)
  have off: "pe_checksum_field_file_offset (patch pe off (u32_to_le ?c)) = Inr off"
    using assms(1) by (intro checksum_offset_patch) simp_all
  have "pe_read_image_checksum (patch pe off (u32_to_le ?c)) = Inr ?c"
    using off le by (simp add: pe_read_image_checksum_def length_patch sub_patch_same)
  moreover have "pe_compute_image_checksum (patch pe off (u32_to_le ?c)) = Inr ?c"
    using off le assms(2) by (simp add: pe_compute_image_checksum_def Let_def length_patch
        pe_checksum_loop_patch)
  ultimately show ?thesis
    using refresh_eq [OF assms(1)] by simp
qed

theorem refresh_checksum_stable_witness:
  "\<exists>out. pe_refresh_image_checksum sample_pe = Inr out \<and>
    pe_read_image_checksum out = pe_compute_image_checksum out"
  by (rule refresh_checksum_stable [of _ 152])
    (simp_all add: checksum_offset_fields [OF sample_pe_facts(1)])

text \<open>
  With an odd \<^verbatim>\<open>e_lfanew\<close> the loop reads words that straddle the field, so the stored value is
  not the checksum of the refreshed image (the \<^verbatim>\<open>debug_assert_eq!\<close> of the code would fire).
\<close>

lemma pe_checksum_loop_zeros:
  "\<forall>j<2 * k. img ! (i + j) = 0 \<Longrightarrow> i + 2 * k \<le> length img \<Longrightarrow> i + 2 * k \<le> off \<Longrightarrow> acc < 65536 \<Longrightarrow>
   pe_checksum_loop img off i acc = pe_checksum_loop img off (i + 2 * k) acc"
proof (induction k arbitrary: i)
  case (Suc k)
  have z: "img ! i = 0" "img ! (i + 1) = 0"
    using Suc.prems(1) [rule_format, of 0] Suc.prems(1) [rule_format, of 1] by simp_all
  have "\<forall>j<2 * k. img ! (i + 2 + j) = 0"
    using Suc.prems(1) [rule_format, of "j + 2" for j] by (simp add: add_ac)
  then have "pe_checksum_loop img off (i + 2) acc = pe_checksum_loop img off (i + 2 + 2 * k) acc"
    using Suc.prems by (intro Suc.IH) simp_all
  moreover have "pe_checksum_loop img off i acc = pe_checksum_loop img off (i + 2) acc"
    using Suc.prems z by (subst pe_checksum_loop.simps) (simp add: u16_from_le_def)
  ultimately show ?case by (simp add: add_ac)
qed simp

definition odd_image :: "u8 list \<Rightarrow> u8 list" where
  "odd_image field = [0x4d, 0x5a, 0, 0x50, 0x45] @ replicate 55 0 @ [3, 0, 0, 0] @ replicate 27 0 @ field"

lemma odd_image_offset:
  "length field = 4 \<Longrightarrow> pe_checksum_field_file_offset (odd_image field) = Inr 91"
  by (simp add: odd_image_def checksum_offset_Inr pe_optional_header_start_Inr lfanew_def
      sub_def u32_from_le_def take_Cons' nth_Cons')
    (simp add: numeral_2_eq_2)

lemma odd_image_loop:
  assumes "length field = 4"
  shows "pe_checksum_loop (odd_image field) 91 0 0 =
    (let s = 43669 + 256 * unat (hd field) in s div 65536 + s mod 65536)"
proof -
  let ?i = "odd_image field"
  have len: "length ?i = 95" using assms by (simp add: odd_image_def)
  have zero: "?i ! j = 0" if "5 \<le> j" "j < 91" "j \<noteq> 60" for j
    using that by (auto simp: odd_image_def nth_append nth_Cons')
  have low: "?i ! 0 = 0x4d" "?i ! 1 = 0x5a" "?i ! 2 = 0" "?i ! 3 = 0x50" "?i ! 4 = 0x45" "?i ! 60 = 3"
    "?i ! 91 = hd field"
    using assms by (simp_all add: odd_image_def nth_append hd_conv_nth [of field] flip: length_greater_0_conv)
  have w: "pe_checksum_loop ?i 91 i acc = pe_checksum_loop ?i 91 (i + 2) (s div 65536 + s mod 65536)"
    if "i < 91" "s = acc + unat (u16_from_le [?i ! i, ?i ! (i + 1)])" for i acc s
    using that len by (simp add: pe_checksum_loop.simps [of _ _ i] Let_def)
  have 1: "pe_checksum_loop ?i 91 0 0 = pe_checksum_loop ?i 91 6 43666"
    using w [of 0 23117 0] w [of 2 43597 23117] w [of 4 43666 43597] low zero [of 5]
    by (simp add: u16_from_le_def flip: numeral_2_eq_2)
  have 2: "pe_checksum_loop ?i 91 6 43666 = pe_checksum_loop ?i 91 60 43666"
    using pe_checksum_loop_zeros [of 27 ?i 6 91 43666] zero len by simp
  have 3: "pe_checksum_loop ?i 91 60 43666 = pe_checksum_loop ?i 91 62 43669"
    using w [of 60 43669 43666] low zero [of 61] by (simp add: u16_from_le_def)
  have 4: "pe_checksum_loop ?i 91 62 43669 = pe_checksum_loop ?i 91 90 43669"
    using pe_checksum_loop_zeros [of 14 ?i 62 91 43669] zero len by simp
  have "unat (u16_from_le [0, hd field]) = 256 * unat (hd field)"
    using u8_bound [of "hd field"] by (simp add: u16_from_le_def unat_of_nat del: of_nat_mult)
  then have 5: "pe_checksum_loop ?i 91 90 43669 =
      (let s = 43669 + 256 * unat (hd field) in s div 65536 + s mod 65536)"
    using w [of 90 _ 43669] len low zero [of 90]
    by (simp add: pe_checksum_loop.simps [of _ _ 92] pe_checksum_loop.simps [of _ _ 95] Let_def)
  show ?thesis unfolding 1 2 3 4 5 ..
qed

lemma pe_checksum_fold_small: "acc < 65536 \<Longrightarrow> pe_checksum_fold acc = acc"
  by (simp add: pe_checksum_fold.simps)

lemma odd_image_field:
  "length a = 4 \<Longrightarrow> length b = 4 \<Longrightarrow> patch (odd_image a) 91 b = odd_image b"
  "length a = 4 \<Longrightarrow> sub (odd_image a) 91 4 = a"
  "length a = 4 \<Longrightarrow> length (odd_image a) = 95"
  by (simp_all add: odd_image_def patch_def sub_def)

lemma refresh_checksum_unstable_odd:
  "\<exists>out. pe_refresh_image_checksum (odd_image [0, 0, 0, 0]) = Inr out \<and>
    pe_read_image_checksum out \<noteq> pe_compute_image_checksum out"
proof -
  have c: "u32_to_le 0xaaf4 = [0xf4, 0xaa, 0, 0]"
    by (simp add: u32_to_le_def le_bytes_width)
  have "pe_refresh_image_checksum (odd_image [0, 0, 0, 0]) = Inr (odd_image [0xf4, 0xaa, 0, 0])"
    by (simp add: refresh_eq [OF odd_image_offset] odd_image_loop pe_checksum_fold_small
        odd_image_field c)
  moreover have "pe_read_image_checksum (odd_image [0xf4, 0xaa, 0, 0]) = Inr 0xaaf4"
    by (simp add: pe_read_image_checksum_def odd_image_offset odd_image_field u32_from_le_def)
  moreover have "pe_compute_image_checksum (odd_image [0xf4, 0xaa, 0, 0]) = Inr 0x9ef5"
    by (simp add: pe_compute_image_checksum_def odd_image_offset odd_image_loop
        pe_checksum_fold_small odd_image_field)
  ultimately show ?thesis by simp
qed

end
