(* ===== verification/Pe_Digest.thy ===== *)
theory Pe_Digest
  imports Prelude
begin

text \<open>
  Model of \<^verbatim>\<open>crates/psign-sip-digest/src/pe_digest.rs\<close>: the digest kinds, the PE front end, and
  the file ranges of the Authenticode image digest.

  The hash functions and the crates \<^verbatim>\<open>object\<close> and \<^verbatim>\<open>authenticode\<close> are not part of the
  repository: the record \<open>pe_lib\<close> holds what the code calls of them, and the definitions take
  it as an argument. A hasher that is fed in pieces is the concatenation of what it was fed.
\<close>

datatype PeAuthenticodeHashKind = Sha1 | Sha256 | Sha384 | Sha512

definition from_digest_byte_len :: "nat \<Rightarrow> PeAuthenticodeHashKind res" where
  "from_digest_byte_len len =
     (if len = 20 then Inr Sha1
      else if len = 32 then Inr Sha256
      else if len = 48 then Inr Sha384
      else if len = 64 then Inr Sha512
      else bail ''unsupported Authenticode digest length'')"

fun digest_output_len :: "PeAuthenticodeHashKind \<Rightarrow> nat" where
  "digest_output_len Sha1 = 20"
| "digest_output_len Sha256 = 32"
| "digest_output_len Sha384 = 48"
| "digest_output_len Sha512 = 64"

lemma from_digest_byte_len_iff: "from_digest_byte_len n = Inr k \<longleftrightarrow> n = digest_output_len k"
  by (cases k) (auto simp: from_digest_byte_len_def)

type_synonym hash_fn = "PeAuthenticodeHashKind \<Rightarrow> u8 list \<Rightarrow> u8 list"

text \<open>The hash functions answer with as many bytes as their kind says.\<close>

definition hash_lengths :: "hash_fn \<Rightarrow> bool" where
  "hash_lengths H \<longleftrightarrow> (\<forall>k m. length (H k m) = digest_output_len k)"

section \<open>The third-party PE front end\<close>

datatype file_kind = FileKind_Pe32 | FileKind_Pe64 | FileKind_Other

type_synonym range = "nat \<times> nat"

record pe_offsets =
  check_sum :: nat
  after_check_sum :: nat
  security_data_dir :: nat
  after_security_data_dir :: nat
  after_header :: nat

text \<open>The answers of the trait object \<^verbatim>\<open>PeTrait\<close>; \<open>None\<close> is its \<^verbatim>\<open>PeOffsetError\<close>.\<close>

record pe_trait =
  pt_data :: "u8 list"
  pt_offsets :: "pe_offsets option"
  pt_num_sections :: nat
  pt_section_data_range :: "nat \<Rightarrow> range option"
  pt_certificate_table_range :: "range option option"

record attribute_certificate =
  certificate_type :: u16
  ac_data :: "u8 list"

text \<open>
  What the code calls of the crates: file kind detection, the two parsers, the digest walk (the
  bytes it feeds to the hasher), the attribute certificate iterator (\<open>None\<close>: no table), and the
  digest an Authenticode PKCS#7 blob carries.
\<close>

record pe_lib =
  lib_file_kind :: "u8 list \<Rightarrow> file_kind option"
  lib_parse32 :: "u8 list \<Rightarrow> pe_trait option"
  lib_parse64 :: "u8 list \<Rightarrow> pe_trait option"
  lib_authenticode_digest :: "pe_trait \<Rightarrow> u8 list option"
  lib_certificates :: "pe_trait \<Rightarrow> attribute_certificate option list option option"
  lib_authenticode_signature :: "u8 list \<Rightarrow> u8 list option"

definition ParsedPe_parse :: "pe_lib \<Rightarrow> u8 list \<Rightarrow> pe_trait res" where
  "ParsedPe_parse L bytes =
     rbind (ok_or (lib_file_kind L bytes) ''not a PE image'') (\<lambda>k. case k of
       FileKind_Pe32 \<Rightarrow> ok_or (lib_parse32 L bytes) ''PE32 parse failed''
     | FileKind_Pe64 \<Rightarrow> ok_or (lib_parse64 L bytes) ''PE32+ parse failed''
     | FileKind_Other \<Rightarrow> bail ''expected PE32 or PE32+ file'')"

section \<open>Digest file ranges\<close>

text \<open>\<open>collect\<close> of an iterator of results.\<close>

fun collect_opt :: "'a option list \<Rightarrow> 'a list option" where
  "collect_opt [] = Some []"
| "collect_opt (x # xs) = obind x (\<lambda>y. obind (collect_opt xs) (\<lambda>ys. Some (y # ys)))"

definition checked_sub :: "nat \<Rightarrow> nat \<Rightarrow> nat option" where
  "checked_sub a b = (if b \<le> a then Some (a - b) else None)"

text \<open>The loop over the sections in file order.\<close>

fun section_ranges :: "u8 list \<Rightarrow> range list \<Rightarrow> nat \<Rightarrow> range list \<Rightarrow> (nat \<times> range list) option" where
  "section_ranges img [] hashed ranges = Some (hashed, ranges)"
| "section_ranges img ((s, e) # rs) hashed ranges =
     obind (slice_get img s e) (\<lambda>bytes.
     obind (checked_add_usize hashed (length bytes)) (\<lambda>hashed.
       section_ranges img rs hashed (ranges @ [(s, e)])))"

text \<open>
  \<^verbatim>\<open>sort_unstable_by_key\<close> leaves the order of sections with equal start open; the model keeps
  the order of the section table among them.
\<close>

definition authenticode_digest_file_ranges :: "pe_trait \<Rightarrow> range list option" where
  "authenticode_digest_file_ranges pe =
     obind (pt_offsets pe) (\<lambda>offsets.
     let ranges = [(0, check_sum offsets), (after_check_sum offsets, security_data_dir offsets),
                   (after_security_data_dir offsets, after_header offsets)] in
     obind (collect_opt (map (pt_section_data_range pe) [1..<pt_num_sections pe + 1])) (\<lambda>sections.
     obind (section_ranges (pt_data pe) (sort_key fst sections) (after_header offsets) ranges)
       (\<lambda>(sum_of_bytes_hashed, ranges).
     obind (checked_sub (length (pt_data pe)) sum_of_bytes_hashed) (\<lambda>extra_hash_len.
     obind (pt_certificate_table_range pe) (\<lambda>table.
     obind (case table of None \<Rightarrow> Some extra_hash_len
            | Some (s, e) \<Rightarrow> obind (checked_sub e s) (\<lambda>size. checked_sub extra_hash_len size))
       (\<lambda>extra_hash_len.
     obind (checked_add_usize sum_of_bytes_hashed extra_hash_len) (\<lambda>tail_end.
     obind (slice_get (pt_data pe) sum_of_bytes_hashed tail_end) (\<lambda>_.
       Some (ranges @ [(sum_of_bytes_hashed, tail_end)])))))))))"

definition pe_authenticode_digest_file_ranges :: "pe_lib \<Rightarrow> u8 list \<Rightarrow> range list res" where
  "pe_authenticode_digest_file_ranges L bytes =
     rbind (ParsedPe_parse L bytes) (\<lambda>pe.
       ok_or (authenticode_digest_file_ranges pe) ''PE layout invalid for Authenticode digest ranges'')"

definition pe_authenticode_digest :: "pe_lib \<Rightarrow> hash_fn \<Rightarrow> u8 list \<Rightarrow> PeAuthenticodeHashKind \<Rightarrow> u8 list res" where
  "pe_authenticode_digest L H bytes kind =
     rbind (ParsedPe_parse L bytes) (\<lambda>pe.
     rbind (ok_or (lib_authenticode_digest L pe) ''authenticode_digest failed'') (\<lambda>fed.
       Inr (H kind fed)))"

definition hex_digit :: "nat \<Rightarrow> char" where
  "hex_digit n = ''0123456789abcdef'' ! n"

definition hex_lower :: "u8 list \<Rightarrow> string" where
  "hex_lower bytes = concat (map (\<lambda>b. [hex_digit (unat b div 16), hex_digit (unat b mod 16)]) bytes)"

definition pe_authenticode_digest_sha256_hex :: "pe_lib \<Rightarrow> hash_fn \<Rightarrow> u8 list \<Rightarrow> string res" where
  "pe_authenticode_digest_sha256_hex L H bytes =
     rbind (pe_authenticode_digest L H bytes Sha256) (\<lambda>d. Inr (hex_lower d))"

section \<open>What the ranges cover\<close>

definition range_bytes :: "u8 list \<Rightarrow> range list \<Rightarrow> u8 list" where
  "range_bytes img rs = concat (map (\<lambda>(s, e). sub img s (e - s)) rs)"

lemma range_bytes_append [simp]: "range_bytes img (rs @ qs) = range_bytes img rs @ range_bytes img qs"
  by (simp add: range_bytes_def)

text \<open>Sections that follow each other without a gap from \<open>a\<close>.\<close>

fun contiguous :: "nat \<Rightarrow> range list \<Rightarrow> bool" where
  "contiguous a [] \<longleftrightarrow> True"
| "contiguous a ((s, e) # rs) \<longleftrightarrow> s = a \<and> s \<le> e \<and> contiguous e rs"

lemma section_ranges_sound:
  assumes "section_ranges img rs a acc = Some (b, out)"
  shows "out = acc @ rs \<and> b = a + length (range_bytes img rs) \<and> (\<forall>(s, e)\<in>set rs. s \<le> e \<and> e \<le> length img)"
  using assms
proof (induction img rs a acc rule: section_ranges.induct)
  case (2 img s e rs a acc)
  then obtain w where w: "slice_get img s e = Some w"
    and c: "checked_add_usize a (length w) = Some (a + length w)"
    and r: "section_ranges img rs (a + length w) (acc @ [(s, e)]) = Some (b, out)"
    by (auto simp: obind_Some_iff checked_add_usize_Some)
  then show ?case
    using "2.IH" [OF r] w by (auto simp: slice_get_Some range_bytes_def)
qed (simp add: range_bytes_def)

lemma range_bytes_contiguous:
  assumes "contiguous a rs" "\<forall>(s, e)\<in>set rs. s \<le> e \<and> e \<le> length img"
  shows "range_bytes img rs = sub img a (length (range_bytes img rs))"
  using assms
proof (induction rs arbitrary: a)
  case (Cons r rs)
  obtain s e where r: "r = (s, e)" by force
  then have c: "s = a" "s \<le> e" "e \<le> length img" "contiguous e rs"
    and "\<forall>(s, e)\<in>set rs. s \<le> e \<and> e \<le> length img"
    using Cons.prems by auto
  then have ih: "range_bytes img rs = sub img e (length (range_bytes img rs))"
    by (intro Cons.IH) simp_all
  have split: "range_bytes img (r # rs) = sub img a (e - a) @ range_bytes img rs"
    using r c by (simp add: range_bytes_def)
  moreover have "length (range_bytes img (r # rs)) = (e - a) + length (range_bytes img rs)"
    using c by (simp add: split length_sub)
  ultimately show ?case
    using c ih sub_split [of img a "e - a" "length (range_bytes img rs)"] by simp
qed (simp add: range_bytes_def)

lemma file_ranges_Some:
  assumes "authenticode_digest_file_ranges pe = Some rs"
    and o: "pt_offsets pe = Some off"
    and s: "collect_opt (map (pt_section_data_range pe) [1..<pt_num_sections pe + 1]) = Some secs"
  obtains hashed table cut where
    "pt_certificate_table_range pe = Some table"
    "cut = (case table of None \<Rightarrow> 0 | Some (s, e) \<Rightarrow> e - s)"
    "hashed = after_header off + length (range_bytes (pt_data pe) (sort_key fst secs))"
    "hashed + cut \<le> length (pt_data pe)"
    "\<forall>(s, e)\<in>set (sort_key fst secs). s \<le> e \<and> e \<le> length (pt_data pe)"
    "rs = [(0, check_sum off), (after_check_sum off, security_data_dir off),
           (after_security_data_dir off, after_header off)] @ sort_key fst secs @
          [(hashed, length (pt_data pe) - cut)]"
proof -
  from assms obtain hashed mid table extra where
    r: "section_ranges (pt_data pe) (sort_key fst secs) (after_header off)
      [(0, check_sum off), (after_check_sum off, security_data_dir off),
       (after_security_data_dir off, after_header off)] = Some (hashed, mid)"
    and le: "hashed \<le> length (pt_data pe)"
    and t: "pt_certificate_table_range pe = Some table"
    and x: "(case table of None \<Rightarrow> Some (length (pt_data pe) - hashed)
       | Some (s, e) \<Rightarrow> obind (checked_sub e s) (\<lambda>size. checked_sub (length (pt_data pe) - hashed) size)) = Some extra"
    and rs: "rs = mid @ [(hashed, hashed + extra)]"
    by (auto simp: authenticode_digest_file_ranges_def obind_Some_iff Let_def checked_sub_def
        checked_add_usize_Some split: if_splits)
  define cut where "cut = (case table of None \<Rightarrow> 0 | Some (s, e) \<Rightarrow> e - s)"
  have "cut \<le> length (pt_data pe) - hashed \<and> extra = length (pt_data pe) - hashed - cut"
    using x by (cases table) (auto simp: cut_def obind_Some_iff checked_sub_def split: if_splits)
  then have l: "hashed + cut \<le> length (pt_data pe)" "hashed + extra = length (pt_data pe) - cut"
    using le by linarith+
  from section_ranges_sound [OF r] have
    "hashed = after_header off + length (range_bytes (pt_data pe) (sort_key fst secs))"
    "\<forall>(s, e)\<in>set (sort_key fst secs). s \<le> e \<and> e \<le> length (pt_data pe)"
    "mid = [(0, check_sum off), (after_check_sum off, security_data_dir off),
           (after_security_data_dir off, after_header off)] @ sort_key fst secs" by blast+
  with that [OF t cut_def] l rs show ?thesis by simp
qed

section \<open>Properties\<close>

text \<open>C6: for an image whose sections follow the headers without a gap, the bytes hashed for the
  Authenticode digest are the whole file without CheckSum, without the security directory entry and
  without as many bytes at the end as the certificate table has: nothing else escapes the
  digest.\<close>

theorem pe_digest_ranges_cover:
  assumes "authenticode_digest_file_ranges pe = Some rs"
    and "pt_offsets pe = Some off"
    and "collect_opt (map (pt_section_data_range pe) [1..<pt_num_sections pe + 1]) = Some secs"
    and "contiguous (after_header off) (sort_key fst secs)"
    and "after_security_data_dir off \<le> after_header off"
  shows "\<exists>n. n \<le> length (pt_data pe) \<and>
    (pt_certificate_table_range pe = Some None \<longrightarrow> n = length (pt_data pe)) \<and>
    (\<forall>s e. pt_certificate_table_range pe = Some (Some (s, e)) \<longrightarrow> n = length (pt_data pe) - (e - s)) \<and>
    range_bytes (pt_data pe) rs =
      take (check_sum off) (pt_data pe) @
      sub (pt_data pe) (after_check_sum off) (security_data_dir off - after_check_sum off) @
      sub (pt_data pe) (after_security_data_dir off) (n - after_security_data_dir off)"
proof -
  let ?d = "pt_data pe" and ?ah = "after_header off" and ?sd = "after_security_data_dir off"
  let ?s = "sort_key fst secs"
  obtain table cut hashed where t: "pt_certificate_table_range pe = Some table"
    "cut = (case table of None \<Rightarrow> 0 | Some (s, e) \<Rightarrow> e - s)"
    and h: "hashed = ?ah + length (range_bytes ?d ?s)" "hashed + cut \<le> length ?d"
    and ok: "\<forall>(s, e)\<in>set ?s. s \<le> e \<and> e \<le> length ?d"
    and rs: "rs = [(0, check_sum off), (after_check_sum off, security_data_dir off), (?sd, ?ah)] @ ?s @
          [(hashed, length ?d - cut)]"
    by (rule file_ranges_Some [OF assms(1-3)])
  let ?n = "length ?d - cut" and ?m = "length (range_bytes ?d ?s)"
  have "?n - ?sd = (?ah - ?sd) + (?m + (?n - hashed))"
    using h assms(5) by linarith
  then have "sub ?d ?sd (?n - ?sd) = sub ?d ?sd ((?ah - ?sd) + (?m + (?n - hashed)))"
    by presburger
  also have "\<dots> = sub ?d ?sd (?ah - ?sd) @ sub ?d ?ah ?m @ sub ?d hashed (?n - hashed)"
    using sub_three [OF assms(5)] h(1) by simp
  also have "sub ?d ?ah ?m = range_bytes ?d ?s"
    using range_bytes_contiguous [OF assms(4) ok] by simp
  finally have "range_bytes ?d rs = take (check_sum off) ?d @
      sub ?d (after_check_sum off) (security_data_dir off - after_check_sum off) @
      sub ?d ?sd (?n - ?sd)"
    by (simp add: rs) (simp add: range_bytes_def sub_def)
  then show ?thesis
    using t by (intro exI [of _ ?n]) auto
qed

text \<open>A 24-byte image with a two-byte field, a two-byte entry, two sections and a table at the end.\<close>

definition sample_trait :: pe_trait where
  "sample_trait = \<lparr>pt_data = [0, 1, 2, 3, 4, 5, 6, 7, 8, 9, 10, 11, 12, 13, 14, 15, 16, 17, 18, 19, 20, 21, 22, 23],
     pt_offsets = Some \<lparr>check_sum = 2, after_check_sum = 4, security_data_dir = 6,
       after_security_data_dir = 8, after_header = 10\<rparr>,
     pt_num_sections = 2, pt_section_data_range = (\<lambda>i. if i = 1 then Some (14, 18) else Some (10, 14)),
     pt_certificate_table_range = Some (Some (20, 24))\<rparr>"

lemma section_numbers: "[Suc 0..<3] = [1, 2]"
  unfolding numeral_3_eq_3 numeral_2_eq_2 by simp

lemma sample_trait_ranges:
  "authenticode_digest_file_ranges sample_trait =
     Some [(0, 2), (4, 6), (8, 10), (10, 14), (14, 18), (18, 20)]"
  by (simp add: authenticode_digest_file_ranges_def sample_trait_def slice_get_def sub_def
      checked_add_usize_def checked_sub_def section_numbers)

theorem pe_digest_ranges_cover_witness:
  "range_bytes (pt_data sample_trait) [(0, 2), (4, 6), (8, 10), (10, 14), (14, 18), (18, 20)] =
     take 2 (pt_data sample_trait) @ sub (pt_data sample_trait) 4 2 @ sub (pt_data sample_trait) 8 12"
proof -
  let ?off = "\<lparr>check_sum = 2, after_check_sum = 4, security_data_dir = 6,
       after_security_data_dir = 8, after_header = 10\<rparr>"
  have o: "pt_offsets sample_trait = Some ?off" "pt_certificate_table_range sample_trait = Some (Some (20, 24))"
    "length (pt_data sample_trait) = 24"
    by (simp_all add: sample_trait_def)
  have "collect_opt (map (pt_section_data_range sample_trait) [1..<pt_num_sections sample_trait + 1]) =
      Some [(14, 18), (10, 14)]"
    and "contiguous (after_header ?off) (sort_key fst [(14 :: nat, 18), (10, 14)])"
    by (simp_all add: sample_trait_def section_numbers)
  from pe_digest_ranges_cover [OF sample_trait_ranges o(1) this] show ?thesis
    by (auto simp: o)
qed

end
