(* ===== verification/Sig_Container.thy ===== *)
theory Sig_Container
  imports Prelude
begin

text \<open>
  The contract every signable container of the repository offers to the signing and to the
  verification commands: the digest input taken from the unsigned file, embedding a signature
  blob, taking the blob out again, and the digest input recomputed from the signed file.

  \<open>admissible\<close> names the files and blobs the container accepts (its documented limits); the laws
  say that embedding then succeeds, that the blob comes back, and that the two digest inputs agree.
\<close>

locale sig_container =
  fixes admissible :: "'f \<Rightarrow> 's \<Rightarrow> bool"
    and embed :: "'f \<Rightarrow> 's \<Rightarrow> 'f res"
    and payload :: "'f \<Rightarrow> 's res"
    and digest_to_sign :: "'f \<Rightarrow> 'd res"
    and digest_to_verify :: "'f \<Rightarrow> 'd res"
  assumes embed_total: "admissible f s \<Longrightarrow> \<exists>g. embed f s = Inr g"
    and extract_embed: "admissible f s \<Longrightarrow> embed f s = Inr g \<Longrightarrow> payload g = Inr s"
    and digest_embed: "admissible f s \<Longrightarrow> embed f s = Inr g \<Longrightarrow> digest_to_verify g = digest_to_sign f"
begin

text \<open>The pipelines of the commands over the contract: \<open>attest\<close> is the signer, \<open>claimed\<close> reads the
  digest out of a blob.\<close>

definition sign :: "('d \<Rightarrow> 's) \<Rightarrow> 'f \<Rightarrow> 'f res" where
  "sign attest f = rbind (digest_to_sign f) (\<lambda>d. embed f (attest d))"

definition verify :: "('s \<Rightarrow> 'd option) \<Rightarrow> 'f \<Rightarrow> bool" where
  "verify claimed g = (case payload g of Inl _ \<Rightarrow> False | Inr s \<Rightarrow>
     (case digest_to_verify g of Inl _ \<Rightarrow> False | Inr d \<Rightarrow> claimed s = Some d))"

lemma sign_then_verify:
  assumes "digest_to_sign f = Inr d" "admissible f (attest d)" "claimed (attest d) = Some d"
  shows "\<exists>g. sign attest f = Inr g \<and> payload g = Inr (attest d) \<and> verify claimed g"
proof -
  obtain g where g: "embed f (attest d) = Inr g" using embed_total [OF assms(2)] by blast
  then have "payload g = Inr (attest d)" "digest_to_verify g = Inr d"
    using extract_embed [OF assms(2)] digest_embed [OF assms(2)] assms(1) by auto
  with g assms(1,3) show ?thesis by (simp add: sign_def verify_def)
qed

text \<open>A signature made for one file does not verify in a container with another digest.\<close>

lemma transplant_rejected:
  assumes "embed f s = Inr g" "admissible f s" "digest_to_sign f = Inr d" "claimed s = Some d'" "d \<noteq> d'"
  shows "\<not> verify claimed g"
  using extract_embed [OF assms(2,1)] digest_embed [OF assms(2,1)] assms by (simp add: verify_def)

end

end
