(* ===== verification/Cab.thy ===== *)
theory Cab
  imports Pe_Digest Sig_Container
begin

text \<open>
  Model of \<^verbatim>\<open>crates/psign-sip-digest/src/cab_digest.rs\<close>: the layout check of a cabinet, the
  insertion of the Authenticode reserve header, the digest that is signed, the digest that is
  verified and the extraction of the embedded blob.

  A running hasher is its kind with the bytes fed so far; \<open>hash_fn\<close> (a parameter) is applied on
  \<^verbatim>\<open>finalize\<close>. Slices that index out of range are \<open>Panic\<close>.
\<close>

unbundle bit_operations_syntax

definition FLAG_PREV_CABINET :: u16 where "FLAG_PREV_CABINET = 0x0001"
definition FLAG_NEXT_CABINET :: u16 where "FLAG_NEXT_CABINET = 0x0002"
definition FLAG_RESERVE_PRESENT :: u16 where "FLAG_RESERVE_PRESENT = 0x0004"
definition AB_RESERVE_EXPECTED :: u32 where "AB_RESERVE_EXPECTED = 0x00100000"
definition SIGNED_HEADER_EXTRA :: u32 where "SIGNED_HEADER_EXTRA = 20"

lemmas cab_consts = FLAG_PREV_CABINET_def FLAG_NEXT_CABINET_def FLAG_RESERVE_PRESENT_def
  AB_RESERVE_EXPECTED_def SIGNED_HEADER_EXTRA_def

record CabCtx =
  header_size :: u32
  sigpos :: u32
  siglen :: u32
  cab_fileend :: u32
  cab_flags :: u16

type_synonym running_hasher = "PeAuthenticodeHashKind \<times> u8 list"

definition hasher_new :: "PeAuthenticodeHashKind \<Rightarrow> running_hasher" where
  "hasher_new kind = (kind, [])"

fun hasher_update :: "running_hasher \<Rightarrow> u8 list \<Rightarrow> running_hasher" where
  "hasher_update (kind, fed) bytes = (kind, fed @ bytes)"

fun hasher_finalize :: "hash_fn \<Rightarrow> running_hasher \<Rightarrow> u8 list" where
  "hasher_finalize H (kind, fed) = H kind fed"

definition read_u16_le :: "u8 list \<Rightarrow> nat \<Rightarrow> u16 res" where
  "read_u16_le buf off = ok_or (map_option u16_from_le (slice_get buf off (off + 2))) ''read past end''"

definition read_u32_le :: "u8 list \<Rightarrow> nat \<Rightarrow> u32 res" where
  "read_u32_le buf off = ok_or (map_option u32_from_le (slice_get buf off (off + 4))) ''read past end''"

definition write_u16_le :: "u8 list \<Rightarrow> nat \<Rightarrow> u16 \<Rightarrow> u8 list res" where
  "write_u16_le buf off v =
     (if off + 2 \<le> length buf then Inr (patch buf off (u16_to_le v)) else bail ''write past end'')"

definition write_u32_le :: "u8 list \<Rightarrow> nat \<Rightarrow> u32 \<Rightarrow> u8 list res" where
  "write_u32_le buf off v =
     (if off + 4 \<le> length buf then Inr (patch buf off (u32_to_le v)) else bail ''write past end'')"

definition checked_u32_add :: "u32 \<Rightarrow> u32 \<Rightarrow> u32 res" where
  "checked_u32_add a b = ok_or (checked_add_u32 a b) ''exceeds CAB u32 range''"

function skip_cab_sz :: "u8 list \<Rightarrow> nat \<Rightarrow> nat res" where
  "skip_cab_sz data idx =
     (if idx < length data then
        let b = data ! idx; idx = idx + 1 in if b = 0 then Inr idx else skip_cab_sz data idx
      else bail ''truncated CAB sz field'')"
  by pat_completeness auto
termination by (relation "measure (\<lambda>(data, idx). length data - idx)") auto

declare skip_cab_sz.simps [simp del]

definition cffolder_table_offset :: "u8 list \<Rightarrow> u16 \<Rightarrow> nat res" where
  "cffolder_table_offset data flags =
     (if flags AND FLAG_PREV_CABINET \<noteq> 0
      then bail ''multivolume CAB is unsupported for portable signing''
      else if flags AND FLAG_NEXT_CABINET \<noteq> 0
      then rbind (skip_cab_sz data 36) (\<lambda>idx. skip_cab_sz data idx)
      else Inr 36)"

definition saturating_add_u32 :: "u32 \<Rightarrow> u32 \<Rightarrow> u32" where
  "saturating_add_u32 a b = (case checked_add_u32 a b of None \<Rightarrow> -1 | Some c \<Rightarrow> c)"

definition parse_cab_context :: "u8 list \<Rightarrow> CabCtx res" where
  "parse_cab_context data =
     (if length data < 44 then bail ''CAB file too short''
      else if slice_get data 0 4 \<noteq> Some [0x4d, 0x53, 0x43, 0x46]
        then bail ''not a CAB file (missing MSCF signature)''
      else rbind (read_u32_le data 4) (\<lambda>reserved1.
        if reserved1 \<noteq> 0 then bail ''CAB reserved1 must be zero''
        else rbind (read_u16_le data 30) (\<lambda>flags.
          if flags AND FLAG_PREV_CABINET \<noteq> 0
          then bail ''multivolume CAB is unsupported for Rust SIP digest''
          else rbind (ok_or (u32_try_from (length data)) ''CAB file too large'') (\<lambda>fileend.
            if flags AND FLAG_RESERVE_PRESENT \<noteq> 0 then
              rbind (read_u32_le data 36) (\<lambda>header_size.
              if header_size \<noteq> SIGNED_HEADER_EXTRA
              then bail ''unsupported CAB additional header size''
              else rbind (read_u32_le data 40) (\<lambda>ab_reserved.
                if ab_reserved \<noteq> AB_RESERVE_EXPECTED then bail ''unexpected CAB abReserve value''
                else rbind (read_u32_le data 44) (\<lambda>sigpos. rbind (read_u32_le data 48) (\<lambda>siglen.
                  if sigpos > 0 \<and> siglen = 0 \<or> sigpos = 0 \<and> siglen > 0
                  then bail ''corrupt CAB signature extent (sigpos/siglen)''
                  else if sigpos < fileend \<and> saturating_add_u32 sigpos siglen \<noteq> fileend
                  then bail ''CAB signature extent does not match file size''
                  else if sigpos \<ge> fileend then bail ''CAB sigpos past end of file''
                  else Inr \<lparr>header_size = header_size, sigpos = sigpos, siglen = siglen,
                             cab_fileend = fileend, cab_flags = flags\<rparr>))))
            else Inr \<lparr>header_size = 0, sigpos = 0, siglen = 0, cab_fileend = fileend,
                       cab_flags = flags\<rparr>))))"

text \<open>The loop that shifts the data offset of every CFFOLDER entry by the reserve block.\<close>

fun shift_folders :: "u8 list \<Rightarrow> nat \<Rightarrow> nat list \<Rightarrow> u8 list res" where
  "shift_folders out new_folder_table [] = Inr out"
| "shift_folders out new_folder_table (folder_index # rest) =
     (let entry = new_folder_table + folder_index * 8 in
      rbind (read_u32_le out entry) (\<lambda>coff_cab_start.
      rbind (checked_u32_add coff_cab_start 24) (\<lambda>shifted.
      rbind (write_u32_le out entry shifted) (\<lambda>out.
        shift_folders out new_folder_table rest))))"

definition cab_reserve_block :: "u8 list" where
  "cab_reserve_block = [0x14, 0, 0, 0, 0, 0, 0x10, 0, 0, 0, 0, 0, 0, 0, 0, 0, 0, 0, 0, 0, 0, 0, 0, 0]"

definition prepare_unsigned_cab_for_authenticode_signature :: "u8 list \<Rightarrow> nat \<Rightarrow> u8 list res" where
  "prepare_unsigned_cab_for_authenticode_signature data signature_len =
     rbind (parse_cab_context data) (\<lambda>ctx.
     if cab_flags ctx AND FLAG_RESERVE_PRESENT \<noteq> 0
     then bail ''CAB already has a reserve header; replacing CAB signatures is not implemented''
     else if sigpos ctx \<noteq> 0 \<or> siglen ctx \<noteq> 0 then bail ''CAB already has an embedded signature''
     else rbind (ok_or (u32_try_from signature_len) ''CAB signature too large'') (\<lambda>signature_len.
     rbind (ok_or (u32_try_from (length data)) ''CAB file too large'') (\<lambda>original_len.
     rbind (checked_u32_add original_len 24) (\<lambda>sigpos.
     rbind (read_u32_le data 8) (\<lambda>original_cb_cabinet.
     if original_cb_cabinet \<noteq> original_len then bail ''unsupported CAB cbCabinet''
     else rbind (read_u32_le data 16) (\<lambda>original_coff_files.
     rbind (read_u16_le data 26) (\<lambda>folder_count.
     rbind (cffolder_table_offset data (cab_flags ctx)) (\<lambda>original_folder_table.
     rbind (ok_or (checked_add_usize original_folder_table (unat folder_count * 8))
              ''CFFOLDER table overflow'') (\<lambda>folder_table_end.
     if unat original_coff_files < folder_table_end
     then bail ''CFFOLDER table extends past coffFiles''
     else rbind (slice_idx data 0 36) (\<lambda>head.
     rbind (slice_idx data 36 (length data)) (\<lambda>rest.
     let out = head @ cab_reserve_block @ rest;
         new_flags = cab_flags ctx OR FLAG_RESERVE_PRESENT in
     rbind (write_u32_le out 8 sigpos) (\<lambda>out.
     rbind (checked_u32_add original_coff_files 24) (\<lambda>new_coff_files.
     rbind (write_u32_le out 16 new_coff_files) (\<lambda>out.
     rbind (write_u16_le out 30 new_flags) (\<lambda>out.
     rbind (write_u32_le out 44 sigpos) (\<lambda>out.
     rbind (write_u32_le out 48 signature_len) (\<lambda>out.
     rbind (ok_or (checked_add_usize original_folder_table 24) ''CFFOLDER table offset overflow'')
       (\<lambda>new_folder_table.
       shift_folders out new_folder_table [0..<unat folder_count]))))))))))))))))))"

definition cab_append_authenticode_pkcs7_signature :: "u8 list \<Rightarrow> u8 list \<Rightarrow> u8 list res" where
  "cab_append_authenticode_pkcs7_signature data pkcs7 =
     rbind (prepare_unsigned_cab_for_authenticode_signature data (length pkcs7)) (\<lambda>out.
       Inr (out @ pkcs7))"

function hash_sz_field :: "running_hasher \<Rightarrow> u8 list \<Rightarrow> nat \<Rightarrow> nat \<Rightarrow> (running_hasher \<times> nat) res" where
  "hash_sz_field hasher data idx fileend =
     (if idx < fileend then
        if length data \<le> idx then Inl Panic
        else let b = data ! idx; hasher = hasher_update hasher [b]; idx = idx + 1
             in if b = 0 then Inr (hasher, idx) else hash_sz_field hasher data idx fileend
      else Inr (hasher, idx))"
  by pat_completeness auto
termination by (relation "measure (\<lambda>(_, _, idx, fileend). fileend - idx)") auto

declare hash_sz_field.simps [simp del]

text \<open>The \<^verbatim>\<open>while remaining > 0 && idx < sigpos\<close> loop over the folder table.\<close>

fun hash_folders :: "running_hasher \<Rightarrow> u8 list \<Rightarrow> nat \<Rightarrow> nat \<Rightarrow> nat \<Rightarrow> (running_hasher \<times> nat \<times> nat) res" where
  "hash_folders hasher data lim idx 0 = Inr (hasher, idx, 0)"
| "hash_folders hasher data lim idx (Suc remaining) =
     (if idx < lim then
        rbind (ok_or (checked_add_usize idx 8) ''folder table overflow'') (\<lambda>end.
        if lim < end then bail ''CFFOLDER entries overflow signature offset''
        else rbind (slice_idx data idx end) (\<lambda>entry.
          hash_folders (hasher_update hasher entry) data lim end remaining))
      else Inr (hasher, idx, Suc remaining))"

fun hash_slices :: "running_hasher \<Rightarrow> u8 list \<Rightarrow> range list \<Rightarrow> running_hasher res" where
  "hash_slices hasher data [] = Inr hasher"
| "hash_slices hasher data ((a, b) # rs) =
     rbind (slice_idx data a b) (\<lambda>bytes. hash_slices (hasher_update hasher bytes) data rs)"

definition compute_cab_authenticode_digest ::
  "hash_fn \<Rightarrow> u8 list \<Rightarrow> CabCtx \<Rightarrow> PeAuthenticodeHashKind \<Rightarrow> u8 list res" where
  "compute_cab_authenticode_digest H data ctx kind =
     (let fileend = unat (cab_fileend ctx) in
      rbind (hash_slices (hasher_new kind) data [(0, 4)]) (\<lambda>hasher.
      if sigpos ctx \<noteq> 0 then
        let sigpos = unat (sigpos ctx) in
        rbind (read_u32_le data 16) (\<lambda>coff_files.
        rbind (read_u16_le data 26) (\<lambda>nfolders.
        rbind (read_u16_le data 30) (\<lambda>flags.
        rbind (hash_slices hasher data
          [(8, 16), (16, 20), (20, 26), (26, 28), (28, 30), (30, 32), (32, 34), (56, 60)]) (\<lambda>hasher.
        rbind (if flags AND FLAG_NEXT_CABINET \<noteq> 0 then
                 rbind (hash_sz_field hasher data 60 sigpos) (\<lambda>(hasher, idx).
                   hash_sz_field hasher data idx sigpos)
               else Inr (hasher, 60)) (\<lambda>(hasher, idx).
        rbind (hash_folders hasher data sigpos idx (unat nfolders)) (\<lambda>(hasher, idx, remaining).
        if remaining \<noteq> 0 then bail ''truncated CFFOLDER table''
        else if idx \<noteq> unat coff_files then bail ''corrupt CAB coffFiles''
        else if fileend < sigpos then bail ''sigpos past file''
        else rbind (hash_slices hasher data [(idx, sigpos)]) (\<lambda>hasher.
          Inr (hasher_finalize H hasher))))))))
      else rbind (hash_slices hasher data [(8, fileend)]) (\<lambda>hasher.
        Inr (hasher_finalize H hasher))))"

definition cab_authenticode_digest_for_signing ::
  "hash_fn \<Rightarrow> u8 list \<Rightarrow> PeAuthenticodeHashKind \<Rightarrow> u8 list res" where
  "cab_authenticode_digest_for_signing H unsigned_cab kind =
     rbind (prepare_unsigned_cab_for_authenticode_signature unsigned_cab 0) (\<lambda>prepared.
     rbind (ok_or (u32_try_from (length prepared)) ''CAB file too large'') (\<lambda>sigpos.
     rbind (read_u16_le prepared 30) (\<lambda>flags.
       compute_cab_authenticode_digest H prepared
         \<lparr>header_size = SIGNED_HEADER_EXTRA, sigpos = sigpos, siglen = 0, cab_fileend = sigpos,
           cab_flags = flags\<rparr> kind)))"

definition cab_signature_pkcs7_der :: "u8 list \<Rightarrow> u8 list res" where
  "cab_signature_pkcs7_der data =
     rbind (parse_cab_context data) (\<lambda>ctx.
     if header_size ctx \<noteq> SIGNED_HEADER_EXTRA \<or> sigpos ctx = 0 \<or> siglen ctx = 0
     then bail ''CAB has no embedded Authenticode signature''
     else rbind (ok_or (checked_add_usize (unat (sigpos ctx)) (unat (siglen ctx)))
                  ''signature extent overflow'') (\<lambda>sig_end.
       ok_or (slice_get data (unat (sigpos ctx)) sig_end) ''PKCS#7 extent out of range''))"

text \<open>
  \<open>sig_digest\<close> is the digest the crate \<^verbatim>\<open>authenticode\<close> reads out of a PKCS#7 blob; the file is
  read by the caller.
\<close>

definition verify_cab_digest_consistency ::
  "hash_fn \<Rightarrow> (u8 list \<Rightarrow> u8 list option) \<Rightarrow> u8 list \<Rightarrow> unit res" where
  "verify_cab_digest_consistency H sig_digest data =
     rbind (parse_cab_context data) (\<lambda>ctx.
     if header_size ctx \<noteq> SIGNED_HEADER_EXTRA \<or> sigpos ctx = 0 \<or> siglen ctx = 0
     then bail ''CAB has no embedded Authenticode signature''
     else rbind (cab_signature_pkcs7_der data) (\<lambda>pkcs7.
       rbind (ok_or (sig_digest pkcs7) ''CAB PKCS#7 parse failed'') (\<lambda>embedded.
       rbind (from_digest_byte_len (length embedded)) (\<lambda>kind.
       rbind (compute_cab_authenticode_digest H data ctx kind) (\<lambda>computed.
         if computed \<noteq> embedded then bail ''CAB Authenticode digest mismatch''
         else Inr ())))))"

section \<open>Reads and writes\<close>

lemma read_u16_le_Inr [res_simps]:
  "read_u16_le buf off = Inr w \<longleftrightarrow> off + 2 \<le> length buf \<and> w = u16_from_le (sub buf off 2)"
  by (auto simp: read_u16_le_def res_simps slice_get_Some)

lemma read_u32_le_Inr [res_simps]:
  "read_u32_le buf off = Inr w \<longleftrightarrow> off + 4 \<le> length buf \<and> w = u32_from_le (sub buf off 4)"
  by (auto simp: read_u32_le_def res_simps slice_get_Some)

lemma read_u16_le_ok: "off + 2 \<le> length buf \<Longrightarrow> read_u16_le buf off = Inr (u16_from_le (sub buf off 2))"
  by (simp add: read_u16_le_Inr)

lemma read_u32_le_ok: "off + 4 \<le> length buf \<Longrightarrow> read_u32_le buf off = Inr (u32_from_le (sub buf off 4))"
  by (simp add: read_u32_le_Inr)

lemma write_u32_le_ok [simp]: "off + 4 \<le> length buf \<Longrightarrow> write_u32_le buf off v = Inr (patch buf off (u32_to_le v))"
  by (simp add: write_u32_le_def)

lemma write_u16_le_ok [simp]: "off + 2 \<le> length buf \<Longrightarrow> write_u16_le buf off v = Inr (patch buf off (u16_to_le v))"
  by (simp add: write_u16_le_def)

lemma write_u32_le_Inr: "write_u32_le buf off v = Inr out \<longleftrightarrow> off + 4 \<le> length buf \<and> out = patch buf off (u32_to_le v)"
  by (auto simp: write_u32_le_def)

section \<open>The folder table walk\<close>

text \<open>The walk keeps the length, and every window that ends in front of the table.\<close>

lemma shift_folders_frame:
  assumes "shift_folders out t is = Inr out'"
  shows "length out' = length out \<and> (\<forall>a n. a + n \<le> t \<longrightarrow> sub out' a n = sub out a n)"
  using assms
proof (induction out t "is" rule: shift_folders.induct)
  case (2 out t i rest)
  then obtain w v where w: "read_u32_le out (t + i * 8) = Inr w" "checked_u32_add w 24 = Inr v"
    and len: "t + i * 8 + 4 \<le> length out"
    and r: "shift_folders (patch out (t + i * 8) (u32_to_le v)) t rest = Inr out'"
    by (auto simp: rbind_Inr_iff Let_def write_u32_le_Inr)
  from "2.IH" [OF refl w _ r] len show ?case
    by (simp add: length_patch sub_patch_before)
qed simp

text \<open>A write in front of the table commutes with the walk.\<close>

lemma shift_folders_patch:
  assumes "shift_folders out t is = Inr out'" "a + length ys \<le> t" "a + length ys \<le> length out"
  shows "shift_folders (patch out a ys) t is = Inr (patch out' a ys)"
  using assms
proof (induction out t "is" rule: shift_folders.induct)
  case (2 out t i rest)
  then obtain w v where w: "read_u32_le out (t + i * 8) = Inr w" "checked_u32_add w 24 = Inr v"
    and len: "t + i * 8 + 4 \<le> length out"
    and r: "shift_folders (patch out (t + i * 8) (u32_to_le v)) t rest = Inr out'"
    by (auto simp: rbind_Inr_iff Let_def write_u32_le_Inr)
  have p: "patch (patch out a ys) (t + i * 8) (u32_to_le v) = patch (patch out (t + i * 8) (u32_to_le v)) a ys"
    using 2(3) len by (intro patch_commute) simp_all
  have "read_u32_le (patch out a ys) (t + i * 8) = Inr w"
    using w(1) 2(3,4) len by (simp add: read_u32_le_Inr length_patch sub_patch_after)
  moreover have "shift_folders (patch (patch out (t + i * 8) (u32_to_le v)) a ys) t rest = Inr (patch out' a ys)"
    using "2.IH" [OF refl w _ r] 2(3,4) len by (simp add: length_patch)
  ultimately show ?case
    using w(2) len 2(4) by (simp add: Let_def length_patch p)
qed simp

section \<open>Layout of a prepared cabinet\<close>

definition unsigned_cab :: "u8 list \<Rightarrow> bool" where
  "unsigned_cab data \<longleftrightarrow> is_ok (prepare_unsigned_cab_for_authenticode_signature data 0)"

text \<open>
  \<open>signed_layout out n sl\<close>: \<open>out\<close> has a 24-byte reserve block announcing a signature of
  \<open>sl\<close> bytes at offset \<open>n\<close>.
\<close>

definition signed_layout :: "u8 list \<Rightarrow> nat \<Rightarrow> nat \<Rightarrow> bool" where
  "signed_layout out n sl \<longleftrightarrow> 68 \<le> n \<and> n \<le> length out \<and> n < 2 ^ 32 \<and> sl < 2 ^ 32 \<and>
     sub out 0 4 = [0x4d, 0x53, 0x43, 0x46] \<and> u32_from_le (sub out 4 4) = 0 \<and>
     u16_from_le (sub out 30 2) AND FLAG_PREV_CABINET = 0 \<and>
     u16_from_le (sub out 30 2) AND FLAG_RESERVE_PRESENT \<noteq> 0 \<and>
     u32_from_le (sub out 36 4) = SIGNED_HEADER_EXTRA \<and>
     u32_from_le (sub out 40 4) = AB_RESERVE_EXPECTED \<and>
     u32_from_le (sub out 44 4) = word_of_nat n \<and> u32_from_le (sub out 48 4) = word_of_nat sl"

lemma parse_unreserved:
  assumes "parse_cab_context data = Inr ctx" "cab_flags ctx AND FLAG_RESERVE_PRESENT = 0"
  shows "44 \<le> length data \<and> sub data 0 4 = [0x4d, 0x53, 0x43, 0x46] \<and>
    u32_from_le (sub data 4 4) = 0 \<and> cab_flags ctx = u16_from_le (sub data 30 2) \<and>
    cab_flags ctx AND FLAG_PREV_CABINET = 0"
  using assms
  by (auto simp: parse_cab_context_def rbind_Inr_iff if_bail_Inr read_u32_le_Inr read_u16_le_Inr
      slice_get_Some split: if_splits)

lemma parse_signed:
  assumes s: "signed_layout out n sl" and len: "length out = n + sl" "length out < 2 ^ 32" and sl: "0 < sl"
  shows "parse_cab_context out = Inr \<lparr>header_size = SIGNED_HEADER_EXTRA, sigpos = word_of_nat n,
    siglen = word_of_nat sl, cab_fileend = word_of_nat (n + sl), cab_flags = u16_from_le (sub out 30 2)\<rparr>"
proof -
  have u: "unat (word_of_nat n :: u32) = n" "unat (word_of_nat sl :: u32) = sl"
    "unat (word_of_nat (n + sl) :: u32) = n + sl"
    using s len by (auto simp: signed_layout_def unat_of_nat simp del: of_nat_add)
  have "(word_of_nat n :: u32) > 0" "(word_of_nat sl :: u32) > 0"
    using u sl s by (auto simp: signed_layout_def word_less_nat_alt)
  then have "(word_of_nat n :: u32) \<noteq> 0" "(word_of_nat sl :: u32) \<noteq> 0" by auto
  moreover have "(word_of_nat n :: u32) < word_of_nat (n + sl)"
    "\<not> (word_of_nat (n + sl) :: u32) \<le> word_of_nat n"
    using u sl by (simp_all add: word_less_nat_alt word_le_nat_alt del: of_nat_add)
  moreover have "saturating_add_u32 (word_of_nat n) (word_of_nat sl) = word_of_nat (n + sl)"
    using u len by (simp add: saturating_add_u32_def checked_add_u32_def)
  moreover have "\<not> length out < 44" "slice_get out 0 4 = Some [0x4d, 0x53, 0x43, 0x46]"
    "52 \<le> length out"
    using s by (auto simp: signed_layout_def slice_get_Some)
  ultimately show ?thesis
    using s len by (simp add: parse_cab_context_def signed_layout_def read_u32_le_ok read_u16_le_ok
        u32_try_from_def not_le del: of_nat_add)
qed

lemma extract_signed:
  assumes "signed_layout out n (length p)" "length out = n" "p \<noteq> []" "n + length p < 2 ^ 32"
  shows "cab_signature_pkcs7_der (out @ p) = Inr p"
proof -
  have "signed_layout (out @ p) n (length p)"
    using assms(1,2) by (simp add: signed_layout_def sub_append_left)
  then have "parse_cab_context (out @ p) = Inr \<lparr>header_size = SIGNED_HEADER_EXTRA,
    sigpos = word_of_nat n, siglen = word_of_nat (length p), cab_fileend = word_of_nat (n + length p),
    cab_flags = u16_from_le (sub (out @ p) 30 2)\<rparr>"
    using assms by (intro parse_signed) simp_all
  moreover have u: "unat (word_of_nat n :: u32) = n" "unat (word_of_nat (length p) :: u32) = length p"
    using assms by (auto simp: unat_of_nat)
  moreover have "(word_of_nat n :: u32) \<noteq> 0" "(word_of_nat (length p) :: u32) \<noteq> 0"
    using u assms by (auto simp: signed_layout_def simp del: of_nat_eq_0_iff dest!: arg_cong [of _ _ unat])
  ultimately show ?thesis
    using assms by (simp add: cab_signature_pkcs7_der_def checked_add_usize_def slice_get_def
        sub_append_right sub_def)
qed

section \<open>What prepare writes\<close>

lemma skip_cab_sz_gt: "skip_cab_sz data i = Inr j \<Longrightarrow> i < j"
proof (induction data i rule: skip_cab_sz.induct)
  case (1 data i)
  then show ?case
    by (fastforce simp: skip_cab_sz.simps [of data i] Let_def split: if_splits)
qed

lemma cffolder_table_offset_ge: "cffolder_table_offset data flags = Inr t \<Longrightarrow> 36 \<le> t"
  by (auto simp: cffolder_table_offset_def rbind_Inr_iff dest!: skip_cab_sz_gt split: if_splits)

definition cab_base :: "u8 list \<Rightarrow> u16 \<Rightarrow> u32 \<Rightarrow> nat \<Rightarrow> u8 list" where
  "cab_base data flags coff n =
     (let out = take 36 data @ cab_reserve_block @ drop 36 data;
          sp = u32_to_le (word_of_nat (length data + 24))
      in patch (patch (patch (patch (patch out 8 sp) 16 (u32_to_le coff)) 30
           (u16_to_le (flags OR FLAG_RESERVE_PRESENT))) 44 sp) 48 (u32_to_le (word_of_nat n)))"

lemma length_reserve_block [simp]: "length cab_reserve_block = 24"
  by (simp add: cab_reserve_block_def)

lemma length_cab_base: "44 \<le> length data \<Longrightarrow> length (cab_base data flags coff n) = length data + 24"
  by (simp add: cab_base_def Let_def length_patch)

lemma cab_base_resize:
  "44 \<le> length data \<Longrightarrow> cab_base data flags coff m = patch (cab_base data flags coff n) 48 (u32_to_le (word_of_nat m))"
  by (simp add: cab_base_def Let_def length_patch patch_same_again)

lemma prepare_Inr:
  assumes "prepare_unsigned_cab_for_authenticode_signature data n = Inr out"
  obtains ctx coff k t where "parse_cab_context data = Inr ctx"
    "cab_flags ctx AND FLAG_RESERVE_PRESENT = 0" "n < 2 ^ 32" "length data + 24 < 2 ^ 32"
    "36 \<le> t" "44 \<le> length data"
    "shift_folders (cab_base data (cab_flags ctx) coff n) (t + 24) [0..<k] = Inr out"
    "\<forall>m. m < 2 ^ 32 \<longrightarrow> prepare_unsigned_cab_for_authenticode_signature data m =
       shift_folders (cab_base data (cab_flags ctx) coff m) (t + 24) [0..<k]"
proof -
  from assms obtain ctx where p: "parse_cab_context data = Inr ctx"
    "cab_flags ctx AND FLAG_RESERVE_PRESENT = 0" "sigpos ctx = 0" "siglen ctx = 0"
    by (auto simp: prepare_unsigned_cab_for_authenticode_signature_def rbind_Inr_iff split: if_splits)
  then have len: "44 \<le> length data" using parse_unreserved by blast
  from assms p obtain sl ol sp cb coff k t tend coff' where
    sl: "u32_try_from n = Some sl" and ol: "u32_try_from (length data) = Some ol"
    and sp: "checked_u32_add ol 24 = Inr sp" and cb: "read_u32_le data 8 = Inr ol"
    and coff: "read_u32_le data 16 = Inr coff" and k: "read_u16_le data 26 = Inr k"
    and t: "cffolder_table_offset data (cab_flags ctx) = Inr t"
    and te: "checked_add_usize t (unat k * 8) = Some tend" "\<not> unat coff < tend"
    and c': "checked_u32_add coff 24 = Inr coff'"
    and t24: "checked_add_usize t 24 = Some (t + 24)"
    by (auto simp: prepare_unsigned_cab_for_authenticode_signature_def res_simps if_bail_Inr Let_def
        checked_add_usize_Some)
  have l24: "length data + 24 < 2 ^ 32" "sp = word_of_nat (length data + 24)"
    using sp ol by (auto simp: checked_u32_add_def res_simps checked_add_u32_def u32_try_from_def
        unat_of_nat split: if_splits)
  have w: "sub data 0 36 = take 36 data" "sub data 36 (length data - 36) = drop 36 data"
    by (simp_all add: sub_def)
  have all: "prepare_unsigned_cab_for_authenticode_signature data m =
       shift_folders (cab_base data (cab_flags ctx) coff' m) (t + 24) [0..<unat k]" if "m < 2 ^ 32" for m
    using that p len ol sp cb coff k t te c' t24 l24
    by (simp add: prepare_unsigned_cab_for_authenticode_signature_def Let_def u32_try_from_def
        cab_base_def length_patch w)
  have "n < 2 ^ 32" using sl by (simp add: u32_try_from_Some)
  then show ?thesis
    using that [OF p(1,2) _ l24(1) cffolder_table_offset_ge [OF t] len] assms all by simp
qed

lemma cab_base_windows:
  assumes "44 \<le> length data"
  shows "sub (cab_base data flags coff n) 0 8 = sub data 0 8"
    "sub (cab_base data flags coff n) 30 2 = u16_to_le (flags OR FLAG_RESERVE_PRESENT)"
    "sub (cab_base data flags coff n) 36 8 = take 8 cab_reserve_block"
    "sub (cab_base data flags coff n) 44 4 = u32_to_le (word_of_nat (length data + 24))"
    "sub (cab_base data flags coff n) 48 4 = u32_to_le (word_of_nat n)"
proof -
  let ?o = "take 36 data @ cab_reserve_block @ drop 36 data"
  have o: "length ?o = length data + 24" "sub ?o 0 8 = sub data 0 8" "sub ?o 36 8 = take 8 cab_reserve_block"
    using assms by (simp_all add: sub_def min_def)
  show "sub (cab_base data flags coff n) 0 8 = sub data 0 8"
    using assms o by (simp add: cab_base_def Let_def length_patch sub_patch_before)
  show "sub (cab_base data flags coff n) 30 2 = u16_to_le (flags OR FLAG_RESERVE_PRESENT)"
    using assms o by (simp add: cab_base_def Let_def length_patch sub_patch_before sub_patch_same)
  show "sub (cab_base data flags coff n) 36 8 = take 8 cab_reserve_block"
    using assms o by (simp add: cab_base_def Let_def length_patch sub_patch_before sub_patch_after)
  show "sub (cab_base data flags coff n) 44 4 = u32_to_le (word_of_nat (length data + 24))"
    using assms o by (simp add: cab_base_def Let_def length_patch sub_patch_before sub_patch_same)
  show "sub (cab_base data flags coff n) 48 4 = u32_to_le (word_of_nat n)"
    using assms o by (simp add: cab_base_def Let_def length_patch sub_patch_same)
qed

lemma reserve_flag:
  "(f OR FLAG_RESERVE_PRESENT) AND FLAG_PREV_CABINET = f AND FLAG_PREV_CABINET"
  "(f OR FLAG_RESERVE_PRESENT) AND FLAG_RESERVE_PRESENT \<noteq> 0"
  by (simp_all add: cab_consts word_ao_dist)

lemma prepare_layout:
  assumes "prepare_unsigned_cab_for_authenticode_signature data n = Inr out"
  shows "signed_layout out (length data + 24) n \<and> length out = length data + 24"
proof -
  from assms obtain ctx coff k t where p: "parse_cab_context data = Inr ctx"
    "cab_flags ctx AND FLAG_RESERVE_PRESENT = 0" "n < 2 ^ 32" "length data + 24 < 2 ^ 32"
    and t: "36 \<le> t" and len: "44 \<le> length data"
    and sh: "shift_folders (cab_base data (cab_flags ctx) coff n) (t + 24) [0..<k] = Inr out"
    by (rule prepare_Inr)
  let ?b = "cab_base data (cab_flags ctx) coff n"
  have ctx: "sub data 0 4 = [0x4d, 0x53, 0x43, 0x46]" "u32_from_le (sub data 4 4) = 0"
    "cab_flags ctx AND FLAG_PREV_CABINET = 0"
    using parse_unreserved [OF p(1,2)] by blast+
  have fr: "length out = length data + 24" "\<And>a m. a + m \<le> 60 \<Longrightarrow> sub out a m = sub ?b a m"
    using shift_folders_frame [OF sh] t len by (simp_all add: length_cab_base)
  have "sub out 0 4 @ sub out 4 4 = sub data 0 4 @ sub data 4 4"
    using fr(2) [of 0 8] cab_base_windows(1) [OF len] sub_split [of out 0 4 4] sub_split [of data 0 4 4]
    by simp
  then have h: "sub out 0 4 = sub data 0 4" "sub out 4 4 = sub data 4 4"
    using fr(1) len by (simp_all add: append_eq_append_conv length_sub)
  have "sub out 36 4 @ sub out 40 4 = [0x14, 0, 0, 0] @ [0, 0, 0x10, 0]"
    using fr(2) [of 36 8] cab_base_windows(3) [OF len, of "cab_flags ctx" coff n] sub_split [of out 36 4 4]
    by (simp add: cab_reserve_block_def)
  then have "sub out 36 4 = [0x14, 0, 0, 0] \<and> sub out 40 4 = [0, 0, 0x10, 0]"
    by (rule append_eq_append_conv [THEN iffD1, rotated]) (use fr(1) len in \<open>simp add: length_sub\<close>)
  then have r: "sub out 36 4 = [0x14, 0, 0, 0]" "sub out 40 4 = [0, 0, 0x10, 0]" by simp_all
  show ?thesis
    using fr h r ctx p len cab_base_windows [OF len, of "cab_flags ctx" coff n]
    by (simp add: signed_layout_def reserve_flag u32_from_le_def [of "[_, _, _, _]"]
        SIGNED_HEADER_EXTRA_def AB_RESERVE_EXPECTED_def) (simp add: FLAG_RESERVE_PRESENT_def)
qed

lemma prepare_resize:
  assumes "prepare_unsigned_cab_for_authenticode_signature data n = Inr out" "m < 2 ^ 32"
  shows "prepare_unsigned_cab_for_authenticode_signature data m = Inr (patch out 48 (u32_to_le (word_of_nat m)))"
proof (rule prepare_Inr [OF assms(1)])
  fix ctx :: CabCtx and coff k t
  let ?b = "cab_base data (cab_flags ctx) coff"
  assume t: "36 \<le> t" and len: "44 \<le> length data"
    and sh: "shift_folders (?b n) (t + 24) [0..<k] = Inr out"
    and all: "\<forall>m. m < 2 ^ 32 \<longrightarrow> prepare_unsigned_cab_for_authenticode_signature data m =
       shift_folders (?b m) (t + 24) [0..<k]"
  have "shift_folders (patch (?b n) 48 (u32_to_le (word_of_nat m))) (t + 24) [0..<k] =
      Inr (patch out 48 (u32_to_le (word_of_nat m)))"
    using t len by (intro shift_folders_patch [OF sh]) (simp_all add: length_cab_base)
  then show ?thesis
    using all [rule_format, OF assms(2)] cab_base_resize [OF len, of "cab_flags ctx" coff m n] by simp
qed

section \<open>The digest does not depend on the announced signature length\<close>

text \<open>\<open>same_tbs n xs ys\<close>: the files agree on their first \<open>n\<close> bytes outside \<open>siglen\<close>.\<close>

definition same_tbs :: "nat \<Rightarrow> u8 list \<Rightarrow> u8 list \<Rightarrow> bool" where
  "same_tbs n xs ys \<longleftrightarrow> n \<le> length xs \<and> n \<le> length ys \<and>
     (\<forall>a k. a + k \<le> n \<longrightarrow> a + k \<le> 48 \<or> 52 \<le> a \<longrightarrow> sub xs a k = sub ys a k)"

lemma same_tbs_sub:
  "same_tbs n xs ys \<Longrightarrow> a + k \<le> n \<Longrightarrow> a + k \<le> 48 \<or> 52 \<le> a \<Longrightarrow> sub xs a k = sub ys a k"
  unfolding same_tbs_def by blast

lemma same_tbs_nth:
  assumes "same_tbs n xs ys" "i < n" "52 \<le> i"
  shows "xs ! i = ys ! i"
proof -
  have "sub xs i 1 = sub ys i 1" using assms by (intro same_tbs_sub [OF assms(1)]) simp_all
  moreover have "i < length xs" "i < length ys" using assms by (simp_all add: same_tbs_def)
  ultimately show ?thesis by (simp add: sub_eq_nth)
qed

lemma hash_slices_cong:
  assumes "same_tbs n xs ys" "\<forall>(a, b)\<in>set rs. a \<le> b \<and> b \<le> n \<and> (b \<le> 48 \<or> 52 \<le> a)"
  shows "hash_slices h xs rs = hash_slices h ys rs"
  using assms
proof (induction h xs rs rule: hash_slices.induct)
  case (2 h xs a b rs)
  have "sub xs a (b - a) = sub ys a (b - a)" using 2 by (intro same_tbs_sub [of n]) auto
  moreover have "a \<le> b" "b \<le> length xs" "b \<le> length ys" using 2 by (auto simp: same_tbs_def)
  ultimately show ?case using 2 by simp
qed simp

lemma hash_sz_field_cong:
  assumes "same_tbs n xs ys" "52 \<le> i"
  shows "hash_sz_field h xs i n = hash_sz_field h ys i n"
  using assms
proof (induction h xs i n rule: hash_sz_field.induct)
  case (1 h xs i n)
  have "n \<le> length xs" "n \<le> length ys" using "1.prems" by (simp_all add: same_tbs_def)
  then show ?case
    using 1 same_tbs_nth [of n xs ys i]
    by (subst (1 2) hash_sz_field.simps) (simp add: Let_def)
qed

lemma hash_sz_field_ge: "hash_sz_field h xs i n = Inr (h', j) \<Longrightarrow> i \<le> j"
proof (induction h xs i n rule: hash_sz_field.induct)
  case (1 h xs i n)
  then show ?case
    by (fastforce simp: hash_sz_field.simps [of h xs i n] Let_def split: if_splits)
qed

lemma hash_folders_cong:
  assumes "same_tbs n xs ys" "52 \<le> i"
  shows "hash_folders h xs n i k = hash_folders h ys n i k"
  using assms
proof (induction h xs n i k rule: hash_folders.induct)
  case (2 h xs n i k)
  have "sub xs i 8 = sub ys i 8" if "i + 8 \<le> n"
    using 2 that by (intro same_tbs_sub) auto
  moreover have "n \<le> length xs" "n \<le> length ys" using 2 by (auto simp: same_tbs_def)
  ultimately show ?case
    using 2 by (auto simp: checked_add_usize_def)
qed simp

lemma hash_folders_ge: "hash_folders h xs n i k = Inr (h', j, r) \<Longrightarrow> i \<le> j"
  by (induction h xs n i k rule: hash_folders.induct)
    (fastforce simp: rbind_Inr_iff res_simps checked_add_usize_Some split: if_splits)+

lemma compute_cong:
  assumes same: "same_tbs n xs ys" and n: "60 \<le> n" "n < 2 ^ 32"
    and ctx: "sigpos c = word_of_nat n" "sigpos c' = word_of_nat n"
    and ends: "n \<le> unat (cab_fileend c)" "n \<le> unat (cab_fileend c')"
  shows "compute_cab_authenticode_digest H xs c k = compute_cab_authenticode_digest H ys c' k"
proof -
  have u: "unat (word_of_nat n :: u32) = n" using n by (simp add: unat_of_nat)
  then have nz: "(word_of_nat n :: u32) \<noteq> 0" using n by (metis not_numeral_le_zero unat_0)
  have len: "n \<le> length xs" "n \<le> length ys" using same by (simp_all add: same_tbs_def)
  have rd: "read_u32_le xs 16 = read_u32_le ys 16" "read_u16_le xs 26 = read_u16_le ys 26"
    "read_u16_le xs 30 = read_u16_le ys 30"
    using len n same_tbs_sub [OF same] by (simp_all add: read_u32_le_ok read_u16_le_ok)
  have h: "hash_slices h xs [(0, 4)] = hash_slices h ys [(0, 4)]"
    "hash_slices h xs [(8, 16), (16, 20), (20, 26), (26, 28), (28, 30), (30, 32), (32, 34), (56, 60)] =
     hash_slices h ys [(8, 16), (16, 20), (20, 26), (26, 28), (28, 30), (30, 32), (32, 34), (56, 60)]" for h
    using n by (intro hash_slices_cong [OF same]; simp)+
  have sz: "rbind (hash_sz_field h xs 60 n) (\<lambda>(h, i). hash_sz_field h xs i n) =
      rbind (hash_sz_field h ys 60 n) (\<lambda>(h, i). hash_sz_field h ys i n)" for h
    unfolding hash_sz_field_cong [OF same, of 60 h, simplified]
    by (rule rbind_cong) (auto dest!: hash_sz_field_ge intro!: hash_sz_field_cong [OF same])
  have i60: "60 \<le> i" if "(if b then rbind (hash_sz_field h ys 60 n) (\<lambda>(h, i). hash_sz_field h ys i n)
      else Inr (h, 60)) = Inr (h', i)" for b h h' i
    using that by (fastforce simp: rbind_Inr_iff dest!: hash_sz_field_ge split: if_splits)
  have tail: "hash_slices h xs [(i, n)] = hash_slices h ys [(i, n)]" if "60 \<le> i" for i h
  proof (cases "i \<le> n")
    case True
    then show ?thesis using that by (intro hash_slices_cong [OF same]) simp
  next
    case False
    then show ?thesis by (simp add: slice_idx_def slice_get_def)
  qed
  show ?thesis
    unfolding compute_cab_authenticode_digest_def Let_def ctx u rd h sz
    by (intro rbind_cong refl if_cong)
      (auto simp: nz rd h sz ends [THEN leD] hash_folders_cong [OF same] dest!: i60 hash_folders_ge
        intro!: rbind_cong tail if_cong split: prod.splits)
qed

section \<open>The cabinet as a signature container\<close>

definition cab_admissible :: "u8 list \<Rightarrow> u8 list \<Rightarrow> bool" where
  "cab_admissible data p \<longleftrightarrow> is_ok (prepare_unsigned_cab_for_authenticode_signature data 0) \<and>
     p \<noteq> [] \<and> length data + 24 + length p < 2 ^ 32"

definition cab_digest_to_verify :: "hash_fn \<Rightarrow> PeAuthenticodeHashKind \<Rightarrow> u8 list \<Rightarrow> u8 list res" where
  "cab_digest_to_verify H kind g =
     rbind (parse_cab_context g) (\<lambda>ctx. compute_cab_authenticode_digest H g ctx kind)"

lemma cab_append_admissible:
  assumes "cab_admissible data p"
  obtains out0 where "prepare_unsigned_cab_for_authenticode_signature data 0 = Inr out0"
    "cab_append_authenticode_pkcs7_signature data p =
       Inr (patch out0 48 (u32_to_le (word_of_nat (length p))) @ p)"
    "signed_layout out0 (length data + 24) 0" "length out0 = length data + 24"
    "signed_layout (patch out0 48 (u32_to_le (word_of_nat (length p)))) (length data + 24) (length p)"
proof -
  from assms obtain out0 where o: "prepare_unsigned_cab_for_authenticode_signature data 0 = Inr out0"
    by (auto simp: cab_admissible_def is_ok_iff)
  have "length p < 2 ^ 32" using assms by (simp add: cab_admissible_def)
  note r = prepare_resize [OF o this]
  show ?thesis
    using that [OF o] r prepare_layout [OF o] prepare_layout [OF r]
    by (simp add: cab_append_authenticode_pkcs7_signature_def)
qed

lemma cab_parse_appended:
  assumes "signed_layout out n (length p)" "length out = n" "p \<noteq> []" "n + length p < 2 ^ 32"
  shows "parse_cab_context (out @ p) = Inr \<lparr>header_size = SIGNED_HEADER_EXTRA, sigpos = word_of_nat n,
    siglen = word_of_nat (length p), cab_fileend = word_of_nat (n + length p),
    cab_flags = u16_from_le (sub (out @ p) 30 2)\<rparr>"
proof (rule parse_signed)
  show "signed_layout (out @ p) n (length p)"
    using assms(1,2) by (simp add: signed_layout_def sub_append_left)
qed (use assms in simp_all)

lemma cab_digest_embed:
  assumes "cab_admissible data p" "cab_append_authenticode_pkcs7_signature data p = Inr out"
  shows "cab_digest_to_verify H k out = cab_authenticode_digest_for_signing H data k"
proof -
  let ?n = "length data + 24"
  from assms(1) obtain out0 where o: "prepare_unsigned_cab_for_authenticode_signature data 0 = Inr out0"
    and app: "cab_append_authenticode_pkcs7_signature data p =
       Inr (patch out0 48 (u32_to_le (word_of_nat (length p))) @ p)"
    and l0: "signed_layout out0 ?n 0" "length out0 = ?n"
    and l1: "signed_layout (patch out0 48 (u32_to_le (word_of_nat (length p)))) ?n (length p)"
    by (rule cab_append_admissible)
  have a: "p \<noteq> []" "?n + length p < 2 ^ 32" using assms(1) by (simp_all add: cab_admissible_def)
  have n: "68 \<le> ?n" using l0 by (simp add: signed_layout_def)
  let ?o1 = "patch out0 48 (u32_to_le (word_of_nat (length p)))"
  have lo1: "length ?o1 = ?n" using l0(2) n by (simp add: length_patch)
  have out: "out = ?o1 @ p" using assms(2) app by simp
  have same: "same_tbs ?n out out0"
    unfolding same_tbs_def out using lo1 l0(2) n
    by (auto simp: sub_append_left sub_patch_before sub_patch_after)
  have p: "parse_cab_context out = Inr \<lparr>header_size = SIGNED_HEADER_EXTRA, sigpos = word_of_nat ?n,
    siglen = word_of_nat (length p), cab_fileend = word_of_nat (?n + length p),
    cab_flags = u16_from_le (sub out 30 2)\<rparr>"
    unfolding out by (rule cab_parse_appended [OF l1 lo1 a])
  have u: "unat (word_of_nat (?n + length p) :: u32) = ?n + length p" "unat (word_of_nat ?n :: u32) = ?n"
    using a by (simp_all add: unat_of_nat del: of_nat_add)
  have "cab_authenticode_digest_for_signing H data k = compute_cab_authenticode_digest H out0
         \<lparr>header_size = SIGNED_HEADER_EXTRA, sigpos = word_of_nat ?n, siglen = 0,
          cab_fileend = word_of_nat ?n, cab_flags = u16_from_le (sub out0 30 2)\<rparr> k"
    using o l0(2) a n by (simp add: cab_authenticode_digest_for_signing_def u32_try_from_def
        read_u16_le_ok del: of_nat_add)
  also have "\<dots> = cab_digest_to_verify H k out"
    unfolding cab_digest_to_verify_def p rbind.simps
    by (rule compute_cong [OF same, symmetric]) (use u n a in \<open>simp_all del: of_nat_add\<close>)
  finally show ?thesis by simp
qed

interpretation cab_sip: sig_container cab_admissible cab_append_authenticode_pkcs7_signature
  cab_signature_pkcs7_der "\<lambda>f. cab_authenticode_digest_for_signing H f k" "cab_digest_to_verify H k"
  for H k
proof
  fix data p
  assume adm: "cab_admissible data p"
  then obtain out0 where app: "cab_append_authenticode_pkcs7_signature data p =
       Inr (patch out0 48 (u32_to_le (word_of_nat (length p))) @ p)"
    and l: "length out0 = length data + 24"
    and l1: "signed_layout (patch out0 48 (u32_to_le (word_of_nat (length p)))) (length data + 24) (length p)"
    by (rule cab_append_admissible)
  have "length (patch out0 48 (u32_to_le (word_of_nat (length p)))) = length data + 24"
    using l l1 by (simp add: signed_layout_def length_patch)
  then show "\<exists>g. cab_append_authenticode_pkcs7_signature data p = Inr g"
    and "cab_append_authenticode_pkcs7_signature data p = Inr g \<Longrightarrow> cab_signature_pkcs7_der g = Inr p" for g
    using app extract_signed [OF l1] adm by (auto simp: cab_admissible_def)
qed (rule cab_digest_embed)

section \<open>Properties\<close>

lemma parse_no_panic: "parse_cab_context data \<noteq> Inl Panic"
  by (auto simp: parse_cab_context_def rbind_Inl_iff read_u32_le_def read_u16_le_def)

lemma layout_flags:
  assumes "cab_append_authenticode_pkcs7_signature data p = Inr out"
  shows "u16_from_le (sub out 30 2) AND FLAG_RESERVE_PRESENT \<noteq> 0 \<and> 68 \<le> length out"
proof -
  from assms obtain o1 where o: "prepare_unsigned_cab_for_authenticode_signature data (length p) = Inr o1"
    "out = o1 @ p"
    by (auto simp: cab_append_authenticode_pkcs7_signature_def rbind_Inr_iff)
  then show ?thesis
    using prepare_layout [OF o(1)] by (auto simp: signed_layout_def sub_append_left)
qed

text \<open>A smallest unsigned cabinet: no folder, \<^verbatim>\<open>coffFiles\<close> right behind the header.\<close>

definition sample_cab :: "u8 list" where
  "sample_cab = [0x4d, 0x53, 0x43, 0x46, 0, 0, 0, 0, 44, 0, 0, 0, 0, 0, 0, 0, 36, 0, 0, 0] @ replicate 24 0"

lemma sample_cab_explicit:
  "sample_cab = [0x4d, 0x53, 0x43, 0x46, 0, 0, 0, 0, 44, 0, 0, 0, 0, 0, 0, 0, 36, 0, 0, 0,
     0, 0, 0, 0, 0, 0, 0, 0, 0, 0, 0, 0, 0, 0, 0, 0, 0, 0, 0, 0, 0, 0, 0, 0]"
  by (simp add: sample_cab_def numeral_eq_Suc)

lemma sample_cab_parsed:
  "parse_cab_context sample_cab = Inr \<lparr>header_size = 0, sigpos = 0, siglen = 0, cab_fileend = 44, cab_flags = 0\<rparr>"
  by (simp add: sample_cab_explicit parse_cab_context_def read_u32_le_def read_u16_le_def
      slice_get_def sub_def u32_from_le_def u16_from_le_def u32_try_from_def)

lemma sample_cab_admissible: "cab_admissible sample_cab [0x30]"
proof -
  have "cffolder_table_offset sample_cab 0 = Inr 36"
    by (simp add: cffolder_table_offset_def)
  moreover have "read_u32_le sample_cab 8 = Inr 44" "read_u32_le sample_cab 16 = Inr 36"
    "read_u16_le sample_cab 26 = Inr 0" "length sample_cab = 44"
    by (simp_all add: sample_cab_explicit read_u32_le_def read_u16_le_def
      slice_get_def sub_def u32_from_le_def u16_from_le_def)
  ultimately show ?thesis
    by (simp add: cab_admissible_def prepare_unsigned_cab_for_authenticode_signature_def
        sample_cab_parsed u32_try_from_def checked_u32_add_def checked_add_u32_def
        checked_add_usize_def Let_def length_patch length_sub)
qed

text \<open>The digest is a value of the hash function of the requested kind.\<close>

lemma hash_slices_kind: "hash_slices h data rs = Inr h' \<Longrightarrow> fst h' = fst h"
  by (induction h data rs rule: hash_slices.induct) (auto simp: rbind_Inr_iff)

lemma hash_sz_field_kind: "hash_sz_field h data i n = Inr (h', j) \<Longrightarrow> fst h' = fst h"
proof (induction h data i n rule: hash_sz_field.induct)
  case (1 h data i n)
  then show ?case
    by (cases h) (fastforce simp: hash_sz_field.simps [of _ data i n] Let_def split: if_splits)
qed

lemma hash_folders_kind: "hash_folders h data n i k = Inr (h', j, r) \<Longrightarrow> fst h' = fst h"
proof (induction h data n i k rule: hash_folders.induct)
  case (2 h data n i k)
  then show ?case
    by (cases h) (fastforce simp: rbind_Inr_iff split: if_splits)
qed simp

lemma compute_is_hash:
  assumes "compute_cab_authenticode_digest H data ctx k = Inr d"
  shows "\<exists>m. d = H k m"
proof -
  have fin: "\<exists>m. hasher_finalize H h = H (fst h) m" for h by (cases h) auto
  have "\<exists>h. fst h = k \<and> d = hasher_finalize H h"
    using assms
    by (force simp: compute_cab_authenticode_digest_def Let_def rbind_Inr_iff hasher_new_def
        simp del: hash_slices.simps dest!: hash_slices_kind hash_sz_field_kind hash_folders_kind
        split: if_splits)
  then show ?thesis using fin by metis
qed

lemma verify_appended:
  assumes "cab_admissible data p" and "cab_append_authenticode_pkcs7_signature data p = Inr out"
    and d: "cab_authenticode_digest_for_signing H data k = Inr d"
    and "sig_digest p = Some d'" and "length d' = digest_output_len k"
  shows "verify_cab_digest_consistency H sig_digest out =
    (if d = d' then Inr () else bail ''CAB Authenticode digest mismatch'')"
proof -
  have e: "cab_signature_pkcs7_der out = Inr p" using assms by (intro cab_sip.extract_embed)
  then obtain ctx where p: "parse_cab_context out = Inr ctx"
    and c: "\<not> (header_size ctx \<noteq> SIGNED_HEADER_EXTRA \<or> sigpos ctx = 0 \<or> siglen ctx = 0)"
    by (auto simp: cab_signature_pkcs7_der_def rbind_Inr_iff if_bail_Inr)
  have "from_digest_byte_len (length d') = Inr k" using assms by (simp add: from_digest_byte_len_iff)
  moreover have "compute_cab_authenticode_digest H out ctx k = Inr d"
    using cab_sip.digest_embed [OF assms(1,2), of H k] d p by (simp add: cab_digest_to_verify_def)
  ultimately show ?thesis
    using e p c assms(4) by (simp add: verify_cab_digest_consistency_def)
qed

text \<open>C3: signing a cabinet round-trips. For every unsigned single-volume cabinet the code accepts
  and every non-empty blob that fits, appending the blob succeeds, extraction returns the blob, and
  digest verification accepts it when the blob carries the digest that was computed for signing:
  the verifier recomputes it from the signed bytes.\<close>

theorem cab_sign_then_verify:
  assumes "cab_admissible data p"
    and "hash_lengths H"
    and "cab_authenticode_digest_for_signing H data k = Inr d"
    and "sig_digest p = Some d"
  shows "\<exists>out. cab_append_authenticode_pkcs7_signature data p = Inr out \<and>
    cab_signature_pkcs7_der out = Inr p \<and> verify_cab_digest_consistency H sig_digest out = Inr ()"
proof -
  obtain out where out: "cab_append_authenticode_pkcs7_signature data p = Inr out"
    using cab_sip.embed_total [OF assms(1)] by blast
  have "\<exists>m. d = H k m"
    using assms(3) compute_is_hash by (auto simp: cab_authenticode_digest_for_signing_def rbind_Inr_iff)
  then have "length d = digest_output_len k" using assms(2) by (auto simp: hash_lengths_def)
  then show ?thesis
    using verify_appended [where sig_digest = sig_digest, OF assms(1) out assms(3,4)] out cab_sip.extract_embed [OF assms(1) out] by simp
qed

theorem cab_sign_then_verify_witness:
  "\<exists>out. cab_append_authenticode_pkcs7_signature sample_cab [0x30] = Inr out \<and>
    cab_signature_pkcs7_der out = Inr [0x30] \<and>
    verify_cab_digest_consistency (\<lambda>k m. replicate (digest_output_len k) 7)
      (\<lambda>p. if p = [0x30] then Some (replicate 32 7) else None) out = Inr ()"
proof (rule cab_sign_then_verify [OF sample_cab_admissible, of _ Sha256 "replicate 32 7"])
  show "hash_lengths (\<lambda>k m. replicate (digest_output_len k) 7)" by (simp add: hash_lengths_def)
  show "cab_authenticode_digest_for_signing (\<lambda>k m. replicate (digest_output_len k) 7) sample_cab Sha256 =
      Inr (replicate 32 7)"
    by code_simp
qed simp

text \<open>a cabinet that carries a blob made for another digest is rejected with the mismatch
  error, and with no other outcome.\<close>

theorem cab_verify_rejects_other_digest:
  assumes "cab_admissible data p"
    and "cab_authenticode_digest_for_signing H data k = Inr d"
    and "sig_digest p = Some d'" and "length d' = digest_output_len k" and "d' \<noteq> d"
  shows "\<exists>out. cab_append_authenticode_pkcs7_signature data p = Inr out \<and>
    verify_cab_digest_consistency H sig_digest out = bail ''CAB Authenticode digest mismatch''"
proof -
  obtain out where out: "cab_append_authenticode_pkcs7_signature data p = Inr out"
    using cab_sip.embed_total [OF assms(1)] by blast
  with verify_appended [where sig_digest = sig_digest, OF assms(1) out assms(2-4)] assms(5) show ?thesis by auto
qed

lemma sample_cab_digest:
  "cab_authenticode_digest_for_signing (\<lambda>k m. replicate (digest_output_len k) 7) sample_cab Sha256 =
     Inr (replicate 32 7)"
  by code_simp

theorem cab_verify_rejects_other_digest_witness:
  "\<exists>out. cab_append_authenticode_pkcs7_signature sample_cab [0x30] = Inr out \<and>
    verify_cab_digest_consistency (\<lambda>k m. replicate (digest_output_len k) 7)
      (\<lambda>p. Some (replicate 32 8)) out = bail ''CAB Authenticode digest mismatch''"
proof (rule cab_verify_rejects_other_digest [OF sample_cab_admissible sample_cab_digest, where d' = "replicate 32 8"])
  show "length (replicate 32 8 :: u8 list) = digest_output_len Sha256" by simp
  show "replicate 32 8 \<noteq> (replicate 32 7 :: u8 list)" by simp
qed simp

text \<open>Signing twice is refused: whatever is appended to a cabinet that append already
  returned, the answer is an error (never a panic and never a second blob).\<close>

theorem cab_no_second_signature:
  assumes "cab_append_authenticode_pkcs7_signature data p = Inr out"
  shows "\<exists>m. cab_append_authenticode_pkcs7_signature out q = bail m"
proof (cases "parse_cab_context out")
  case (Inl e)
  then show ?thesis
    using parse_no_panic [of out]
    by (cases e) (auto simp: cab_append_authenticode_pkcs7_signature_def
        prepare_unsigned_cab_for_authenticode_signature_def)
next
  case (Inr ctx)
  have "cab_flags ctx AND FLAG_RESERVE_PRESENT \<noteq> 0"
  proof
    assume z: "cab_flags ctx AND FLAG_RESERVE_PRESENT = 0"
    then show False using layout_flags [OF assms] parse_unreserved [OF Inr z] by auto
  qed
  then show ?thesis
    using Inr by (simp add: cab_append_authenticode_pkcs7_signature_def
        prepare_unsigned_cab_for_authenticode_signature_def)
qed

theorem cab_no_second_signature_witness:
  "\<exists>out m. cab_append_authenticode_pkcs7_signature sample_cab [0x30] = Inr out \<and>
    cab_append_authenticode_pkcs7_signature out [0x31] = bail m"
proof -
  obtain out where "cab_append_authenticode_pkcs7_signature sample_cab [0x30] = Inr out"
    using cab_sip.embed_total [OF sample_cab_admissible] by blast
  with cab_no_second_signature [OF this, of "[0x31]"] show ?thesis by blast
qed

text \<open>
  The digest routine trusts the context: a file of 54 bytes whose reserve header claims a
  two-byte signature at offset 52 passes \<open>parse_cab_context\<close>, and the fixed header slices then
  index behind its end.
\<close>

definition short_signed_cab :: "u8 list" where
  "short_signed_cab = [0x4d, 0x53, 0x43, 0x46, 0, 0, 0, 0, 0, 0, 0, 0, 0, 0, 0, 0, 0, 0, 0, 0,
     0, 0, 0, 0, 0, 0, 0, 0, 0, 0, 4, 0, 0, 0, 0, 0, 20, 0, 0, 0, 0, 0, 0x10, 0,
     52, 0, 0, 0, 2, 0, 0, 0, 0x30, 0]"

lemma cab_digest_panics:
  "cab_digest_to_verify H k short_signed_cab = Inl Panic"
proof -
  have "parse_cab_context short_signed_cab = Inr \<lparr>header_size = 20, sigpos = 52, siglen = 2,
      cab_fileend = 54, cab_flags = 4\<rparr>"
    by code_simp
  moreover have "hash_slices h short_signed_cab
      [(8, 16), (16, 20), (20, 26), (26, 28), (28, 30), (30, 32), (32, 34), (56, 60)] = Inl Panic" for h
    by (simp add: short_signed_cab_def slice_idx_def slice_get_def)
  ultimately show ?thesis
    by (simp add: cab_digest_to_verify_def compute_cab_authenticode_digest_def read_u32_le_ok
        read_u16_le_ok Let_def short_signed_cab_def [THEN arg_cong [of _ _ length]]
        del: hash_slices.simps) (simp add: short_signed_cab_def slice_idx_def slice_get_def)
qed

end
