(* ===== verification/Text.thy ===== *)
theory Text
  imports Prelude
begin

text \<open>
  Text as the Rust standard library sees it, for the parsers of the repository: a \<^verbatim>\<open>str\<close> is its
  list of Unicode scalar values, \<open>utf8\<close> and \<open>from_utf8\<close> are \<^verbatim>\<open>as_bytes\<close> and \<^verbatim>\<open>str::from_utf8\<close>, and
  the methods the code calls (\<^verbatim>\<open>trim\<close>, \<^verbatim>\<open>lines\<close>, \<^verbatim>\<open>split_once\<close>, \<^verbatim>\<open>strip_prefix\<close>, ASCII case) carry
  their names.
\<close>

type_synonym str = "nat list"

definition lit :: "string \<Rightarrow> str" where "lit s = map of_char s"

lemma lit_simps [simp]: "lit [] = []" "lit (c # s) = of_char c # lit s" "lit (s @ t) = lit s @ lit t"
  "length (lit s) = length s"
  by (simp_all add: lit_def)

section \<open>Characters\<close>

text \<open>The Unicode property White\_Space.\<close>

definition is_whitespace :: "nat \<Rightarrow> bool" where
  "is_whitespace c \<longleftrightarrow> 9 \<le> c \<and> c \<le> 13 \<or> c = 32 \<or> c = 0x85 \<or> c = 0xA0 \<or> c = 0x1680 \<or>
     0x2000 \<le> c \<and> c \<le> 0x200A \<or> c = 0x2028 \<or> c = 0x2029 \<or> c = 0x202F \<or> c = 0x205F \<or> c = 0x3000"

definition is_ascii_digit :: "nat \<Rightarrow> bool" where
  "is_ascii_digit c \<longleftrightarrow> 48 \<le> c \<and> c \<le> 57"

definition is_ascii_hexdigit :: "nat \<Rightarrow> bool" where
  "is_ascii_hexdigit c \<longleftrightarrow> is_ascii_digit c \<or> 65 \<le> c \<and> c \<le> 70 \<or> 97 \<le> c \<and> c \<le> 102"

definition char_lower :: "nat \<Rightarrow> nat" where
  "char_lower c = (if 65 \<le> c \<and> c \<le> 90 then c + 32 else c)"

definition to_ascii_lowercase :: "str \<Rightarrow> str" where
  "to_ascii_lowercase = map char_lower"

definition eq_ignore_ascii_case :: "str \<Rightarrow> str \<Rightarrow> bool" where
  "eq_ignore_ascii_case a b \<longleftrightarrow> to_ascii_lowercase a = to_ascii_lowercase b"

lemma char_lower_idem [simp]: "char_lower (char_lower c) = char_lower c"
  by (simp add: char_lower_def)

lemma lower_idem [simp]: "to_ascii_lowercase (to_ascii_lowercase s) = to_ascii_lowercase s"
  by (simp add: to_ascii_lowercase_def)

lemma length_lower [simp]: "length (to_ascii_lowercase s) = length s"
  by (simp add: to_ascii_lowercase_def)

lemma lower_append [simp]: "to_ascii_lowercase (s @ t) = to_ascii_lowercase s @ to_ascii_lowercase t"
  by (simp add: to_ascii_lowercase_def)

lemma char_lower_hexdigit [simp]: "is_ascii_hexdigit (char_lower c) = is_ascii_hexdigit c"
  by (auto simp: is_ascii_hexdigit_def is_ascii_digit_def char_lower_def)

section \<open>Trimming, prefixes, splits\<close>

definition trim_start :: "str \<Rightarrow> str" where "trim_start = dropWhile is_whitespace"
definition trim_end :: "str \<Rightarrow> str" where "trim_end s = rev (dropWhile is_whitespace (rev s))"
definition trim :: "str \<Rightarrow> str" where "trim s = trim_end (trim_start s)"

fun strip_prefix :: "str \<Rightarrow> str \<Rightarrow> str option" where
  "strip_prefix [] s = Some s"
| "strip_prefix (p # ps) [] = None"
| "strip_prefix (p # ps) (c # s) = (if p = c then strip_prefix ps s else None)"

definition starts_with :: "str \<Rightarrow> str \<Rightarrow> bool" where
  "starts_with p s \<longleftrightarrow> strip_prefix p s \<noteq> None"

definition strip_suffix :: "str \<Rightarrow> str \<Rightarrow> str option" where
  "strip_suffix p s = map_option rev (strip_prefix (rev p) (rev s))"

definition ends_with :: "str \<Rightarrow> str \<Rightarrow> bool" where
  "ends_with p s \<longleftrightarrow> strip_suffix p s \<noteq> None"

fun split_once :: "nat \<Rightarrow> str \<Rightarrow> (str \<times> str) option" where
  "split_once c [] = None"
| "split_once c (x # s) =
     (if x = c then Some ([], s) else map_option (\<lambda>(a, b). (x # a, b)) (split_once c s))"

text \<open>\<open>split_on c s\<close> is \<^verbatim>\<open>s.split(c)\<close>: at least one part.\<close>

fun split_on :: "nat \<Rightarrow> str \<Rightarrow> str list" where
  "split_on c [] = [[]]"
| "split_on c (x # s) =
     (if x = c then [] # split_on c s
      else case split_on c s of [] \<Rightarrow> [[x]] | p # ps \<Rightarrow> (x # p) # ps)"

text \<open>
  \<^verbatim>\<open>lines\<close>: pieces that end with a newline, which is dropped with a carriage return in front of
  it; an unterminated last piece is kept as it is.
\<close>

definition strip_cr :: "str \<Rightarrow> str" where
  "strip_cr l = (if l \<noteq> [] \<and> List.last l = 13 then butlast l else l)"

function lines :: "str \<Rightarrow> str list" where
  "lines s = (if s = [] then []
     else case split_once 10 s of None \<Rightarrow> [s] | Some (l, r) \<Rightarrow> strip_cr l # lines r)"
  by pat_completeness auto

lemma split_once_Some: "split_once c s = Some (a, b) \<longleftrightarrow> s = a @ c # b \<and> c \<notin> set a"
proof (induction s arbitrary: a)
  case (Cons x s)
  then show ?case by (cases a; cases "x = c") auto
qed simp

lemma split_once_None: "split_once c s = None \<longleftrightarrow> c \<notin> set s"
  by (induction s) auto

termination lines
  by (relation "measure length") (auto simp: split_once_Some)

declare lines.simps [simp del]

lemma strip_prefix_Some: "strip_prefix p s = Some r \<longleftrightarrow> s = p @ r"
  by (induction p s rule: strip_prefix.induct) auto

lemma strip_prefix_append [simp]: "strip_prefix p (p @ r) = Some r"
  by (simp add: strip_prefix_Some)

lemma starts_with_iff: "starts_with p s \<longleftrightarrow> (\<exists>r. s = p @ r)"
  by (auto simp: starts_with_def strip_prefix_Some)

lemma strip_suffix_Some: "strip_suffix p s = Some r \<longleftrightarrow> s = r @ p"
  by (auto simp: strip_suffix_def strip_prefix_Some rev_swap)

lemma ends_with_iff: "ends_with p s \<longleftrightarrow> (\<exists>r. s = r @ p)"
  by (auto simp: ends_with_def strip_suffix_Some)

lemma split_once_at: "c \<notin> set a \<Longrightarrow> split_once c (a @ c # b) = Some (a, b)"
  by (simp add: split_once_Some)

lemma split_on_not_Nil [simp]: "split_on c s \<noteq> []"
  by (induction s) (auto split: list.splits)

lemma split_on_free: "c \<notin> set s \<Longrightarrow> split_on c s = [s]"
  by (induction s) auto

lemma split_on_append: "c \<notin> set a \<Longrightarrow> split_on c (a @ c # b) = a # split_on c b"
  by (induction a) auto

lemma split_on_parts: "p \<in> set (split_on c s) \<Longrightarrow> c \<notin> set p"
  by (induction s arbitrary: p) (auto split: list.splits if_splits)

text \<open>\<open>trimmed s\<close>: no white space at either end, so trimming is the identity.\<close>

definition trimmed :: "str \<Rightarrow> bool" where
  "trimmed s \<longleftrightarrow> s = [] \<or> \<not> is_whitespace (hd s) \<and> \<not> is_whitespace (List.last s)"

lemma dropWhile_hd: "s = [] \<or> \<not> P (hd s) \<Longrightarrow> dropWhile P s = s"
  by (cases s) auto

lemma trim_id: "trimmed s \<Longrightarrow> trim s = s"
  by (auto simp: trimmed_def trim_def trim_start_def trim_end_def dropWhile_hd hd_rev)

lemma trimmed_trim: "trimmed (trim s)"
proof -
  have e: "trim_end t = [] \<or> \<not> is_whitespace (List.last (trim_end t))" for t
    using hd_dropWhile [of is_whitespace "rev t"] by (auto simp: trim_end_def last_rev)
  have h: "trim_end t = [] \<or> hd (trim_end t) = hd t" for t
  proof -
    have "\<exists>u. t = trim_end t @ u"
      using takeWhile_dropWhile_id [of is_whitespace "rev t"]
      by (intro exI [of _ "rev (takeWhile is_whitespace (rev t))"])
        (metis trim_end_def rev_append rev_rev_ident)
    then show ?thesis by (metis hd_append2)
  qed
  have s: "trim_start s = [] \<or> \<not> is_whitespace (hd (trim_start s))"
    using hd_dropWhile [of is_whitespace s] by (auto simp: trim_start_def)
  show ?thesis
    using e [of "trim_start s"] h [of "trim_start s"] s
    by (cases "trim_start s = []") (auto simp: trimmed_def trim_def trim_end_def)
qed

lemma trim_idem [simp]: "trim (trim s) = trim s"
  by (rule trim_id [OF trimmed_trim])

lemma trimmed_free: "\<forall>c\<in>set s. \<not> is_whitespace c \<Longrightarrow> trimmed s"
  by (cases "s = []") (auto simp: trimmed_def)

lemma trimmed_join: "trimmed a \<Longrightarrow> trimmed b \<Longrightarrow> a \<noteq> [] \<Longrightarrow> b \<noteq> [] \<Longrightarrow> trimmed (a @ m @ b)"
  by (auto simp: trimmed_def)

section \<open>Lines without blanks\<close>

text \<open>\<open>graphic s\<close>: ASCII without white space or control characters, as the line formats write it.\<close>

definition graphic :: "str \<Rightarrow> bool" where
  "graphic s \<longleftrightarrow> (\<forall>c\<in>set s. 32 < c \<and> c < 127)"

lemma graphic_simps [simp]: "graphic []" "graphic (c # s) \<longleftrightarrow> 32 < c \<and> c < 127 \<and> graphic s"
  "graphic (s @ t) \<longleftrightarrow> graphic s \<and> graphic t"
  by (auto simp: graphic_def)

lemma graphic_whitespace: "32 < c \<Longrightarrow> c < 127 \<Longrightarrow> \<not> is_whitespace c"
  by (simp add: is_whitespace_def)

lemma graphic_trimmed: "graphic s \<Longrightarrow> trimmed s"
  by (rule trimmed_free) (auto simp: graphic_def graphic_whitespace)

lemma graphic_trim: "graphic s \<Longrightarrow> trim s = s"
  by (simp add: graphic_trimmed trim_id)

lemma graphic_free: "graphic s \<Longrightarrow> c \<le> 32 \<Longrightarrow> c \<notin> set s"
  by (auto simp: graphic_def)

lemma lines_single: "s \<noteq> [] \<Longrightarrow> 10 \<notin> set s \<Longrightarrow> lines s = [s]"
  by (simp add: lines.simps split_once_None [THEN iffD2])

lemma lines_Nil [simp]: "lines [] = []"
  by (simp add: lines.simps)

lemma lines_crlf: "10 \<notin> set l \<Longrightarrow> lines (l @ 13 # 10 # r) = l # lines r"
  using split_once_at [of 10 "l @ [13]" r] by (simp add: lines.simps [of "l @ _"] strip_cr_def)

section \<open>Chunks\<close>

text \<open>\<^verbatim>\<open>chunks(n)\<close>, and the line ending of every format the programs write.\<close>

function chunks :: "nat \<Rightarrow> 'a list \<Rightarrow> 'a list list" where
  "chunks n xs = (if xs = [] \<or> n = 0 then [] else take n xs # chunks n (drop n xs))"
  by pat_completeness auto
termination by (relation "measure (\<lambda>(n, xs). length xs)") auto

declare chunks.simps [simp del]

definition crlf :: str where "crlf = [13, 10]"

lemma concat_chunks: "0 < n \<Longrightarrow> concat (chunks n xs) = xs"
  by (induction n xs rule: chunks.induct) (simp add: chunks.simps)

lemma chunks_parts: "c \<in> set (chunks n xs) \<Longrightarrow> c \<noteq> [] \<and> set c \<subseteq> set xs"
proof (induction n xs rule: chunks.induct)
  case (1 n xs)
  then show ?case
    using set_take_subset [of n xs] set_drop_subset [of n xs]
    by (auto simp: chunks.simps [of n xs] split: if_splits)
qed

lemma chunks_mod:
  "c \<in> set (chunks n xs) \<Longrightarrow> m dvd n \<Longrightarrow> m dvd length xs \<Longrightarrow> m dvd length c"
proof (induction n xs rule: chunks.induct)
  case (1 n xs)
  then have "c = take n xs \<or> c \<in> set (chunks n (drop n xs))" "\<not> (xs = [] \<or> n = 0)"
    by (auto simp: chunks.simps [of n xs] split: if_splits)
  moreover have "m dvd length (drop n xs)" using "1.prems" by (cases "n \<le> length xs") (auto intro: dvd_diff_nat)
  moreover have "m dvd length (take n xs)" using "1.prems" by (auto simp: min_def)
  ultimately show ?case using "1.IH" "1.prems" by blast
qed

section \<open>Decimal numbers\<close>

text \<open>\<^verbatim>\<open>to_string\<close> of an unsigned integer, and \<^verbatim>\<open>parse::<u16>\<close> (a leading plus sign is allowed).\<close>

function decimal :: "nat \<Rightarrow> str" where
  "decimal n = (if n < 10 then [48 + n] else decimal (n div 10) @ [48 + n mod 10])"
  by pat_completeness auto
termination by (relation "measure id") auto

declare decimal.simps [simp del]

definition parse_decimal :: "nat \<Rightarrow> str \<Rightarrow> nat option" where
  "parse_decimal limit s =
     (let ds = (case strip_prefix [43] s of Some r \<Rightarrow> r | None \<Rightarrow> s);
          n = foldl (\<lambda>n d. 10 * n + (d - 48)) 0 ds
      in if ds \<noteq> [] \<and> (\<forall>d\<in>set ds. is_ascii_digit d) \<and> n < limit then Some n else None)"

lemma decimal_digits: "decimal n \<noteq> [] \<and> (\<forall>d\<in>set (decimal n). is_ascii_digit d)"
  by (induction n rule: decimal.induct) (subst (1 2) decimal.simps, auto simp: is_ascii_digit_def)

lemma decimal_value: "foldl (\<lambda>n d. 10 * n + (d - 48)) 0 (decimal n) = n"
proof (induction n rule: decimal.induct)
  case (1 n)
  show ?case
  proof (cases "n < 10")
    case True
    then show ?thesis by (simp add: decimal.simps)
  next
    case False
    with 1 have "foldl (\<lambda>n d. 10 * n + (d - 48)) 0 (decimal (n div 10)) = n div 10" by simp
    with False show ?thesis by (subst decimal.simps) simp
  qed
qed

lemma parse_decimal_decimal: "n < limit \<Longrightarrow> parse_decimal limit (decimal n) = Some n"
proof -
  assume n: "n < limit"
  have "strip_prefix [43] (decimal n) = None"
    using decimal_digits [of n] by (cases "decimal n") (auto simp: is_ascii_digit_def)
  with n show ?thesis using decimal_digits [of n] decimal_value [of n] by (simp add: parse_decimal_def Let_def)
qed

section \<open>Paths\<close>

text \<open>
  \<^verbatim>\<open>Path::file_name\<close> and \<^verbatim>\<open>Path::extension\<close> on a Unix target: the last component that is not the
  current directory, and what follows its last dot unless that is its first character.
\<close>

definition file_name :: "str \<Rightarrow> str option" where
  "file_name path =
     (let parts = filter (\<lambda>p. p \<noteq> [] \<and> p \<noteq> lit ''.'') (split_on 47 path) in
      if parts = [] \<or> List.last parts = lit ''..'' then None else Some (List.last parts))"

definition extension :: "str \<Rightarrow> str option" where
  "extension path =
     obind (file_name path) (\<lambda>name.
     obind (split_once 46 (rev name)) (\<lambda>(ext, stem). if stem = [] then None else Some (rev ext)))"

end
