(* ===== verification/Utf.thy ===== *)
theory Utf
  imports Text
begin

text \<open>
  The two encodings of the Rust standard library the programs read and write: UTF-8
  (\<^verbatim>\<open>as_bytes\<close>, \<^verbatim>\<open>str::from_utf8\<close>) and UTF-16 (\<^verbatim>\<open>encode_utf16\<close>, \<^verbatim>\<open>String::from_utf16\<close>), with their
  rejection of overlong, surrogate and out-of-range sequences. Both are codecs: what is encoded
  decodes to itself and only encodings are accepted.
\<close>

definition is_scalar :: "nat \<Rightarrow> bool" where
  "is_scalar c \<longleftrightarrow> c < 0xD800 \<or> 0xE000 \<le> c \<and> c < 0x110000"

definition wf_str :: "str \<Rightarrow> bool" where
  "wf_str s \<longleftrightarrow> (\<forall>c\<in>set s. is_scalar c)"

section \<open>UTF-8\<close>

definition utf8_char :: "nat \<Rightarrow> u8 list" where
  "utf8_char c = map word_of_nat
     (if c < 0x80 then [c]
      else if c < 0x800 then [0xC0 + c div 64, 0x80 + c mod 64]
      else if c < 0x10000 then [0xE0 + c div 4096, 0x80 + c div 64 mod 64, 0x80 + c mod 64]
      else [0xF0 + c div 262144, 0x80 + c div 4096 mod 64, 0x80 + c div 64 mod 64, 0x80 + c mod 64])"

definition utf8 :: "str \<Rightarrow> u8 list" where
  "utf8 s = concat (map utf8_char s)"

definition utf8_tail :: "u8 \<Rightarrow> bool" where
  "utf8_tail b \<longleftrightarrow> 0x80 \<le> unat b \<and> unat b < 0xC0"

fun utf8_step :: "u8 list \<Rightarrow> (nat \<times> u8 list) option" where
  "utf8_step [] = None"
| "utf8_step (b # bs) =
     (let n = unat b in
      if n < 0x80 then Some (n, bs)
      else if 0xC0 \<le> n \<and> n < 0xE0 then
        (case bs of b1 # r \<Rightarrow>
           let c = (n - 0xC0) * 64 + (unat b1 - 0x80) in
           if utf8_tail b1 \<and> 0x80 \<le> c then Some (c, r) else None
         | _ \<Rightarrow> None)
      else if 0xE0 \<le> n \<and> n < 0xF0 then
        (case bs of b1 # b2 # r \<Rightarrow>
           let c = (n - 0xE0) * 4096 + (unat b1 - 0x80) * 64 + (unat b2 - 0x80) in
           if utf8_tail b1 \<and> utf8_tail b2 \<and> 0x800 \<le> c \<and> is_scalar c then Some (c, r) else None
         | _ \<Rightarrow> None)
      else if 0xF0 \<le> n \<and> n < 0xF8 then
        (case bs of b1 # b2 # b3 # r \<Rightarrow>
           let c = (n - 0xF0) * 262144 + (unat b1 - 0x80) * 4096 + (unat b2 - 0x80) * 64 + (unat b3 - 0x80) in
           if utf8_tail b1 \<and> utf8_tail b2 \<and> utf8_tail b3 \<and> 0x10000 \<le> c \<and> is_scalar c
           then Some (c, r) else None
         | _ \<Rightarrow> None)
      else None)"

lemma utf8_step_shorter: "utf8_step bs = Some (c, r) \<Longrightarrow> length r < length bs"
  by (cases bs) (auto simp: Let_def split: if_splits list.splits)

function from_utf8 :: "u8 list \<Rightarrow> str option" where
  "from_utf8 bs = (if bs = [] then Some []
     else case utf8_step bs of None \<Rightarrow> None | Some (c, r) \<Rightarrow> map_option ((#) c) (from_utf8 r))"
  by pat_completeness auto
termination by (relation "measure length") (auto dest: utf8_step_shorter)

declare from_utf8.simps [simp del]

lemma unat_byte [simp]: "n < 256 \<Longrightarrow> unat (word_of_nat n :: u8) = n"
  by (simp add: unat_of_nat)

lemma base64_digits:
  fixes c :: nat
  obtains r0 r1 r2 q1 q2 q3 where "r0 < 64" "r1 < 64" "r2 < 64"
    "c mod 64 = r0" "c div 64 mod 64 = r1" "c div 4096 mod 64 = r2"
    "c div 64 = q1" "c div 4096 = q2" "c div 262144 = q3"
    "c = q1 * 64 + r0" "q1 = q2 * 64 + r1" "q2 = q3 * 64 + r2"
proof -
  have "c div 4096 = c div 64 div 64" "c div 262144 = c div 4096 div 64"
    by (simp_all flip: div_mult2_eq)
  then show ?thesis
    by (intro that [of "c mod 64" "c div 64 mod 64" "c div 4096 mod 64" "c div 64" "c div 4096" "c div 262144"])
      simp_all
qed

lemma utf8_step_char:
  assumes "is_scalar c"
  shows "utf8_step (utf8_char c @ r) = Some (c, r)"
proof -
  obtain r0 r1 r2 q1 q2 q3 where r: "r0 < 64" "r1 < 64" "r2 < 64"
    and d: "c mod 64 = r0" "c div 64 mod 64 = r1" "c div 4096 mod 64 = r2"
      "c div 64 = q1" "c div 4096 = q2" "c div 262144 = q3"
    and e: "c = q1 * 64 + r0" "q1 = q2 * 64 + r1" "q2 = q3 * 64 + r2"
    by (rule base64_digits)
  have d': "q1 mod 64 = r1" "q2 mod 64 = r2" using d by simp_all
  consider "c < 0x80" | "0x80 \<le> c" "c < 0x800" | "0x800 \<le> c" "c < 0x10000" | "0x10000 \<le> c" "c < 0x110000"
    using assms unfolding is_scalar_def by linarith
  then show ?thesis
  proof cases
    case 2
    then have "q1 < 32" using e by linarith
    then show ?thesis using 2 r e(1) by (simp add: utf8_char_def utf8_tail_def d Let_def del: of_nat_add)
  next
    case 3
    then have q: "q2 < 16" "q2 * 4096 + r1 * 64 + r0 = c" using e by linarith+
    have "utf8_char c = map word_of_nat [0xE0 + q2, 0x80 + r1, 0x80 + r0]"
      using 3 by (simp add: utf8_char_def d d')
    then show ?thesis using 3(1) r q assms by (simp add: utf8_tail_def Let_def del: of_nat_add)
  next
    case 4
    then have q: "q3 < 8" "q3 * 262144 + r2 * 4096 + r1 * 64 + r0 = c" using e by linarith+
    have "utf8_char c = map word_of_nat [0xF0 + q3, 0x80 + r2, 0x80 + r1, 0x80 + r0]"
      using 4 by (simp add: utf8_char_def d d')
    then show ?thesis using 4(1) r q assms by (simp add: utf8_tail_def Let_def del: of_nat_add)
  qed (simp add: utf8_char_def)
qed

lemma utf8_char_not_Nil [simp]: "utf8_char c \<noteq> []"
  by (simp add: utf8_char_def)

lemma from_utf8_utf8: "wf_str s \<Longrightarrow> from_utf8 (utf8 s) = Some s"
  by (induction s) (simp_all add: utf8_def wf_str_def utf8_step_char from_utf8.simps)

lemma utf8_simps [simp]: "utf8 [] = []" "utf8 (c # s) = utf8_char c @ utf8 s" "utf8 (s @ t) = utf8 s @ utf8 t"
  by (simp_all add: utf8_def)

lemma wf_str_simps [simp]: "wf_str []" "wf_str (c # s) \<longleftrightarrow> is_scalar c \<and> wf_str s"
  "wf_str (s @ t) \<longleftrightarrow> wf_str s \<and> wf_str t"
  by (auto simp: wf_str_def)

text \<open>ASCII text is its own encoding.\<close>

definition is_ascii :: "str \<Rightarrow> bool" where
  "is_ascii s \<longleftrightarrow> (\<forall>c\<in>set s. c < 0x80)"

lemma is_ascii_simps [simp]: "is_ascii []" "is_ascii (c # s) \<longleftrightarrow> c < 0x80 \<and> is_ascii s"
  "is_ascii (s @ t) \<longleftrightarrow> is_ascii s \<and> is_ascii t"
  by (auto simp: is_ascii_def)

lemma graphic_ascii: "graphic s \<Longrightarrow> is_ascii s"
  by (auto simp: graphic_def is_ascii_def)

lemma wf_str_ascii: "is_ascii s \<Longrightarrow> wf_str s"
  by (auto simp: is_ascii_def wf_str_def is_scalar_def)

lemma utf8_ascii: "is_ascii s \<Longrightarrow> utf8 s = map word_of_nat s"
  by (induction s) (simp_all add: utf8_char_def)

lemma length_utf8_ascii: "is_ascii s \<Longrightarrow> length (utf8 s) = length s"
  by (simp add: utf8_ascii)

lemma utf8_char_join:
  assumes "t1 < 64" "t2 < 64" "t3 < 64"
  shows "0x80 \<le> k * 64 + t1 \<Longrightarrow> k < 32 \<Longrightarrow>
      utf8_char (k * 64 + t1) = map word_of_nat [0xC0 + k, 0x80 + t1]"
    and "0x800 \<le> k * 4096 + t1 * 64 + t2 \<Longrightarrow> k < 16 \<Longrightarrow>
      utf8_char (k * 4096 + t1 * 64 + t2) = map word_of_nat [0xE0 + k, 0x80 + t1, 0x80 + t2]"
    and "0x10000 \<le> k * 262144 + t1 * 4096 + t2 * 64 + t3 \<Longrightarrow> k < 8 \<Longrightarrow>
      utf8_char (k * 262144 + t1 * 4096 + t2 * 64 + t3) =
        map word_of_nat [0xF0 + k, 0x80 + t1, 0x80 + t2, 0x80 + t3]"
proof -
  have d: "(q * 64 + t) div 64 = q" "(q * 64 + t) mod 64 = t" if "t < 64" for q t :: nat
    using that by simp_all
  have d3: "(k * 4096 + t1 * 64 + t2) div 64 = k * 64 + t1" "(k * 4096 + t1 * 64 + t2) div 4096 = k"
    "(k * 4096 + t1 * 64 + t2) mod 64 = t2"
    using assms d [of t2 "k * 64 + t1"] by (simp_all add: algebra_simps)
  have d4: "(k * 262144 + t1 * 4096 + t2 * 64 + t3) div 64 = k * 4096 + t1 * 64 + t2"
    "(k * 262144 + t1 * 4096 + t2 * 64 + t3) div 4096 = k * 64 + t1"
    "(k * 262144 + t1 * 4096 + t2 * 64 + t3) div 262144 = k"
    "(k * 262144 + t1 * 4096 + t2 * 64 + t3) mod 64 = t3"
    using assms d [of t3 "k * 4096 + t1 * 64 + t2"] by (simp_all add: algebra_simps)
  show "0x80 \<le> k * 64 + t1 \<Longrightarrow> k < 32 \<Longrightarrow>
      utf8_char (k * 64 + t1) = map word_of_nat [0xC0 + k, 0x80 + t1]"
    using assms d [of t1 k] by (simp add: utf8_char_def)
  show "0x800 \<le> k * 4096 + t1 * 64 + t2 \<Longrightarrow> k < 16 \<Longrightarrow>
      utf8_char (k * 4096 + t1 * 64 + t2) = map word_of_nat [0xE0 + k, 0x80 + t1, 0x80 + t2]"
    using assms d3 d [of t1 k] by (simp add: utf8_char_def)
  show "0x10000 \<le> k * 262144 + t1 * 4096 + t2 * 64 + t3 \<Longrightarrow> k < 8 \<Longrightarrow>
      utf8_char (k * 262144 + t1 * 4096 + t2 * 64 + t3) =
        map word_of_nat [0xF0 + k, 0x80 + t1, 0x80 + t2, 0x80 + t3]"
    using assms d4 d3 d [of t1 k] d [of t2 "k * 64 + t1"] by (simp add: utf8_char_def)
qed

lemma utf8_step_sound:
  assumes "utf8_step bs = Some (c, r)"
  shows "bs = utf8_char c @ r \<and> is_scalar c"
proof (cases bs)
  case (Cons b bs')
  have byte: "word_of_nat (k + (unat x - k)) = x" if "k \<le> unat x" for k and x :: u8
    using that by (simp only: le_add_diff_inverse) simp
  have tail: "unat x - 0x80 < 64" "word_of_nat (0x80 + (unat x - 0x80)) = x" if "utf8_tail x" for x
    using that byte [of "0x80" x] by (auto simp: utf8_tail_def)
  consider "unat b < 0x80" | "0xC0 \<le> unat b" "unat b < 0xE0" | "0xE0 \<le> unat b" "unat b < 0xF0"
    | "0xF0 \<le> unat b" "unat b < 0xF8"
    using assms Cons by (auto simp: Let_def split: if_splits)
  then show ?thesis
  proof cases
    case 1
    then show ?thesis using assms Cons by (auto simp: utf8_char_def is_scalar_def)
  next
    case 2
    then obtain b1 where b: "bs' = b1 # r" "utf8_tail b1" "c = (unat b - 0xC0) * 64 + (unat b1 - 0x80)" "0x80 \<le> c"
      using assms Cons by (auto simp: Let_def split: if_splits list.splits)
    have "unat b - 0xC0 < 32" using 2 by simp
    then show ?thesis
      using 2 Cons b utf8_char_join(1) [of "unat b1 - 0x80" 0 0 "unat b - 0xC0"] tail [OF b(2)] byte [OF 2(1)]
      by (simp add: is_scalar_def)
  next
    case 3
    then obtain b1 b2 where b: "bs' = b1 # b2 # r" "utf8_tail b1" "utf8_tail b2"
      "c = (unat b - 0xE0) * 4096 + (unat b1 - 0x80) * 64 + (unat b2 - 0x80)" "0x800 \<le> c" "is_scalar c"
      using assms Cons by (auto simp: Let_def split: if_splits list.splits)
    have "unat b - 0xE0 < 16" using 3 by simp
    then show ?thesis
      using 3 Cons b utf8_char_join(2) [of "unat b1 - 0x80" "unat b2 - 0x80" 0 "unat b - 0xE0"]
        tail [OF b(2)] tail [OF b(3)] byte [OF 3(1)]
      by simp
  next
    case 4
    then obtain b1 b2 b3 where b: "bs' = b1 # b2 # b3 # r" "utf8_tail b1" "utf8_tail b2" "utf8_tail b3"
      "c = (unat b - 0xF0) * 262144 + (unat b1 - 0x80) * 4096 + (unat b2 - 0x80) * 64 + (unat b3 - 0x80)"
      "0x10000 \<le> c" "is_scalar c"
      using assms Cons by (auto simp: Let_def split: if_splits list.splits)
    have "unat b - 0xF0 < 8" using 4 by simp
    then show ?thesis
      using 4 Cons b utf8_char_join(3) [of "unat b1 - 0x80" "unat b2 - 0x80" "unat b3 - 0x80" "unat b - 0xF0"]
        tail [OF b(2)] tail [OF b(3)] tail [OF b(4)] byte [OF 4(1)]
      by simp
  qed
qed (use assms in simp)

lemma utf8_from_utf8: "from_utf8 bs = Some s \<Longrightarrow> utf8 s = bs \<and> wf_str s"
proof (induction bs arbitrary: s rule: from_utf8.induct)
  case (1 bs)
  show ?case
  proof (cases "bs = []")
    case False
    with "1.prems" obtain c r t where "utf8_step bs = Some (c, r)" "from_utf8 r = Some t" "s = c # t"
      by (auto simp: from_utf8.simps [of bs] split: option.splits)
    then show ?thesis
      using "1.IH" [OF False, of "(c, r)" c r t] utf8_step_sound [of bs c r] by auto
  qed (use "1.prems" in \<open>simp add: from_utf8.simps\<close>)
qed

section \<open>Lossy UTF-8\<close>

text \<open>
  \<^verbatim>\<open>String::from_utf8_lossy\<close>: a replacement character for every maximal prefix of a sequence that
  cannot be completed. \<open>utf8_bad\<close> is the length of that prefix at a position where decoding fails:
  the lead byte and the continuation bytes that still were possible behind it.
\<close>

definition REPLACEMENT :: nat where "REPLACEMENT = 0xFFFD"

definition second_ok :: "nat \<Rightarrow> u8 \<Rightarrow> bool" where
  "second_ok n b \<longleftrightarrow>
     (if n = 0xE0 then 0xA0 else if n = 0xF0 then 0x90 else 0x80) \<le> unat b \<and>
     unat b < (if n = 0xED then 0xA0 else if n = 0xF4 then 0x90 else 0xC0)"

fun utf8_bad :: "u8 list \<Rightarrow> nat" where
  "utf8_bad (b # b1 # bs) =
     (if 0xE0 \<le> unat b \<and> unat b < 0xF5 \<and> second_ok (unat b) b1
      then (case bs of b2 # _ \<Rightarrow> if 0xF0 \<le> unat b \<and> utf8_tail b2 then 3 else 2 | [] \<Rightarrow> 2)
      else 1)"
| "utf8_bad _ = 1"

lemma utf8_bad_pos: "0 < utf8_bad bs"
  by (induction bs rule: utf8_bad.induct) (auto split: list.splits)

function from_utf8_lossy :: "u8 list \<Rightarrow> str" where
  "from_utf8_lossy bs = (if bs = [] then []
     else case utf8_step bs of Some (c, r) \<Rightarrow> c # from_utf8_lossy r
     | None \<Rightarrow> REPLACEMENT # from_utf8_lossy (drop (utf8_bad bs) bs))"
  by pat_completeness auto
termination
  by (relation "measure length") (auto dest: utf8_step_shorter simp: utf8_bad_pos)

declare from_utf8_lossy.simps [simp del]

lemma from_utf8_lossy_valid: "from_utf8 bs = Some s \<Longrightarrow> from_utf8_lossy bs = s"
proof (induction bs arbitrary: s rule: from_utf8.induct)
  case (1 bs)
  then show ?case
    by (cases "bs = []")
      (auto simp: from_utf8.simps [of bs] from_utf8_lossy.simps [of bs] from_utf8.simps [of "[]"]
         from_utf8_lossy.simps [of "[]"] split: option.splits)
qed

lemma from_utf8_lossy_utf8: "wf_str s \<Longrightarrow> from_utf8_lossy (utf8 s) = s"
  by (simp add: from_utf8_lossy_valid from_utf8_utf8)

section \<open>UTF-16\<close>

definition utf16_char :: "nat \<Rightarrow> u16 list" where
  "utf16_char c = map word_of_nat
     (if c < 0x10000 then [c]
      else [0xD800 + (c - 0x10000) div 1024, 0xDC00 + (c - 0x10000) mod 1024])"

definition encode_utf16 :: "str \<Rightarrow> u16 list" where
  "encode_utf16 s = concat (map utf16_char s)"

fun utf16_step :: "u16 list \<Rightarrow> (nat \<times> u16 list) option" where
  "utf16_step [] = None"
| "utf16_step (w # ws) =
     (let n = unat w in
      if n < 0xD800 \<or> 0xE000 \<le> n then Some (n, ws)
      else if n < 0xDC00 then
        (case ws of v # r \<Rightarrow>
           if 0xDC00 \<le> unat v \<and> unat v < 0xE000
           then Some (0x10000 + (n - 0xD800) * 1024 + (unat v - 0xDC00), r) else None
         | [] \<Rightarrow> None)
      else None)"

lemma utf16_step_shorter: "utf16_step ws = Some (c, r) \<Longrightarrow> length r < length ws"
  by (cases ws) (auto simp: Let_def split: if_splits list.splits)

function from_utf16 :: "u16 list \<Rightarrow> str option" where
  "from_utf16 ws = (if ws = [] then Some []
     else case utf16_step ws of None \<Rightarrow> None | Some (c, r) \<Rightarrow> map_option ((#) c) (from_utf16 r))"
  by pat_completeness auto
termination by (relation "measure length") (auto dest: utf16_step_shorter)

declare from_utf16.simps [simp del]

lemma unat_unit [simp]: "n < 65536 \<Longrightarrow> unat (word_of_nat n :: u16) = n"
  by (simp add: unat_of_nat)

lemma utf16_step_char:
  assumes "is_scalar c"
  shows "utf16_step (utf16_char c @ r) = Some (c, r)"
proof (cases "c < 0x10000")
  case True
  then show ?thesis using assms by (auto simp: utf16_char_def is_scalar_def)
next
  case False
  obtain q t where d: "(c - 0x10000) div 1024 = q" "(c - 0x10000) mod 1024 = t" "t < 1024"
    "c - 0x10000 = q * 1024 + t"
    by (rule that [of "(c - 0x10000) div 1024" "(c - 0x10000) mod 1024"]) simp_all
  then have "q < 1024" "65536 + q * 1024 + t = c" using assms False unfolding is_scalar_def by linarith+
  moreover have "utf16_char c = map word_of_nat [0xD800 + q, 0xDC00 + t]"
    using False d by (simp add: utf16_char_def)
  ultimately show ?thesis using d(3) by (simp add: Let_def del: of_nat_add)
qed

lemma utf16_char_not_Nil [simp]: "utf16_char c \<noteq> []"
  by (simp add: utf16_char_def)

lemma from_utf16_encode: "wf_str s \<Longrightarrow> from_utf16 (encode_utf16 s) = Some s"
  by (induction s) (simp_all add: encode_utf16_def utf16_step_char from_utf16.simps)

lemma encode_utf16_simps [simp]: "encode_utf16 [] = []"
  "encode_utf16 (c # s) = utf16_char c @ encode_utf16 s"
  "encode_utf16 (s @ t) = encode_utf16 s @ encode_utf16 t"
  by (simp_all add: encode_utf16_def)

lemma utf16_char_bmp: "c < 0x10000 \<Longrightarrow> utf16_char c = [word_of_nat c]"
  by (simp add: utf16_char_def)

lemma encode_utf16_ascii: "is_ascii s \<Longrightarrow> encode_utf16 s = map word_of_nat s"
  by (induction s) (auto simp: utf16_char_bmp)

text \<open>\<^verbatim>\<open>String::from_utf16_lossy\<close>: a replacement character for every unpaired surrogate.\<close>

function from_utf16_lossy :: "u16 list \<Rightarrow> str" where
  "from_utf16_lossy ws = (if ws = [] then []
     else case utf16_step ws of Some (c, r) \<Rightarrow> c # from_utf16_lossy r
     | None \<Rightarrow> REPLACEMENT # from_utf16_lossy (tl ws))"
  by pat_completeness auto
termination
  by (relation "measure length") (auto dest: utf16_step_shorter)

declare from_utf16_lossy.simps [simp del]

lemma from_utf16_lossy_valid: "from_utf16 ws = Some s \<Longrightarrow> from_utf16_lossy ws = s"
proof (induction ws arbitrary: s rule: from_utf16.induct)
  case (1 ws)
  then show ?case
    by (cases "ws = []")
      (auto simp: from_utf16.simps [of ws] from_utf16_lossy.simps [of ws] from_utf16.simps [of "[]"]
         from_utf16_lossy.simps [of "[]"] split: option.splits)
qed

lemma from_utf16_lossy_encode: "wf_str s \<Longrightarrow> from_utf16_lossy (encode_utf16 s) = s"
  by (simp add: from_utf16_lossy_valid from_utf16_encode)

text \<open>The little-endian bytes of UTF-16 code units.\<close>

definition utf16_bytes_le :: "u16 list \<Rightarrow> u8 list" where
  "utf16_bytes_le ws = concat (map u16_to_le ws)"

fun units_le :: "u8 list \<Rightarrow> u16 list" where
  "units_le (a # b # bs) = u16_from_le [a, b] # units_le bs"
| "units_le _ = []"

fun units_be :: "u8 list \<Rightarrow> u16 list" where
  "units_be (a # b # bs) = u16_from_le [b, a] # units_be bs"
| "units_be _ = []"

lemma units_le_bytes: "units_le (utf16_bytes_le ws @ rest) = ws @ units_le rest"
proof (induction ws)
  case (Cons w ws)
  obtain a b where "u16_to_le w = [a, b]"
    using u16le.width_enc [of w] by (metis (no_types) length_0_conv length_Suc_conv numeral_2_eq_2)
  then show ?case
    using Cons u16le.dec_enc [of w] by (simp add: utf16_bytes_le_def)
qed (simp add: utf16_bytes_le_def)

lemma length_utf16_bytes [simp]: "length (utf16_bytes_le ws) = 2 * length ws"
  by (induction ws) (simp_all add: utf16_bytes_le_def)

end
