(* ===== verification/Base64.thy ===== *)
theory Base64
  imports Utf
begin

text \<open>
  The crate \<^verbatim>\<open>base64\<close> is not part of the repository: the record \<open>base64\<close> holds its standard
  engine's two functions, and \<open>base64_ok\<close> is what its documentation promises and the parsers rely
  on. Lower-case hexadecimal is a concrete engine with these properties, used by the witnesses.
\<close>

record base64 =
  b64_encode :: "u8 list \<Rightarrow> str"
  b64_decode :: "str \<Rightarrow> u8 list option"

definition is_base64_char :: "nat \<Rightarrow> bool" where
  "is_base64_char c \<longleftrightarrow> 48 \<le> c \<and> c \<le> 57 \<or> 65 \<le> c \<and> c \<le> 90 \<or> 97 \<le> c \<and> c \<le> 122 \<or> c = 43 \<or> c = 47 \<or> c = 61"

definition base64_ok :: "base64 \<Rightarrow> bool" where
  "base64_ok B \<longleftrightarrow>
     (\<forall>x. b64_decode B (b64_encode B x) = Some x) \<and>
     (\<forall>x. b64_encode B x = [] \<longleftrightarrow> x = []) \<and>
     (\<forall>x. \<forall>c\<in>set (b64_encode B x). is_base64_char c)"

lemma base64_ok_simps [simp]:
  assumes "base64_ok B"
  shows "b64_decode B (b64_encode B x) = Some x" "b64_encode B x = [] \<longleftrightarrow> x = []"
  using assms unfolding base64_ok_def by blast+

lemma base64_ok_chars: "base64_ok B \<Longrightarrow> c \<in> set (b64_encode B x) \<Longrightarrow> is_base64_char c"
  unfolding base64_ok_def by blast

lemma base64_char_facts:
  "is_base64_char c \<Longrightarrow> c < 128 \<and> \<not> is_whitespace c \<and> c \<noteq> 10 \<and> c \<noteq> 13 \<and> c \<noteq> 44 \<and> c \<noteq> 35 \<and> c \<noteq> 32"
  unfolding is_base64_char_def is_whitespace_def by presburger

lemma base64_char_graphic: "is_base64_char c \<Longrightarrow> 32 < c \<and> c < 127"
  by (auto simp: is_base64_char_def)

lemma base64_graphic: "base64_ok B \<Longrightarrow> graphic (b64_encode B x)"
  unfolding graphic_def by (rule ballI, rule base64_char_graphic, rule base64_ok_chars)

section \<open>Hexadecimal\<close>

definition hex_char :: "nat \<Rightarrow> nat" where
  "hex_char n = lit ''0123456789abcdef'' ! n"

definition hex_text :: "u8 list \<Rightarrow> str" where
  "hex_text bytes = concat (map (\<lambda>b. [hex_char (unat b div 16), hex_char (unat b mod 16)]) bytes)"

definition hex_value :: "nat \<Rightarrow> nat option" where
  "hex_value c = (if 48 \<le> c \<and> c \<le> 57 then Some (c - 48)
     else if 97 \<le> c \<and> c \<le> 102 then Some (c - 87)
     else if 65 \<le> c \<and> c \<le> 70 then Some (c - 55) else None)"

fun unhex :: "str \<Rightarrow> u8 list option" where
  "unhex [] = Some []"
| "unhex (a # b # s) = (case (hex_value a, hex_value b, unhex s) of
     (Some x, Some y, Some r) \<Rightarrow> Some (word_of_nat (16 * x + y) # r) | _ \<Rightarrow> None)"
| "unhex _ = None"

lemma hex_char_code: "n < 16 \<Longrightarrow> hex_char n = (if n < 10 then 48 + n else 87 + n)"
  by (auto simp: hex_char_def numeral_eq_Suc less_Suc_eq)

lemma hex_value_char [simp]: "n < 16 \<Longrightarrow> hex_value (hex_char n) = Some n"
  by (simp add: hex_char_code hex_value_def)

lemma hex_char_hexdigit: "n < 16 \<Longrightarrow> is_ascii_hexdigit (hex_char n) \<and> char_lower (hex_char n) = hex_char n"
  by (simp add: hex_char_code is_ascii_hexdigit_def is_ascii_digit_def char_lower_def)

lemma hex_text_simps [simp]: "hex_text [] = []"
  "hex_text (b # bs) = hex_char (unat b div 16) # hex_char (unat b mod 16) # hex_text bs"
  by (simp_all add: hex_text_def)

lemma nibbles: "unat (b :: u8) div 16 < 16"
  using u8_bound [of b] by simp

lemma unhex_hex_text: "unhex (hex_text bs) = Some bs"
  by (induction bs) (simp_all add: nibbles del: of_nat_add of_nat_mult)

lemma length_hex_text [simp]: "length (hex_text bs) = 2 * length bs"
  by (induction bs) simp_all

lemma hex_text_hexdigits: "c \<in> set (hex_text bs) \<Longrightarrow> is_ascii_hexdigit c \<and> char_lower c = c"
  by (induction bs) (auto simp: hex_char_hexdigit nibbles)

lemma lower_hex_text [simp]: "to_ascii_lowercase (hex_text bs) = hex_text bs"
  unfolding to_ascii_lowercase_def by (rule map_idI) (blast dest: hex_text_hexdigits)

definition hex_engine :: base64 where
  "hex_engine = \<lparr>b64_encode = hex_text, b64_decode = unhex\<rparr>"

lemma hex_text_base64: "c \<in> set (hex_text x) \<Longrightarrow> is_base64_char c"
  by (drule hex_text_hexdigits) (auto simp: is_base64_char_def is_ascii_hexdigit_def is_ascii_digit_def)

lemma hex_text_Nil_iff: "hex_text x = [] \<longleftrightarrow> x = []"
  by (cases x) simp_all

lemma hex_engine_ok: "base64_ok hex_engine"
  unfolding base64_ok_def hex_engine_def select_convs
  by (intro conjI allI ballI unhex_hex_text hex_text_Nil_iff hex_text_base64)

end
