(* ===== verification/Zip_Authenticode.thy ===== *)
theory Zip_Authenticode
  imports Utf Base64 Pe_Digest Sig_Container
begin

text \<open>
  Model of \<^verbatim>\<open>crates/psign-sip-digest/src/zip_authenticode.rs\<close>: the search for the end-of-central-
  directory record, the archive comment, the digest that leaves the comment out, and the comment
  line and script formats that carry a signature.

  SHA-256 is \<open>H Sha256\<close> for the hash parameter \<open>H\<close>, and base64 is the engine parameter \<open>B\<close>.
\<close>

definition EOCD_SIG :: "u8 list" where "EOCD_SIG = [0x50, 0x4b, 0x05, 0x06]"
definition EOCD_LEN :: nat where "EOCD_LEN = 22"
definition EOCD_COMMENT_LEN_OFFSET :: nat where "EOCD_COMMENT_LEN_OFFSET = 20"
definition MAX_ZIP_COMMENT_LEN :: nat where "MAX_ZIP_COMMENT_LEN = 65535"
definition ZIP_AUTHENTICODE_PREFIX :: str where "ZIP_AUTHENTICODE_PREFIX = lit ''ZipAuthenticode=''"
definition SHA256_DIGEST_PREFIX :: str where "SHA256_DIGEST_PREFIX = lit ''sha256:''"
definition BEGIN_SIG_BLOCK :: str where "BEGIN_SIG_BLOCK = lit ''# SIG # Begin signature block''"
definition END_SIG_BLOCK :: str where "END_SIG_BLOCK = lit ''# SIG # End signature block''"

lemmas zip_consts = EOCD_SIG_def EOCD_LEN_def EOCD_COMMENT_LEN_OFFSET_def MAX_ZIP_COMMENT_LEN_def

record ZipEocd =
  eocd_offset :: nat
  comment_offset :: nat
  comment_len :: nat

record ZipAuthenticodeSignature =
  zip_digest :: str
  pkcs7_base64 :: str

definition zip_hex_lower :: "u8 list \<Rightarrow> str" where
  "zip_hex_lower bytes = concat (map (\<lambda>byte.
     [lit ''0123456789abcdef'' ! (unat byte div 16), lit ''0123456789abcdef'' ! (unat byte mod 16)]) bytes)"

definition zip_read_u16_le :: "u8 list \<Rightarrow> nat \<Rightarrow> u16 res" where
  "zip_read_u16_le bytes offset =
     rbind (ok_or (slice_get bytes offset (offset + 2)) ''ZIP EOCD field out of range'') (\<lambda>raw.
       Inr (u16_from_le [raw ! 0, raw ! 1]))"

section \<open>Finding the record\<close>

text \<open>The body of the backwards search, over the candidate offsets in the order they are tried.\<close>

fun eocd_scan :: "u8 list \<Rightarrow> nat list \<Rightarrow> ZipEocd res" where
  "eocd_scan bytes [] = bail ''could not find a valid ZIP end-of-central-directory record''"
| "eocd_scan bytes (offset # rest) =
     (if slice_get bytes offset (offset + 4) \<noteq> Some EOCD_SIG then eocd_scan bytes rest
      else rbind (zip_read_u16_le bytes (offset + EOCD_COMMENT_LEN_OFFSET)) (\<lambda>cl.
        if offset + EOCD_LEN + unat cl = length bytes
        then Inr \<lparr>eocd_offset = offset, comment_offset = offset + EOCD_LEN, comment_len = unat cl\<rparr>
        else eocd_scan bytes rest))"

definition find_eocd :: "u8 list \<Rightarrow> ZipEocd res" where
  "find_eocd bytes =
     (if length bytes < EOCD_LEN then bail ''ZIP file is too short to contain an EOCD record''
      else let last_possible = length bytes - EOCD_LEN;
               first_possible = length bytes - (EOCD_LEN + MAX_ZIP_COMMENT_LEN)
           in eocd_scan bytes (rev [first_possible..<last_possible + 1]))"

definition zip_comment :: "u8 list \<Rightarrow> u8 list res" where
  "zip_comment bytes =
     rbind (find_eocd bytes) (\<lambda>eocd.
       slice_idx bytes (comment_offset eocd) (comment_offset eocd + comment_len eocd))"

definition set_at :: "'a list \<Rightarrow> nat \<Rightarrow> 'a \<Rightarrow> 'a list res" where
  "set_at xs i x = (if i < length xs then Inr (xs[i := x]) else Inl Panic)"

definition zip_tbs :: "u8 list \<Rightarrow> u8 list res" where
  "zip_tbs bytes =
     rbind (find_eocd bytes) (\<lambda>eocd.
     rbind (slice_idx bytes 0 (comment_offset eocd)) (\<lambda>tbs.
     rbind (set_at tbs (eocd_offset eocd + EOCD_COMMENT_LEN_OFFSET) 0) (\<lambda>tbs.
       set_at tbs (eocd_offset eocd + EOCD_COMMENT_LEN_OFFSET + 1) 0)))"

definition compute_zip_authenticode_digest :: "hash_fn \<Rightarrow> u8 list \<Rightarrow> u8 list res" where
  "compute_zip_authenticode_digest H bytes = rbind (zip_tbs bytes) (\<lambda>tbs. Inr (H Sha256 tbs))"

definition zip_authenticode_digest_string :: "hash_fn \<Rightarrow> u8 list \<Rightarrow> str res" where
  "zip_authenticode_digest_string H bytes =
     rbind (compute_zip_authenticode_digest H bytes) (\<lambda>digest.
       Inr (SHA256_DIGEST_PREFIX @ zip_hex_lower digest))"

section \<open>The comment line\<close>

definition signature_comment_line :: "u8 list \<Rightarrow> str res" where
  "signature_comment_line bytes =
     rbind (zip_comment bytes) (\<lambda>comment.
     rbind (ok_or (from_utf8 comment) ''ZIP comment is not UTF-8'') (\<lambda>text.
       ok_or (find (starts_with ZIP_AUTHENTICODE_PREFIX) (map trim (lines text)))
         ''ZIP Authenticode signature comment not found''))"

text \<open>\<^verbatim>\<open>str::len\<close> counts bytes; the prefix is ASCII, so the slice behind it is \<open>drop\<close>.\<close>

definition is_sha256_digest_string :: "str \<Rightarrow> bool" where
  "is_sha256_digest_string v \<longleftrightarrow>
     length (utf8 v) = length SHA256_DIGEST_PREFIX + 64 \<and> starts_with SHA256_DIGEST_PREFIX v \<and>
     (\<forall>b\<in>set (utf8 (drop (length SHA256_DIGEST_PREFIX) v)). is_ascii_hexdigit (unat b))"

definition parse_signature_comment_line :: "base64 \<Rightarrow> str \<Rightarrow> ZipAuthenticodeSignature res" where
  "parse_signature_comment_line B line =
     rbind (ok_or (strip_prefix ZIP_AUTHENTICODE_PREFIX (trim line))
              ''ZIP signature comment must start with ZipAuthenticode='') (\<lambda>rest.
     rbind (ok_or (split_once 44 rest) ''ZIP signature comment is missing PKCS#7 separator'')
       (\<lambda>(digest, pkcs7_base64).
     if \<not> is_sha256_digest_string digest then bail ''ZIP signature digest must use sha256:<64 hex chars>''
     else if trim pkcs7_base64 = [] then bail ''ZIP signature PKCS#7 payload is empty''
     else rbind (ok_or (b64_decode B (trim pkcs7_base64)) ''ZIP signature PKCS#7 base64 decode'') (\<lambda>_.
       Inr \<lparr>zip_digest = to_ascii_lowercase digest, pkcs7_base64 = trim pkcs7_base64\<rparr>)))"

definition signature_pkcs7_der :: "base64 \<Rightarrow> ZipAuthenticodeSignature \<Rightarrow> u8 list res" where
  "signature_pkcs7_der B sig =
     ok_or (b64_decode B (trim (pkcs7_base64 sig))) ''ZIP signature PKCS#7 base64 decode''"

definition signature_script_from_parts :: "str \<Rightarrow> str \<Rightarrow> str" where
  "signature_script_from_parts digest b64 =
     digest @ crlf @ BEGIN_SIG_BLOCK @ crlf @
     concat (map (\<lambda>chunk. lit ''# '' @ chunk @ crlf) (chunks 64 b64)) @
     END_SIG_BLOCK @ crlf"

definition zip_line :: "str \<Rightarrow> str \<Rightarrow> str" where
  "zip_line digest b64 = ZIP_AUTHENTICODE_PREFIX @ to_ascii_lowercase digest @ [44] @ b64"

definition signature_comment_line_from_pkcs7_der :: "base64 \<Rightarrow> str \<Rightarrow> u8 list \<Rightarrow> str res" where
  "signature_comment_line_from_pkcs7_der B digest pkcs7_der =
     (if \<not> is_sha256_digest_string digest then bail ''ZIP signature digest must use sha256:<64 hex chars>''
      else let line = zip_line digest (b64_encode B pkcs7_der)
           in rbind (parse_signature_comment_line B line) (\<lambda>_. Inr line))"

definition signature_script_from_comment_line :: "base64 \<Rightarrow> str \<Rightarrow> str res" where
  "signature_script_from_comment_line B line =
     rbind (parse_signature_comment_line B line) (\<lambda>sig.
       Inr (signature_script_from_parts (zip_digest sig) (pkcs7_base64 sig)))"

definition unsigned_signature_script_bytes :: "str \<Rightarrow> u8 list" where
  "unsigned_signature_script_bytes digest = utf8 digest"

text \<open>The loop over the lines of a script; \<^verbatim>\<open>break\<close> at the end marker.\<close>

fun collect_block :: "str list \<Rightarrow> bool \<Rightarrow> str \<Rightarrow> str" where
  "collect_block [] in_block acc = acc"
| "collect_block (line # rest) in_block acc =
     (let trimmed = trim line in
      if trimmed = BEGIN_SIG_BLOCK then collect_block rest True acc
      else if trimmed = END_SIG_BLOCK then acc
      else if in_block then
        (case strip_prefix (lit ''# '') trimmed of
           Some r \<Rightarrow> collect_block rest in_block (acc @ trim r)
         | None \<Rightarrow> collect_block rest in_block acc)
      else collect_block rest in_block acc)"

definition signature_comment_line_from_script :: "base64 \<Rightarrow> u8 list \<Rightarrow> str res" where
  "signature_comment_line_from_script B script =
     rbind (ok_or (from_utf8 script) ''signed ZIP .sig.ps1 is not UTF-8'') (\<lambda>text.
     (case lines text of
        [] \<Rightarrow> bail ''signed ZIP .sig.ps1 is empty''
      | first # rest \<Rightarrow> let digest = trim first in
          if \<not> is_sha256_digest_string digest
          then bail ''signed ZIP .sig.ps1 first line must be sha256:<64 hex chars>''
          else let line = zip_line digest (collect_block rest False [])
               in rbind (parse_signature_comment_line B line) (\<lambda>_. Inr line)))"

definition set_zip_comment :: "u8 list \<Rightarrow> u8 list \<Rightarrow> u8 list res" where
  "set_zip_comment bytes comment =
     (if MAX_ZIP_COMMENT_LEN < length comment
      then bail ''ZIP comment is too large for EOCD comment field''
      else rbind (find_eocd bytes) (\<lambda>eocd.
        rbind (slice_idx bytes 0 (comment_offset eocd)) (\<lambda>out.
        rbind (copy_at out (eocd_offset eocd + EOCD_COMMENT_LEN_OFFSET)
                 (u16_to_le (word_of_nat (length comment)))) (\<lambda>out.
          Inr (out @ comment)))))"

definition embed_signature_comment_line :: "base64 \<Rightarrow> u8 list \<Rightarrow> str \<Rightarrow> u8 list res" where
  "embed_signature_comment_line B bytes line =
     rbind (parse_signature_comment_line B line) (\<lambda>_. set_zip_comment bytes (utf8 line))"

definition verify_zip_digest_binding :: "base64 \<Rightarrow> hash_fn \<Rightarrow> u8 list \<Rightarrow> ZipAuthenticodeSignature res" where
  "verify_zip_digest_binding B H bytes =
     rbind (signature_comment_line bytes) (\<lambda>line.
     rbind (parse_signature_comment_line B line) (\<lambda>sig.
     rbind (zip_authenticode_digest_string H bytes) (\<lambda>computed.
       if zip_digest sig \<noteq> computed then bail ''ZIP Authenticode digest mismatch'' else Inr sig)))"

section \<open>What the search finds\<close>

definition valid_eocd :: "u8 list \<Rightarrow> nat \<Rightarrow> bool" where
  "valid_eocd bytes o' \<longleftrightarrow> o' + 22 \<le> length bytes \<and> sub bytes o' 4 = EOCD_SIG \<and>
     o' + 22 + unat (u16_from_le (sub bytes (o' + 20) 2)) = length bytes"

definition eocd_at :: "u8 list \<Rightarrow> nat \<Rightarrow> ZipEocd" where
  "eocd_at bytes o' = \<lparr>eocd_offset = o', comment_offset = o' + 22, comment_len = length bytes - (o' + 22)\<rparr>"

definition last_eocd :: "u8 list \<Rightarrow> nat \<Rightarrow> bool" where
  "last_eocd bytes o' \<longleftrightarrow> valid_eocd bytes o' \<and> (\<forall>k>o'. \<not> valid_eocd bytes k)"

lemma zip_read_u16_le_ok:
  assumes "off + 2 \<le> length bytes"
  shows "zip_read_u16_le bytes off = Inr (u16_from_le (sub bytes off 2))"
proof -
  have "sub bytes off 2 = [bytes ! off, bytes ! (off + 1)]"
    using assms by (simp add: sub_eq_nth numeral_2_eq_2)
  then show ?thesis
    using assms by (simp add: zip_read_u16_le_def slice_get_def)
qed

lemma eocd_scan_find:
  assumes "\<forall>k\<in>set ks. k + 22 \<le> length bytes"
  shows "eocd_scan bytes ks = (case find (valid_eocd bytes) ks of
     None \<Rightarrow> bail ''could not find a valid ZIP end-of-central-directory record''
   | Some k \<Rightarrow> Inr (eocd_at bytes k))"
  using assms
proof (induction ks)
  case (Cons k ks)
  have "slice_get bytes k (k + 4) = Some (sub bytes k 4)" using Cons.prems by (simp add: slice_get_def)
  moreover have "zip_read_u16_le bytes (k + 20) = Inr (u16_from_le (sub bytes (k + 20) 2))"
    using Cons.prems by (simp add: zip_read_u16_le_ok)
  ultimately show ?case
    using Cons by (auto simp: valid_eocd_def eocd_at_def zip_consts)
qed simp

lemma find_rev_upt:
  "find P (rev [a..<b]) = Some k \<longleftrightarrow> a \<le> k \<and> k < b \<and> P k \<and> (\<forall>j. k < j \<and> j < b \<longrightarrow> \<not> P j)"
proof (induction b)
  case (Suc b)
  show ?case
  proof (cases "a \<le> b \<and> P b")
    case True
    then show ?thesis by (auto simp: less_Suc_eq)
  next
    case False
    then show ?thesis using Suc by (auto simp: less_Suc_eq)
  qed
qed simp

lemma valid_eocd_range:
  "valid_eocd bytes k \<Longrightarrow> length bytes - 65557 \<le> k \<and> k < Suc (length bytes - 22) \<and> 22 \<le> length bytes"
  using u16_bound [of "u16_from_le (sub bytes (k + 20) 2)"] by (auto simp: valid_eocd_def)

lemma find_eocd_Inr: "find_eocd bytes = Inr e \<longleftrightarrow> (\<exists>k. last_eocd bytes k \<and> e = eocd_at bytes k)"
proof (cases "length bytes < 22")
  case True
  then show ?thesis
    using valid_eocd_range [of bytes] by (auto simp: find_eocd_def zip_consts last_eocd_def)
next
  case False
  let ?ks = "rev [length bytes - 65557..<Suc (length bytes - 22)]"
  have "find_eocd bytes = (case find (valid_eocd bytes) ?ks of
     None \<Rightarrow> bail ''could not find a valid ZIP end-of-central-directory record''
   | Some k \<Rightarrow> Inr (eocd_at bytes k))"
  proof -
    have "\<forall>k\<in>set ?ks. k + 22 \<le> length bytes" using False by auto
    then show ?thesis
      using False eocd_scan_find [of ?ks bytes] by (simp add: find_eocd_def zip_consts del: upt_Suc)
  qed
  moreover have "find (valid_eocd bytes) ?ks = Some k \<longleftrightarrow> last_eocd bytes k" for k
    unfolding find_rev_upt last_eocd_def using valid_eocd_range by blast
  ultimately show ?thesis
    by (cases "find (valid_eocd bytes) ?ks") (simp_all del: upt_Suc, metis+)
qed

lemma last_eocd_unique: "last_eocd bytes j \<Longrightarrow> last_eocd bytes k \<Longrightarrow> j = k"
  unfolding last_eocd_def by (metis nat_neq_iff)

lemma find_eocd_last: "last_eocd bytes k \<Longrightarrow> find_eocd bytes = Inr (eocd_at bytes k)"
  by (auto simp: find_eocd_Inr)

section \<open>Rewriting the comment\<close>

definition zip_with_comment :: "u8 list \<Rightarrow> nat \<Rightarrow> u8 list \<Rightarrow> u8 list" where
  "zip_with_comment bytes k comment =
     patch (take (k + 22) bytes) (k + 20) (u16_to_le (word_of_nat (length comment))) @ comment"

lemma set_zip_comment_last:
  assumes "last_eocd bytes k" "length comment \<le> 65535"
  shows "set_zip_comment bytes comment = Inr (zip_with_comment bytes k comment)"
proof -
  have le: "k + 22 \<le> length bytes" using assms(1) by (simp add: last_eocd_def valid_eocd_def)
  then have "slice_idx bytes 0 (k + 22) = Inr (take (k + 22) bytes)"
    by (simp add: slice_idx_Inr sub_def)
  then show ?thesis
    using assms le by (simp add: set_zip_comment_def zip_consts find_eocd_last eocd_at_def zip_with_comment_def)
qed

lemma zip_tbs_last:
  assumes "last_eocd bytes k"
  shows "zip_tbs bytes = Inr (patch (take (k + 22) bytes) (k + 20) [0, 0])"
proof -
  have le: "k + 22 \<le> length bytes" using assms by (simp add: last_eocd_def valid_eocd_def)
  then have s: "slice_idx bytes 0 (k + 22) = Inr (take (k + 22) bytes)"
    by (simp add: slice_idx_Inr sub_def)
  have "(take (k + 22) bytes)[k + 20 := 0, Suc (k + 20) := 0] = patch (take (k + 22) bytes) (k + 20) [0, 0]"
    using le by (intro nth_equalityI) (auto simp: length_patch nth_patch nth_list_update nth_Cons')
  then show ?thesis
    using le s by (simp add: zip_tbs_def find_eocd_last [OF assms] eocd_at_def zip_consts set_at_def)
qed

lemma zip_with_comment_facts:
  assumes "last_eocd bytes k" "length comment \<le> 65535"
  shows "valid_eocd (zip_with_comment bytes k comment) k"
    and "patch (take (k + 22) (zip_with_comment bytes k comment)) (k + 20) [0, 0] =
      patch (take (k + 22) bytes) (k + 20) [0, 0]"
    and "drop (k + 22) (zip_with_comment bytes k comment) = comment"
proof -
  have le: "k + 22 \<le> length bytes" and sig: "sub bytes k 4 = EOCD_SIG"
    using assms(1) by (simp_all add: last_eocd_def valid_eocd_def)
  let ?h = "patch (take (k + 22) bytes) (k + 20) (u16_to_le (word_of_nat (length comment)))"
  have h: "length ?h = k + 22" "sub ?h (k + 20) 2 = u16_to_le (word_of_nat (length comment))"
    "sub ?h k 4 = sub bytes k 4"
    using le by (simp_all add: length_patch sub_patch_same sub_patch_before sub_take)
  have "unat (word_of_nat (length comment) :: u16) = length comment"
    using assms(2) by (simp add: unat_of_nat)
  then show "valid_eocd (zip_with_comment bytes k comment) k"
    using h sig by (simp add: valid_eocd_def zip_with_comment_def sub_append_left)
  show "patch (take (k + 22) (zip_with_comment bytes k comment)) (k + 20) [0, 0] =
      patch (take (k + 22) bytes) (k + 20) [0, 0]"
    using le h(1) by (simp add: zip_with_comment_def patch_same_again)
  show "drop (k + 22) (zip_with_comment bytes k comment) = comment"
    using h(1) by (simp add: zip_with_comment_def)
qed

text \<open>
  \<open>comment_safe bytes comment\<close>: the archive has a record, the comment fits its length field, and
  no window behind the record of the commented archive reads as a later record.
\<close>

definition comment_safe :: "u8 list \<Rightarrow> u8 list \<Rightarrow> bool" where
  "comment_safe bytes comment \<longleftrightarrow> length comment \<le> 65535 \<and>
     (case find_eocd bytes of Inl _ \<Rightarrow> False
      | Inr e \<Rightarrow> \<forall>k. eocd_offset e < k \<longrightarrow> \<not> valid_eocd (zip_with_comment bytes (eocd_offset e) comment) k)"

lemma comment_safeE:
  assumes "comment_safe bytes comment"
  obtains k where "last_eocd bytes k" "last_eocd (zip_with_comment bytes k comment) k" "length comment \<le> 65535"
proof -
  from assms obtain e where e: "find_eocd bytes = Inr e" "length comment \<le> 65535"
    "\<forall>k. eocd_offset e < k \<longrightarrow> \<not> valid_eocd (zip_with_comment bytes (eocd_offset e) comment) k"
    by (auto simp: comment_safe_def split: sum.splits)
  then obtain k where k: "last_eocd bytes k" "e = eocd_at bytes k" by (auto simp: find_eocd_Inr)
  then have "last_eocd (zip_with_comment bytes k comment) k"
    using e zip_with_comment_facts(1) [OF k(1) e(2)] by (simp add: last_eocd_def eocd_at_def)
  with that k e show ?thesis by blast
qed

text \<open>A comment without the record signature, behind a record tail without it, is safe.\<close>

lemma comment_safe_free:
  assumes "last_eocd bytes k" "length comment \<le> 65535"
    and "\<forall>j>k. sub (zip_with_comment bytes k comment) j 4 \<noteq> EOCD_SIG"
  shows "comment_safe bytes comment"
  using assms by (simp add: comment_safe_def find_eocd_last eocd_at_def valid_eocd_def)

interpretation zip_sip: sig_container comment_safe set_zip_comment zip_comment
  "compute_zip_authenticode_digest H" "compute_zip_authenticode_digest H" for H
proof
  fix bytes comment
  assume "comment_safe bytes comment"
  then obtain k where k: "last_eocd bytes k" "last_eocd (zip_with_comment bytes k comment) k"
    "length comment \<le> 65535" by (rule comment_safeE)
  note set = set_zip_comment_last [OF k(1,3)] and f = zip_with_comment_facts [OF k(1,3)]
  show "\<exists>g. set_zip_comment bytes comment = Inr g" using set by simp
  fix g
  assume g: "set_zip_comment bytes comment = Inr g"
  have "slice_idx g (k + 22) (length g) = Inr comment"
    using f(3) g set k(2) by (auto simp: slice_idx_Inr sub_def last_eocd_def valid_eocd_def)
  moreover have "k + 22 \<le> length g" using g set k(2) by (simp add: last_eocd_def valid_eocd_def)
  ultimately show "zip_comment g = Inr comment"
    using g set find_eocd_last [OF k(2)] by (simp add: zip_comment_def eocd_at_def)
  show "compute_zip_authenticode_digest H g = compute_zip_authenticode_digest H bytes"
    using g set zip_tbs_last [OF k(1)] zip_tbs_last [OF k(2)] f(2)
    by (simp add: compute_zip_authenticode_digest_def)
qed

section \<open>The line format\<close>

lemma zip_hex_lower_eq: "zip_hex_lower = hex_text"
  by (simp add: fun_eq_iff zip_hex_lower_def hex_text_def hex_char_def)

lemma hexdigit_graphic: "is_ascii_hexdigit c \<Longrightarrow> 32 < c \<and> c < 127 \<and> c \<noteq> 44"
  by (auto simp: is_ascii_hexdigit_def is_ascii_digit_def)

lemma hex_text_graphic: "graphic (hex_text bs)" "44 \<notin> set (hex_text bs)"
  using hex_text_hexdigits [of _ bs] hexdigit_graphic by (auto simp: graphic_def)

definition digest_text :: "u8 list \<Rightarrow> str" where
  "digest_text d = SHA256_DIGEST_PREFIX @ zip_hex_lower d"

lemma digest_text_graphic: "graphic (digest_text d)" "44 \<notin> set (digest_text d)"
  using hex_text_graphic [of d] by (simp_all add: digest_text_def zip_hex_lower_eq SHA256_DIGEST_PREFIX_def)

lemma digest_text_lower [simp]: "to_ascii_lowercase (digest_text d) = digest_text d"
  by (simp add: digest_text_def zip_hex_lower_eq) (simp add: SHA256_DIGEST_PREFIX_def to_ascii_lowercase_def char_lower_def)

lemma digest_text_ok: "length d = 32 \<Longrightarrow> is_sha256_digest_string (digest_text d)"
proof -
  assume l: "length d = 32"
  have a: "is_ascii (digest_text d)" by (rule graphic_ascii [OF digest_text_graphic(1)])
  have h: "is_ascii (hex_text d)" by (rule graphic_ascii [OF hex_text_graphic(1)])
  have "\<forall>b\<in>set (utf8 (hex_text d)). is_ascii_hexdigit (unat b)"
    using hex_text_hexdigits [of _ d] h by (auto simp: utf8_ascii is_ascii_def unat_of_nat)
  then show ?thesis
    using l a by (simp add: is_sha256_digest_string_def length_utf8_ascii starts_with_iff
        digest_text_def zip_hex_lower_eq)
qed

lemma zip_line_graphic: "base64_ok B \<Longrightarrow> graphic (zip_line (digest_text d) (b64_encode B x))"
  using base64_graphic [of B x] digest_text_graphic(1) [of d]
  by (simp add: zip_line_def ZIP_AUTHENTICODE_PREFIX_def)

lemma parse_zip_line:
  assumes "base64_ok B" "length d = 32" "x \<noteq> []"
  shows "parse_signature_comment_line B (zip_line (digest_text d) (b64_encode B x)) =
    Inr \<lparr>zip_digest = digest_text d, pkcs7_base64 = b64_encode B x\<rparr>"
proof -
  have "trim (zip_line (digest_text d) (b64_encode B x)) =
      ZIP_AUTHENTICODE_PREFIX @ digest_text d @ 44 # b64_encode B x"
    unfolding graphic_trim [OF zip_line_graphic [OF assms(1)]] by (simp add: zip_line_def)
  moreover have "split_once 44 (digest_text d @ 44 # b64_encode B x) = Some (digest_text d, b64_encode B x)"
    using digest_text_graphic(2) by (rule split_once_at)
  ultimately show ?thesis
    using assms by (simp add: parse_signature_comment_line_def digest_text_ok
        graphic_trim [OF base64_graphic])
qed

lemma der_of_line:
  "base64_ok B \<Longrightarrow> signature_pkcs7_der B \<lparr>zip_digest = t, pkcs7_base64 = b64_encode B x\<rparr> = Inr x"
  by (simp add: signature_pkcs7_der_def graphic_trim [OF base64_graphic])

lemma comment_line_of_line:
  assumes "base64_ok B" "zip_comment g = Inr (utf8 (zip_line (digest_text d) (b64_encode B x)))"
  shows "signature_comment_line g = Inr (zip_line (digest_text d) (b64_encode B x))"
proof -
  let ?l = "zip_line (digest_text d) (b64_encode B x)"
  have g: "graphic ?l" by (rule zip_line_graphic [OF assms(1)])
  have "lines ?l = [?l]"
    using graphic_free [OF g, of 10] by (intro lines_single) (simp_all add: zip_line_def)
  moreover have "from_utf8 (utf8 ?l) = Some ?l"
    by (rule from_utf8_utf8 [OF wf_str_ascii [OF graphic_ascii [OF g]]])
  moreover have "starts_with ZIP_AUTHENTICODE_PREFIX ?l" by (simp add: zip_line_def starts_with_iff)
  ultimately show ?thesis
    using assms(2) graphic_trim [OF g] by (simp add: signature_comment_line_def)
qed

section \<open>The script format\<close>

lemma lines_block:
  "\<forall>c\<in>set cs. graphic c \<Longrightarrow>
   lines (concat (map (\<lambda>chunk. lit ''# '' @ chunk @ crlf) cs) @ r) = map (\<lambda>c. lit ''# '' @ c) cs @ lines r"
proof (induction cs)
  case (Cons c cs)
  have "10 \<notin> set (lit ''# '' @ c)" using Cons.prems graphic_free [of c 10] by simp
  with Cons show ?case
    using lines_crlf [of "lit ''# '' @ c"] by (simp add: crlf_def)
qed simp

lemma markers:
  "graphic c \<Longrightarrow> lit ''# '' @ c \<noteq> BEGIN_SIG_BLOCK" "graphic c \<Longrightarrow> lit ''# '' @ c \<noteq> END_SIG_BLOCK"
  using graphic_free [of c 32] by (auto simp: BEGIN_SIG_BLOCK_def END_SIG_BLOCK_def)

lemma markers_trimmed [simp]: "trim BEGIN_SIG_BLOCK = BEGIN_SIG_BLOCK" "trim END_SIG_BLOCK = END_SIG_BLOCK"
  "END_SIG_BLOCK \<noteq> BEGIN_SIG_BLOCK" "10 \<notin> set BEGIN_SIG_BLOCK" "10 \<notin> set END_SIG_BLOCK"
  by (simp_all add: BEGIN_SIG_BLOCK_def END_SIG_BLOCK_def trim_id trimmed_def is_whitespace_def)

lemma collect_chunks:
  "\<forall>c\<in>set cs. graphic c \<and> c \<noteq> [] \<Longrightarrow>
   collect_block (map (\<lambda>c. lit ''# '' @ c) cs @ [END_SIG_BLOCK]) True acc = acc @ concat cs"
proof (induction cs arbitrary: acc)
  case (Cons c cs)
  have c: "graphic c" "c \<noteq> []" using Cons.prems by simp_all
  have "trimmed (lit ''# '' @ c)"
    using c graphic_trimmed [OF c(1)] by (auto simp: trimmed_def is_whitespace_def)
  then have "trim (lit ''# '' @ c) = lit ''# '' @ c" by (rule trim_id)
  then show ?case
    using Cons markers [OF c(1)] graphic_trim [OF c(1)]
    by (simp add: Let_def strip_prefix_append del: lit_simps)
qed simp

lemma script_round_trip:
  assumes "base64_ok B" "length d = 32" "x \<noteq> []"
  shows "signature_comment_line_from_script B
      (utf8 (signature_script_from_parts (digest_text d) (b64_encode B x))) =
    Inr (zip_line (digest_text d) (b64_encode B x))"
proof -
  let ?e = "b64_encode B x" and ?s = "signature_script_from_parts (digest_text d) (b64_encode B x)"
  have parts: "\<forall>c\<in>set (chunks 64 ?e). graphic c \<and> c \<noteq> []"
    using chunks_parts [of _ 64 ?e] base64_graphic [OF assms(1), of x] by (force simp: graphic_def)
  have asc: "is_ascii (lit ''# '' @ c @ crlf)" if "graphic c" for c
    using graphic_ascii [OF that] by (simp add: crlf_def)
  have "is_ascii ?s"
    using parts asc graphic_ascii [OF digest_text_graphic(1)]
    by (auto simp: signature_script_from_parts_def crlf_def BEGIN_SIG_BLOCK_def END_SIG_BLOCK_def
        is_ascii_def [of "concat _"]) (auto simp: is_ascii_def graphic_def)
  then have u: "from_utf8 (utf8 ?s) = Some ?s" by (intro from_utf8_utf8 wf_str_ascii)
  have "lines ?s = digest_text d # BEGIN_SIG_BLOCK # map (\<lambda>c. lit ''# '' @ c) (chunks 64 ?e) @ [END_SIG_BLOCK]"
    using parts lines_crlf [of "digest_text d"] lines_crlf [of BEGIN_SIG_BLOCK] lines_crlf [of END_SIG_BLOCK "[]"]
      lines_block [of "chunks 64 ?e"] graphic_free [OF digest_text_graphic(1), of 10 d]
    by (simp add: signature_script_from_parts_def crlf_def del: lit_simps)
  then show ?thesis
    using u parts assms collect_chunks [of "chunks 64 ?e" "[]"]
    by (simp add: signature_comment_line_from_script_def digest_text_ok Let_def parse_zip_line
        graphic_trim [OF digest_text_graphic(1)] concat_chunks del: lit_simps)
qed

section \<open>Properties\<close>

text \<open>C8: the search for the end-of-central-directory record is exact: it answers with a record
  if and only if some offset holds the signature and a comment length that reaches the end of the
  file, and then with the last such offset; an archive without one is refused.\<close>

theorem find_eocd_exact:
  "find_eocd bytes = Inr e \<longleftrightarrow>
    (\<exists>k. k + 22 \<le> length bytes \<and> sub bytes k 4 = EOCD_SIG \<and>
      k + 22 + unat (u16_from_le (sub bytes (k + 20) 2)) = length bytes \<and>
      (\<forall>j>k. \<not> valid_eocd bytes j) \<and>
      e = \<lparr>eocd_offset = k, comment_offset = k + 22, comment_len = length bytes - (k + 22)\<rparr>)"
  unfolding find_eocd_Inr last_eocd_def valid_eocd_def eocd_at_def by blast

text \<open>C4: signing an archive round-trips through its comment. The comment line made from the
  archive's digest and a non-empty PKCS#7 blob is well formed; where the comment cannot be read as
  a later record, embedding it succeeds, the digest binding of the result verifies, and the parsed
  signature gives back the blob.\<close>

theorem zip_sign_then_verify:
  assumes "base64_ok B" and "hash_lengths H" and "der \<noteq> []"
    and "zip_authenticode_digest_string H bytes = Inr ds"
  shows "\<exists>line. signature_comment_line_from_pkcs7_der B ds der = Inr line \<and>
    (comment_safe bytes (utf8 line) \<longrightarrow>
      (\<exists>out sig. embed_signature_comment_line B bytes line = Inr out \<and>
        verify_zip_digest_binding B H out = Inr sig \<and> signature_pkcs7_der B sig = Inr der))"
proof -
  from assms(4) obtain d where d: "compute_zip_authenticode_digest H bytes = Inr d" "ds = digest_text d"
    by (auto simp: zip_authenticode_digest_string_def rbind_Inr_iff digest_text_def)
  then have l: "length d = 32"
    using assms(2) by (auto simp: compute_zip_authenticode_digest_def rbind_Inr_iff hash_lengths_def)
  let ?l = "zip_line (digest_text d) (b64_encode B der)"
  note p = parse_zip_line [OF assms(1) l assms(3)]
  have "\<exists>out sig. embed_signature_comment_line B bytes ?l = Inr out \<and>
        verify_zip_digest_binding B H out = Inr sig \<and> signature_pkcs7_der B sig = Inr der"
    if safe: "comment_safe bytes (utf8 ?l)"
  proof -
    obtain out where o: "set_zip_comment bytes (utf8 ?l) = Inr out"
      using zip_sip.embed_total [OF safe] by blast
    have "signature_comment_line out = Inr ?l"
      by (rule comment_line_of_line [OF assms(1) zip_sip.extract_embed [OF safe o]])
    moreover have "zip_authenticode_digest_string H out = Inr (digest_text d)"
      using zip_sip.digest_embed [OF safe o, of H] d by (simp add: zip_authenticode_digest_string_def digest_text_def)
    ultimately show ?thesis
      using o p der_of_line [OF assms(1)] by (simp add: embed_signature_comment_line_def verify_zip_digest_binding_def)
  qed
  then show ?thesis
    using d(2) p l by (simp add: signature_comment_line_from_pkcs7_der_def digest_text_ok)
qed

text \<open>The script form of a signature is equivalent to the comment line: a line made by the
  code converts to a \<^verbatim>\<open>.sig.ps1\<close> script (64 columns of base64 per line), and reading that script
  gives the same line back.\<close>

theorem zip_script_round_trip:
  assumes "base64_ok B" and "length d = 32" and "der \<noteq> []"
  shows "\<exists>line script. signature_comment_line_from_pkcs7_der B (SHA256_DIGEST_PREFIX @ zip_hex_lower d) der = Inr line \<and>
    signature_script_from_comment_line B line = Inr script \<and>
    signature_comment_line_from_script B (utf8 script) = Inr line"
  using parse_zip_line [OF assms] script_round_trip [OF assms] digest_text_ok [OF assms(2)]
  unfolding digest_text_def [symmetric]
  by (simp add: signature_comment_line_from_pkcs7_der_def signature_script_from_comment_line_def)

theorem zip_script_round_trip_witness:
  "\<exists>line script. signature_comment_line_from_pkcs7_der hex_engine
      (SHA256_DIGEST_PREFIX @ zip_hex_lower (replicate 32 0xab)) (replicate 40 1) = Inr line \<and>
    signature_script_from_comment_line hex_engine line = Inr script \<and>
    signature_comment_line_from_script hex_engine (utf8 script) = Inr line"
  by (rule zip_script_round_trip [OF hex_engine_ok]) simp_all

text \<open>An empty archive, and the digest and line of its signature under the constant hash.\<close>

definition empty_zip :: "u8 list" where
  "empty_zip = EOCD_SIG @ replicate 18 0"

lemma window_sig:
  assumes "sub xs j 4 = EOCD_SIG"
  shows "j + 4 \<le> length xs" "xs ! j = 0x50" "xs ! (j + 1) = 0x4b" "xs ! (j + 2) = 5"
proof -
  have "length (sub xs j 4) = 4" using assms by (simp add: EOCD_SIG_def)
  then show l: "j + 4 \<le> length xs" by (simp add: sub_def)
  have e: "EOCD_SIG = map (\<lambda>i. xs ! (j + i)) [0..<4]" using sub_eq_nth [OF l] assms by simp
  have n: "xs ! (j + i) = EOCD_SIG ! i" if "i < 4" for i
    using that by (subst e) simp
  show "xs ! j = 0x50" "xs ! (j + 1) = 0x4b" "xs ! (j + 2) = 5"
    using n [of 0] n [of 1] n [of 2] by (simp_all add: EOCD_SIG_def)
qed

text \<open>Behind the record of an archive with nothing in it, only a comment can hold a signature.\<close>

lemma empty_record_windows:
  assumes "sub (EOCD_SIG @ replicate 16 0 @ [w, 0] @ c) j 4 = EOCD_SIG" (is "sub ?z j 4 = _")
    and "0 < j" "5 \<notin> set c"
  shows False
proof -
  note w = window_sig [OF assms(1)]
  let ?h = "EOCD_SIG @ replicate 16 0 @ [w, 0]"
  have h: "length ?h = 22" by (simp add: EOCD_SIG_def)
  have "j + 2 < 22"
  proof (rule ccontr)
    assume "\<not> j + 2 < 22"
    then have "c ! (j + 2 - 22) = 5" "j + 2 - 22 < length c"
      using w(1,4) h nth_append [of ?h c "j + 2"] by simp_all
    then show False using assms(3) nth_mem by metis
  qed
  then show False
    using w(2,3) assms(2) by (auto simp: EOCD_SIG_def nth_append nth_Cons' split: if_splits)
qed

lemma empty_zip_eq: "empty_zip = EOCD_SIG @ replicate 16 0 @ [0, 0] @ []"
  by (simp add: empty_zip_def numeral_eq_Suc)

lemma empty_zip_last: "last_eocd empty_zip 0"
proof -
  have "sub empty_zip 0 4 = EOCD_SIG" "sub empty_zip 20 2 = [0, 0]" "length empty_zip = 22"
    by (simp_all add: empty_zip_eq sub_def EOCD_SIG_def)
  moreover have "\<not> valid_eocd empty_zip k" if "k > 0" for k
    using empty_record_windows [of 0 "[]" k] that by (auto simp: valid_eocd_def empty_zip_eq)
  ultimately show ?thesis by (simp add: last_eocd_def valid_eocd_def u16_from_le_def)
qed

theorem find_eocd_exact_witness:
  "find_eocd empty_zip = Inr \<lparr>eocd_offset = 0, comment_offset = 22, comment_len = 0\<rparr>"
proof (subst find_eocd_exact, intro exI conjI)
  show "0 + 22 \<le> length empty_zip" "sub empty_zip 0 4 = EOCD_SIG"
    "0 + 22 + unat (u16_from_le (sub empty_zip (0 + 20) 2)) = length empty_zip"
    using empty_zip_last by (auto simp: last_eocd_def valid_eocd_def)
  show "\<forall>j>0. \<not> valid_eocd empty_zip j" using empty_zip_last by (auto simp: last_eocd_def)
qed (simp add: empty_zip_eq EOCD_SIG_def)

lemma empty_zip_safe:
  assumes "graphic s" "length s < 256"
  shows "comment_safe empty_zip (utf8 s)"
proof (rule comment_safe_free [OF empty_zip_last])
  have l: "length (utf8 s) = length s" using graphic_ascii [OF assms(1)] by (rule length_utf8_ascii)
  then show "length (utf8 s) \<le> 65535" using assms by simp
  have "unat (word_of_nat (length s) :: u16) = length s" using assms(2) by (simp add: unat_of_nat)
  then have z: "zip_with_comment empty_zip 0 (utf8 s) = EOCD_SIG @ replicate 16 0 @ [word_of_nat (length s), 0] @ utf8 s"
    using assms(2) l by (simp add: zip_with_comment_def empty_zip_eq EOCD_SIG_def patch_def
        u16_to_le_def le_bytes_width)
  have "unat b \<noteq> 5" if "b \<in> set (utf8 s)" for b
    using that assms(1) graphic_ascii [OF assms(1)] by (auto simp: utf8_ascii graphic_def)
  then have "5 \<notin> set (utf8 s)" by force
  then show "\<forall>j>0. sub (zip_with_comment empty_zip 0 (utf8 s)) j 4 \<noteq> EOCD_SIG"
    unfolding z using empty_record_windows by blast
qed

theorem zip_sign_then_verify_witness:
  "\<exists>line out sig. signature_comment_line_from_pkcs7_der hex_engine (digest_text (replicate 32 7)) [1, 2] = Inr line \<and>
    embed_signature_comment_line hex_engine empty_zip line = Inr out \<and>
    verify_zip_digest_binding hex_engine (\<lambda>k m. replicate (digest_output_len k) 7) out = Inr sig \<and>
    signature_pkcs7_der hex_engine sig = Inr [1, 2]"
proof -
  let ?H = "\<lambda>k (m :: u8 list). replicate (digest_output_len k) (7 :: u8)"
  let ?d = "digest_text (replicate 32 7)"
  have H: "hash_lengths ?H" by (simp add: hash_lengths_def)
  have d: "zip_authenticode_digest_string ?H empty_zip = Inr ?d"
    using zip_tbs_last [OF empty_zip_last]
    by (simp add: zip_authenticode_digest_string_def compute_zip_authenticode_digest_def digest_text_def)
  have line: "signature_comment_line_from_pkcs7_der hex_engine ?d [1, 2] =
      Inr (zip_line ?d (b64_encode hex_engine [1, 2]))"
    by (simp add: signature_comment_line_from_pkcs7_der_def digest_text_ok parse_zip_line [OF hex_engine_ok])
  have "comment_safe empty_zip (utf8 (zip_line ?d (b64_encode hex_engine [1, 2])))"
    by (rule empty_zip_safe [OF zip_line_graphic [OF hex_engine_ok]])
      (simp add: zip_line_def digest_text_def ZIP_AUTHENTICODE_PREFIX_def SHA256_DIGEST_PREFIX_def
        zip_hex_lower_eq hex_engine_def)
  then show ?thesis
    using zip_sign_then_verify [OF hex_engine_ok H _ d, of "[1, 2]"] line by auto
qed

text \<open>
  Without that condition the comment decides where the record is: a 22-byte comment that is itself
  an empty archive is found instead of the archive's record.
\<close>

lemma zip_comment_spoofs_record:
  "\<exists>g. set_zip_comment empty_zip empty_zip = Inr g \<and> zip_comment g \<noteq> Inr empty_zip"
proof -
  have s: "set_zip_comment empty_zip empty_zip = Inr (zip_with_comment empty_zip 0 empty_zip)"
    by (rule set_zip_comment_last [OF empty_zip_last]) (simp add: empty_zip_eq EOCD_SIG_def)
  let ?g = "zip_with_comment empty_zip 0 empty_zip"
  have g: "?g = EOCD_SIG @ replicate 16 0 @ [22, 0] @ empty_zip"
    by (simp add: zip_with_comment_def empty_zip_eq EOCD_SIG_def patch_def u16_to_le_def le_bytes_width)
  have "valid_eocd ?g 22"
    unfolding g by (simp add: valid_eocd_def empty_zip_eq EOCD_SIG_def sub_def u16_from_le_def)
  moreover have "\<not> valid_eocd ?g k" if "k > 22" for k
  proof
    assume "valid_eocd ?g k"
    moreover have "length ?g = 44" unfolding g by (simp add: empty_zip_eq EOCD_SIG_def)
    ultimately show False using that by (simp add: valid_eocd_def)
  qed
  ultimately have "last_eocd ?g 22" by (simp add: last_eocd_def)
  then have "find_eocd ?g = Inr (eocd_at ?g 22)" by (rule find_eocd_last)
  moreover have "length ?g = 44" unfolding g by (simp add: empty_zip_eq EOCD_SIG_def)
  ultimately have "zip_comment ?g = Inr []"
    by (simp add: zip_comment_def eocd_at_def slice_idx_Inr)
  then show ?thesis using s by (simp add: empty_zip_def EOCD_SIG_def)
qed

end
