(* ===== verification/Der_Length.thy ===== *)
theory Der_Length
  imports Prelude
begin

text \<open>
  The contract of a definite-length implementation: a length below its limit reads back with the
  number of octets it was written with, whatever follows. Several components of the repository
  carry their own pair of routines; each is an interpretation.
\<close>

locale der_length =
  fixes limit :: nat
    and enc_len :: "nat \<Rightarrow> u8 list"
    and parse_len :: "u8 list \<Rightarrow> (nat \<times> nat) option"
  assumes parse_enc: "n < limit \<Longrightarrow> parse_len (enc_len n @ rest) = Some (n, length (enc_len n))"
    and enc_nonempty: "enc_len n \<noteq> []"
begin

definition tlv :: "u8 \<Rightarrow> u8 list \<Rightarrow> u8 list" where
  "tlv tag content = tag # enc_len (length content) @ content"

text \<open>What a reader finds behind the tag octet: the length, and the content where it says.\<close>

lemma read_header:
  "length c < limit \<Longrightarrow> parse_len (tl (tlv t c) @ rest) = Some (length c, length (enc_len (length c)))"
  by (simp add: tlv_def parse_enc)

lemma read_content:
  "drop (1 + length (enc_len (length c))) (tlv t c) = c"
  by (simp add: tlv_def)

lemma length_tlv: "length (tlv t c) = 1 + length (enc_len (length c)) + length c"
  by (simp add: tlv_def)

text \<open>Encodings are prefix free, so a sequence of elements splits in one way.\<close>

lemma tlv_prefix:
  assumes "tlv t c @ r = tlv t' c' @ r'" "length c < limit" "length c' < limit"
  shows "t = t' \<and> c = c' \<and> r = r'"
proof -
  from assms(1) have t: "t = t'"
    and e: "enc_len (length c) @ (c @ r) = enc_len (length c') @ (c' @ r')"
    by (simp_all add: tlv_def)
  have "Some (length c, length (enc_len (length c))) = Some (length c', length (enc_len (length c')))"
    using parse_enc [OF assms(2), of "c @ r"] parse_enc [OF assms(3), of "c' @ r'"] e by simp
  with t e show ?thesis by simp
qed

end

end
