(* ===== verification/Der_Wire.thy ===== *)
theory Der_Wire
  imports Der_Length
begin

text \<open>
  Model of \<^verbatim>\<open>crates/psign-sip-digest/src/pkcs7_wire.rs\<close>: definite-length DER, and the
  normalization of PKCS#7 blobs (PKCX wrapper, bare SignedData, duplicate certificates).

  \<open>None\<close> is the \<^verbatim>\<open>None\<close> of the code. Slices whose bounds the code has checked before indexing are
  \<open>sub\<close>; the borrowed and the owned case of \<^verbatim>\<open>Cow\<close> are the bytes they hold.
\<close>

unbundle bit_operations_syntax

definition PKCS7_SIGNED_DATA_OID_DER :: "u8 list" where
  "PKCS7_SIGNED_DATA_OID_DER = [0x06, 0x09, 0x2A, 0x86, 0x48, 0x86, 0xF7, 0x0D, 0x01, 0x07, 0x02]"

text \<open>The stack of length octets, least significant first, as the loop pushes them.\<close>

function der_length_stack :: "nat \<Rightarrow> u8 list" where
  "der_length_stack n = (if n > 0 then word_of_nat (n mod 256) # der_length_stack (n div 256) else [])"
  by pat_completeness auto
termination by (relation "measure id") auto

declare der_length_stack.simps [simp del]

definition der_encode_definite_length :: "nat \<Rightarrow> u8 list" where
  "der_encode_definite_length len =
     (if len < 0x80 then [word_of_nat len]
      else let stack = rev (der_length_stack len)
           in (0x80 OR word_of_nat (length stack)) # stack)"

definition der_encode_tlv :: "u8 \<Rightarrow> u8 list \<Rightarrow> u8 list" where
  "der_encode_tlv tag content = tag # der_encode_definite_length (length content) @ content"

record DerTlv =
  tlv_tag :: u8
  tag_start :: nat
  value_start :: nat
  value_end :: nat

fun be_accumulate :: "nat \<Rightarrow> u8 list \<Rightarrow> nat" where
  "be_accumulate len [] = len"
| "be_accumulate len (b # bs) = be_accumulate (len * 256 + unat b) bs"

definition parse_der_definite_length :: "u8 list \<Rightarrow> (nat \<times> nat) option" where
  "parse_der_definite_length bytes = (case bytes of [] \<Rightarrow> None | first # rest \<Rightarrow>
     if first AND 0x80 = 0 then Some (unat first, 1)
     else let n_octets = unat (first AND 0x7f) in
       if n_octets = 0 \<or> n_octets > 4 \<or> length bytes < 1 + n_octets then None
       else Some (be_accumulate 0 (take n_octets rest), 1 + n_octets))"

definition tlv_outer_sequence_payload :: "u8 list \<Rightarrow> u8 list option" where
  "tlv_outer_sequence_payload data = (case data of [] \<Rightarrow> None | first # rest \<Rightarrow>
     if first \<noteq> 0x30 then None
     else case parse_der_definite_length rest of None \<Rightarrow> None | Some (len, hdr) \<Rightarrow>
       let total = 1 + hdr + len in
       if length data < total then None else Some (sub data (1 + hdr) len))"

definition pkcs7_content_info_signed_data :: "u8 list \<Rightarrow> u8 list" where
  "pkcs7_content_info_signed_data signed_data_der =
     (let explicit = 0xA0 # der_encode_definite_length (length signed_data_der) @ signed_data_der;
          inner_len = length PKCS7_SIGNED_DATA_OID_DER + length explicit
      in 0x30 # der_encode_definite_length inner_len @ PKCS7_SIGNED_DATA_OID_DER @ explicit)"

definition der_tlv_at :: "u8 list \<Rightarrow> nat \<Rightarrow> nat \<Rightarrow> DerTlv option" where
  "der_tlv_at data offset limit =
     (if limit \<le> offset \<or> length data < limit then None
      else case parse_der_definite_length (sub data (offset + 1) (limit - (offset + 1))) of
        None \<Rightarrow> None
      | Some (len, hdr) \<Rightarrow>
          let value_start = offset + 1 + hdr in
          (case checked_add_usize value_start len of None \<Rightarrow> None | Some vend \<Rightarrow>
            if limit < vend then None
            else Some \<lparr>tlv_tag = data ! offset, tag_start = offset,
                       value_start = value_start, value_end = vend\<rparr>))"

lemma der_tlv_at_end: "der_tlv_at data offset limit = Some t \<Longrightarrow> offset < value_end t \<and> value_end t \<le> limit"
  by (auto simp: der_tlv_at_def Let_def checked_add_usize_Some split: if_splits option.splits)

function der_tlv_children :: "u8 list \<Rightarrow> nat \<Rightarrow> nat \<Rightarrow> DerTlv list option" where
  "der_tlv_children data offset end =
     (if offset < end then
        (case der_tlv_at data offset end of None \<Rightarrow> None
         | Some tlv \<Rightarrow> map_option ((#) tlv) (der_tlv_children data (value_end tlv) end))
      else if offset = end then Some [] else None)"
  by pat_completeness auto
termination
  by (relation "measure (\<lambda>(data, offset, end). end - offset)") (auto dest: der_tlv_at_end)

declare der_tlv_children.simps [simp del]

definition replace_child_tlv :: "DerTlv \<Rightarrow> DerTlv \<Rightarrow> u8 list \<Rightarrow> u8 list \<Rightarrow> u8 list" where
  "replace_child_tlv parent child replacement data =
     der_encode_tlv (tlv_tag parent)
       (sub data (value_start parent) (tag_start child - value_start parent) @ replacement @
        sub data (value_end child) (value_end parent - value_end child))"

text \<open>The loop over the certificates: the unique encodings, the kept content, and the flag.\<close>

fun dedupe_loop :: "u8 list \<Rightarrow> DerTlv list \<Rightarrow> u8 list list \<Rightarrow> u8 list \<Rightarrow> bool \<Rightarrow> u8 list \<times> bool" where
  "dedupe_loop data [] unique content removed = (content, removed)"
| "dedupe_loop data (child # rest) unique content removed =
     (let encoded = sub data (tag_start child) (value_end child - tag_start child) in
      if encoded \<in> set unique then dedupe_loop data rest unique content True
      else dedupe_loop data rest (unique @ [encoded]) (content @ encoded) removed)"

definition list_get :: "'a list \<Rightarrow> nat \<Rightarrow> 'a option" where
  "list_get xs i = (if i < length xs then Some (xs ! i) else None)"

definition dedupe_signed_data_certificate_set :: "u8 list \<Rightarrow> u8 list option" where
  "dedupe_signed_data_certificate_set d =
     obind (der_tlv_at d 0 (length d)) (\<lambda>outer.
     if tlv_tag outer \<noteq> 0x30 then None
     else obind (der_tlv_children d (value_start outer) (value_end outer)) (\<lambda>outer_children.
     obind (list_get outer_children 0) (\<lambda>content_type.
     if sub d (tag_start content_type) (value_end content_type - tag_start content_type)
        \<noteq> PKCS7_SIGNED_DATA_OID_DER then None
     else obind (list_get outer_children 1) (\<lambda>explicit.
     if tlv_tag explicit \<noteq> 0xa0 then None
     else obind (der_tlv_children d (value_start explicit) (value_end explicit)) (\<lambda>explicit_children.
     obind (list_get explicit_children 0) (\<lambda>signed_data.
     if tlv_tag signed_data \<noteq> 0x30 then None
     else obind (der_tlv_children d (value_start signed_data) (value_end signed_data)) (\<lambda>signed_children.
     obind (find (\<lambda>child. tlv_tag child = 0xa0) (drop 3 signed_children)) (\<lambda>certificates.
     obind (der_tlv_children d (value_start certificates) (value_end certificates)) (\<lambda>certificate_children.
       let (cert_content, removed_duplicate) = dedupe_loop d certificate_children [] [] False in
       if \<not> removed_duplicate then None
       else let certificates_deduped = der_encode_tlv (tlv_tag certificates) cert_content;
                signed_data_deduped = replace_child_tlv signed_data certificates certificates_deduped d;
                explicit_deduped = replace_child_tlv explicit signed_data signed_data_deduped d
            in Some (replace_child_tlv outer explicit explicit_deduped d))))))))))"

definition der_tlv_total_len_from_start :: "u8 list \<Rightarrow> nat option" where
  "der_tlv_total_len_from_start data = (case data of [] \<Rightarrow> None | first # rest \<Rightarrow>
     if first \<noteq> 0x30 then None
     else map_option (\<lambda>(content_len, hdr). 1 + hdr + content_len) (parse_der_definite_length rest))"

definition pkcs7_outer_sequence_prefix :: "u8 list \<Rightarrow> u8 list option" where
  "pkcs7_outer_sequence_prefix data = obind (der_tlv_total_len_from_start data) (\<lambda>n. slice_get data 0 n)"

definition strip_pkcx_p7x_wrapper :: "u8 list \<Rightarrow> u8 list option" where
  "strip_pkcx_p7x_wrapper data =
     (if take 4 data = [0x50, 0x4b, 0x43, 0x58] then Some (drop 4 data) else None)"

definition normalize_pkcs7_der_for_authenticode :: "u8 list \<Rightarrow> u8 list" where
  "normalize_pkcs7_der_for_authenticode blob =
     (let sig_blob = (case strip_pkcx_p7x_wrapper blob of None \<Rightarrow> blob | Some b \<Rightarrow> b) in
      case tlv_outer_sequence_payload sig_blob of None \<Rightarrow> sig_blob
      | Some inner \<Rightarrow>
          let normalized = (case inner of
                [] \<Rightarrow> sig_blob
              | b # _ \<Rightarrow> if b = 0x06 then sig_blob
                         else if b = 0x02 then pkcs7_content_info_signed_data sig_blob else sig_blob)
          in case dedupe_signed_data_certificate_set normalized of
               Some deduped \<Rightarrow> deduped | None \<Rightarrow> normalized)"

section \<open>Length octets\<close>

lemma der_length_stack_facts:
  "n < 256 ^ k \<Longrightarrow> length (der_length_stack n) \<le> k \<and> le_nat (der_length_stack n) = n"
proof (induction k arbitrary: n)
  case (Suc k)
  have "n div 256 < 256 ^ k" using Suc.prems by (simp add: div_less_iff_less_mult mult.commute)
  note ih = Suc.IH [OF this]
  show ?case
    using ih by (subst (1 2) der_length_stack.simps) simp
qed (simp add: der_length_stack.simps)

lemma be_accumulate_append: "be_accumulate a (xs @ [b]) = be_accumulate a xs * 256 + unat b"
  by (induction a xs rule: be_accumulate.induct) simp_all

lemma be_accumulate_rev: "be_accumulate 0 (rev bs) = le_nat bs"
  by (induction bs) (simp_all add: be_accumulate_append)

lemma length_octet:
  assumes "1 \<le> k" "k \<le> 4"
  shows "(0x80 OR word_of_nat k :: u8) AND 0x80 \<noteq> 0" "unat ((0x80 OR word_of_nat k :: u8) AND 0x7f) = k"
proof -
  from assms have "k = 1 \<or> k = 2 \<or> k = 3 \<or> k = 4" by linarith
  then show "(0x80 OR word_of_nat k :: u8) AND 0x80 \<noteq> 0" "unat ((0x80 OR word_of_nat k :: u8) AND 0x7f) = k"
    by auto
qed

lemma short_octet:
  assumes "n < 0x80"
  shows "(word_of_nat n :: u8) AND 0x80 = 0"
proof -
  have "\<not> bit (word_of_nat n :: u8) 7"
    using assms bit_unsigned_iff [of "word_of_nat n :: u8" 7, where 'a = nat]
    by (simp add: unat_of_nat bit_iff_odd)
  then have "(word_of_nat n :: u8) AND 2 ^ 7 = 0" by (simp only: and_exp_eq_0_iff_not_bit not_False_eq_True)
  then show ?thesis by simp
qed

lemma parse_encoded_length:
  assumes "n < 2 ^ 32"
  shows "parse_der_definite_length (der_encode_definite_length n @ rest) =
    Some (n, length (der_encode_definite_length n))"
proof (cases "n < 0x80")
  case True
  then show ?thesis
    using short_octet [OF True] by (simp add: parse_der_definite_length_def der_encode_definite_length_def unat_of_nat)
next
  case False
  let ?s = "der_length_stack n"
  have l: "length ?s \<le> 4" "le_nat ?s = n" using assms der_length_stack_facts [of n 4] by simp_all
  have ne: "?s \<noteq> []" using False l(2) by auto
  then have "1 \<le> length ?s" by (cases ?s) simp_all
  then show ?thesis
    using False l ne length_octet [of "length ?s"]
    by (simp add: parse_der_definite_length_def der_encode_definite_length_def be_accumulate_rev Let_def)
qed

interpretation wire_len: der_length "2 ^ 32" der_encode_definite_length parse_der_definite_length
proof
  show "n < 2 ^ 32 \<Longrightarrow> parse_der_definite_length (der_encode_definite_length n @ rest) =
    Some (n, length (der_encode_definite_length n))" for n rest by (rule parse_encoded_length)
  show "der_encode_definite_length n \<noteq> []" for n by (simp add: der_encode_definite_length_def Let_def)
qed

section \<open>Elements in context\<close>

type_synonym tlv = "u8 \<times> u8 list"

definition hdr :: "tlv \<Rightarrow> u8 list" where
  "hdr t = fst t # der_encode_definite_length (length (snd t))"

definition enc :: "tlv \<Rightarrow> u8 list" where
  "enc t = der_encode_tlv (fst t) (snd t)"

definition enc_all :: "tlv list \<Rightarrow> u8 list" where
  "enc_all ts = concat (map enc ts)"

lemma enc_eq: "enc t = hdr t @ snd t"
  by (simp add: enc_def hdr_def der_encode_tlv_def)

lemma enc_all_simps [simp]: "enc_all [] = []" "enc_all (t # ts) = enc t @ enc_all ts"
  "enc_all (ts @ us) = enc_all ts @ enc_all us"
  by (simp_all add: enc_all_def)

lemma enc_not_Nil [simp]: "enc t \<noteq> []"
  by (simp add: enc_eq hdr_def)

lemma enc_determines:
  assumes "length (snd t) < 2 ^ 32" "length (snd u) < 2 ^ 32" "enc t @ r = enc u @ q"
  shows "t = u \<and> r = q"
  using wire_len.tlv_prefix [of "fst t" "snd t" r "fst u" "snd u" q] assms
  by (simp add: enc_def der_encode_tlv_def wire_len.tlv_def prod_eq_iff)

text \<open>\<open>place a t\<close>: what the reader answers for the element \<open>t\<close> written at offset \<open>a\<close>.\<close>

definition place :: "nat \<Rightarrow> tlv \<Rightarrow> DerTlv" where
  "place a t = \<lparr>tlv_tag = fst t, tag_start = a, value_start = a + length (hdr t),
     value_end = a + length (enc t)\<rparr>"

fun places :: "nat \<Rightarrow> tlv list \<Rightarrow> DerTlv list" where
  "places a [] = []"
| "places a (t # ts) = place a t # places (a + length (enc t)) ts"

lemma place_simps [simp]: "tlv_tag (place a t) = fst t" "tag_start (place a t) = a"
  "value_start (place a t) = a + length (hdr t)" "value_end (place a t) = a + length (enc t)"
  by (simp_all add: place_def)

lemma length_hdr: "length (hdr t) = 1 + length (der_encode_definite_length (length (snd t)))"
  by (simp add: hdr_def)

lemma sub_middle: "sub (pre @ xs @ post) (length pre) (length xs) = xs"
  by (simp add: sub_def)

text \<open>Files and blobs of the model stay below the 64-bit address space.\<close>

lemma der_tlv_at_place:
  assumes d: "d = pre @ enc t @ post" and lim: "length pre + length (enc t) \<le> limit" "limit \<le> length d"
    and small: "length (snd t) < 2 ^ 32" "length d < 2 ^ 64"
  shows "der_tlv_at d (length pre) limit = Some (place (length pre) t)"
proof -
  let ?len = "der_encode_definite_length (length (snd t))"
  define rest where "rest = take (limit - (length pre + length (enc t))) post"
  have "sub d (length pre + 1) (limit - (length pre + 1)) = ?len @ snd t @ rest"
    using d lim by (simp add: sub_def rest_def enc_eq hdr_def add.assoc)
  then have p: "parse_der_definite_length (sub d (length pre + 1) (limit - (length pre + 1))) =
      Some (length (snd t), length ?len)"
    using parse_encoded_length [OF small(1)] by simp
  have "length pre < limit" using lim(1) by (simp add: enc_eq hdr_def)
  moreover have "d ! length pre = fst t" by (simp add: d enc_eq hdr_def)
  ultimately show ?thesis
    using lim small p by (simp add: der_tlv_at_def checked_add_usize_def Let_def place_def enc_eq hdr_def)
qed

lemma der_tlv_children_places:
  assumes "length d < 2 ^ 64" "\<forall>t\<in>set ts. length (snd t) < 2 ^ 32" "d = pre @ enc_all ts @ post"
  shows "der_tlv_children d (length pre) (length pre + length (enc_all ts)) = Some (places (length pre) ts)"
  using assms(2,3)
proof (induction ts arbitrary: pre)
  case (Cons t ts)
  have "der_tlv_at d (length pre) (length pre + length (enc_all (t # ts))) = Some (place (length pre) t)"
    using Cons.prems assms(1) by (intro der_tlv_at_place [of d pre t "enc_all ts @ post"]) simp_all
  moreover have "der_tlv_children d (length (pre @ enc t)) (length (pre @ enc t) + length (enc_all ts)) =
      Some (places (length (pre @ enc t)) ts)"
    using Cons.prems by (intro Cons.IH) simp_all
  moreover have "0 < length (enc t)" by simp
  ultimately show ?case
    by (subst der_tlv_children.simps) (simp add: add.assoc)
qed (simp add: der_tlv_children.simps)

lemma places_append: "places a (ts @ us) = places a ts @ places (a + length (enc_all ts)) us"
  by (induction ts arbitrary: a) (simp_all add: add.assoc)

lemma length_places [simp]: "length (places a ts) = length ts"
  by (induction ts arbitrary: a) simp_all

text \<open>Replacing one element of a constructed one.\<close>

lemma replace_child_place:
  assumes "d = pre @ enc (tag, enc_all (ts @ t # us)) @ post"
  shows "replace_child_tlv (place (length pre) (tag, enc_all (ts @ t # us)))
      (place (length pre + length (hdr (tag, enc_all (ts @ t # us))) + length (enc_all ts)) t) new d =
    der_encode_tlv tag (enc_all ts @ new @ enc_all us)"
proof -
  let ?h = "hdr (tag, enc_all (ts @ t # us))"
  have d: "d = (pre @ ?h) @ enc_all ts @ enc t @ enc_all us @ post"
    using assms by (simp add: enc_eq [of "(tag, _)"])
  have "sub d (length (pre @ ?h)) (length (enc_all ts)) = enc_all ts"
    unfolding d by (rule sub_middle)
  moreover have "sub d (length (pre @ ?h @ enc_all ts @ enc t)) (length (enc_all us)) = enc_all us"
    using sub_middle [of "pre @ ?h @ enc_all ts @ enc t" "enc_all us" post] by (simp add: d)
  ultimately show ?thesis
    by (simp add: replace_child_tlv_def enc_eq [of "(tag, _)"] add.assoc)
qed

section \<open>Duplicate certificates\<close>

text \<open>The reference: keep the first occurrence of every element.\<close>

fun keep_first :: "'a list \<Rightarrow> 'a list \<Rightarrow> 'a list" where
  "keep_first seen [] = []"
| "keep_first seen (x # xs) = (if x \<in> set seen then keep_first seen xs else x # keep_first (seen @ [x]) xs)"

lemma keep_first_facts:
  "set (keep_first seen xs) = set xs - set seen \<and> distinct (keep_first seen xs) \<and>
   length (keep_first seen xs) \<le> length xs"
proof (induction seen xs rule: keep_first.induct)
  case (2 seen x xs)
  then show ?case by (cases "x \<in> set seen") auto
qed simp

lemma keep_first_id: "keep_first seen xs = xs \<longleftrightarrow> distinct xs \<and> set xs \<inter> set seen = {}"
proof (induction seen xs rule: keep_first.induct)
  case (2 seen x xs)
  have "keep_first seen xs \<noteq> x # xs"
    using keep_first_facts [of seen xs] by (metis Suc_n_not_le_n length_Cons)
  then show ?case using 2 by auto
qed simp

definition small :: "tlv \<Rightarrow> bool" where
  "small t \<longleftrightarrow> length (snd t) < 2 ^ 32"

lemma enc_small_inject: "small t \<Longrightarrow> small u \<Longrightarrow> enc t = enc u \<longleftrightarrow> t = u"
  using enc_determines [of t u "[]" "[]"] by (auto simp: small_def)

lemma dedupe_loop_places:
  assumes "\<forall>t\<in>set (done @ cs). small t" "d = pre @ enc_all cs @ post"
  shows "dedupe_loop d (places (length pre) cs) (map enc done) content removed =
    (content @ enc_all (keep_first done cs), removed \<or> keep_first done cs \<noteq> cs)"
  using assms
proof (induction cs arbitrary: pre "done" content removed)
  case (Cons c cs)
  have w: "sub d (length pre) (length (enc c)) = enc c"
    using Cons.prems(2) sub_middle [of pre "enc c" "enc_all cs @ post"] by simp
  have mem: "enc c \<in> enc ` set done \<longleftrightarrow> c \<in> set done"
    using Cons.prems(1) by (auto simp: enc_small_inject)
  have "keep_first done cs \<noteq> c # cs"
    using keep_first_facts [of "done" cs] by (metis Suc_n_not_le_n length_Cons)
  then show ?case
    using Cons.prems w mem Cons.IH [of "done" "pre @ enc c" content True]
      Cons.IH [of "done @ [c]" "pre @ enc c" "content @ enc c" removed]
    by (simp add: Let_def)
qed simp

section \<open>The structure of a PKCS#7 blob\<close>

definition signed_data_oid :: tlv where
  "signed_data_oid = (0x06, [0x2A, 0x86, 0x48, 0x86, 0xF7, 0x0D, 0x01, 0x07, 0x02])"

text \<open>
  \<open>signed_data front certs rear\<close> is a SignedData element whose certificate set follows the
  elements \<open>front\<close>; \<open>content_info\<close> wraps it, with possible further elements on both levels.
\<close>

definition signed_data :: "tlv list \<Rightarrow> tlv list \<Rightarrow> tlv list \<Rightarrow> tlv" where
  "signed_data front certs rear = (0x30, enc_all (front @ (0xa0, enc_all certs) # rear))"

definition content_info :: "tlv list \<Rightarrow> tlv list \<Rightarrow> tlv list \<Rightarrow> tlv list \<Rightarrow> tlv list \<Rightarrow> tlv" where
  "content_info front certs rear more_e more_o =
     (0x30, enc_all ([signed_data_oid, (0xa0, enc_all ([signed_data front certs rear] @ more_e))] @ more_o))"

definition front_ok :: "tlv list \<Rightarrow> bool" where
  "front_ok front \<longleftrightarrow> 3 \<le> length front \<and> (\<forall>t\<in>set (drop 3 front). fst t \<noteq> 0xa0)"

lemma enc_oid: "enc signed_data_oid = PKCS7_SIGNED_DATA_OID_DER"
  by (simp add: signed_data_oid_def enc_def der_encode_tlv_def der_encode_definite_length_def
      PKCS7_SIGNED_DATA_OID_DER_def)

lemma length_enc_ge: "length (snd t) < length (enc t)"
  by (simp add: enc_eq hdr_def)

lemma enc_all_member: "t \<in> set ts \<Longrightarrow> length (enc t) \<le> length (enc_all ts)"
  by (induction ts) auto

lemma small_all: "length (enc_all ts) < 2 ^ 32 \<Longrightarrow> \<forall>t\<in>set ts. small t"
  unfolding small_def by (meson enc_all_member length_enc_ge order_less_le_trans less_trans)

lemma find_certificates:
  assumes "front_ok front"
  shows "find (\<lambda>c. tlv_tag c = 0xa0) (drop 3 (places a (front @ (0xa0, cs) # rear))) =
    Some (place (a + length (enc_all front)) (0xa0, cs))"
proof -
  have dr: "drop k (places a ts) = places (a + length (enc_all (take k ts))) (drop k ts)" if "k \<le> length ts" for k a ts
    using that
  proof (induction ts arbitrary: k a)
    case (Cons t ts)
    then show ?case by (cases k) (simp_all add: add.assoc)
  qed simp
  have fi: "find (\<lambda>c. tlv_tag c = 0xa0) (places b (ts @ (0xa0, cs) # rear)) =
      Some (place (b + length (enc_all ts)) (0xa0, cs))" if "\<forall>t\<in>set ts. fst t \<noteq> 0xa0" for b ts
    using that by (induction ts arbitrary: b) (simp_all add: add.assoc)
  have "length (enc_all (take 3 front)) + length (enc_all (drop 3 front)) = length (enc_all front)"
    using enc_all_simps(3) [of "take 3 front" "drop 3 front"] by (metis append_take_drop_id length_append)
  then show ?thesis
    using assms dr [of 3 "front @ (0xa0, cs) # rear" a] fi [of "drop 3 front"]
    by (simp add: front_ok_def add.assoc)
qed

lemma dedupe_content_info:
  assumes front: "front_ok front"
    and len: "length (enc (content_info front certs rear more_e more_o) @ trail) < 2 ^ 32"
  shows "dedupe_signed_data_certificate_set (enc (content_info front certs rear more_e more_o) @ trail) =
    (if distinct certs then None
     else Some (enc (content_info front (keep_first [] certs) rear more_e more_o)))"
proof -
  define ci where "ci = content_info front certs rear more_e more_o"
  define sd where "sd = signed_data front certs rear"
  define ex where "ex = (0xa0 :: u8, enc_all ([sd] @ more_e))"
  define cs where "cs = (0xa0 :: u8, enc_all certs)"
  let ?d = "enc ci @ trail"
  have ci: "ci = (0x30, enc_all ([signed_data_oid, ex] @ more_o))"
    and sd: "sd = (0x30, enc_all (front @ cs # rear))"
    by (simp_all add: ci_def sd_def ex_def cs_def content_info_def signed_data_def)
  define p1 where "p1 = hdr ci"
  define p2 where "p2 = p1 @ enc signed_data_oid @ hdr ex"
  define p3 where "p3 = p2 @ hdr sd"
  define p4 where "p4 = p3 @ enc_all front @ hdr cs"
  have d1: "?d = p1 @ enc_all ([signed_data_oid, ex] @ more_o) @ trail"
    by (simp add: enc_eq [of ci] p1_def) (simp add: ci)
  then have d2: "?d = p2 @ enc_all ([sd] @ more_e) @ enc_all more_o @ trail"
    by (simp add: p2_def enc_eq [of ex]) (simp add: ex_def)
  then have d3: "?d = p3 @ enc_all (front @ cs # rear) @ enc_all more_e @ enc_all more_o @ trail"
    by (simp add: p3_def enc_eq [of sd]) (simp add: sd)
  then have d4: "?d = p4 @ enc_all certs @ enc_all rear @ enc_all more_e @ enc_all more_o @ trail"
    by (simp add: p4_def enc_eq [of cs]) (simp add: cs_def)
  have big: "length ?d < 2 ^ 64" "length ?d < 2 ^ 32" using len by (simp_all add: ci_def)
  have parts: "length (enc_all ([signed_data_oid, ex] @ more_o)) < 2 ^ 32" "length (enc_all ([sd] @ more_e)) < 2 ^ 32"
    "length (enc_all (front @ cs # rear)) < 2 ^ 32" "length (enc_all certs) < 2 ^ 32"
    using big(2) arg_cong [OF d1, of length] arg_cong [OF d2, of length]
      arg_cong [OF d3, of length] arg_cong [OF d4, of length] by (simp_all only: length_append)
  note sm = parts [THEN small_all, unfolded small_def]
  have outer: "der_tlv_at ?d 0 (length ?d) = Some (place 0 ci)"
    using der_tlv_at_place [of ?d "[]" ci trail "length ?d"] big length_enc_ge [of ci] by simp
  have ch: "der_tlv_children ?d (length p1) (length p1 + length (enc_all ([signed_data_oid, ex] @ more_o)))
        = Some (places (length p1) ([signed_data_oid, ex] @ more_o))"
    "der_tlv_children ?d (length p2) (length p2 + length (enc_all ([sd] @ more_e)))
        = Some (places (length p2) ([sd] @ more_e))"
    "der_tlv_children ?d (length p3) (length p3 + length (enc_all (front @ cs # rear)))
        = Some (places (length p3) (front @ cs # rear))"
    "der_tlv_children ?d (length p4) (length p4 + length (enc_all certs)) = Some (places (length p4) certs)"
    using der_tlv_children_places [OF big(1) sm(1) d1] der_tlv_children_places [OF big(1) sm(2) d2]
      der_tlv_children_places [OF big(1) sm(3) d3] der_tlv_children_places [OF big(1) sm(4) d4] by blast+
  define tO where "tO = place 0 ci"
  define tE where "tE = place (length p1 + length (enc signed_data_oid)) ex"
  define tS where "tS = place (length p2) sd"
  define tC where "tC = place (length p3 + length (enc_all front)) cs"
  have le: "length (enc t) = length (hdr t) + length (snd t)" for t by (simp add: enc_eq)
  have fs: "fst ci = 0x30" "snd ci = enc_all ([signed_data_oid, ex] @ more_o)"
    "fst ex = 0xa0" "snd ex = enc_all ([sd] @ more_e)" "fst sd = 0x30" "snd sd = enc_all (front @ cs # rear)"
    "fst cs = 0xa0" "snd cs = enc_all certs"
    by (simp_all add: ci ex_def sd cs_def)
  have at: "tlv_tag tO = 0x30" "value_start tO = length p1"
    "value_end tO = length p1 + length (enc_all ([signed_data_oid, ex] @ more_o))"
    "tlv_tag tE = 0xa0" "value_start tE = length p2" "value_end tE = length p2 + length (enc_all ([sd] @ more_e))"
    "tlv_tag tS = 0x30" "value_start tS = length p3" "value_end tS = length p3 + length (enc_all (front @ cs # rear))"
    "tlv_tag tC = 0xa0" "value_start tC = length p4" "value_end tC = length p4 + length (enc_all certs)"
    unfolding tO_def tE_def tS_def tC_def p1_def p2_def p3_def p4_def
    by (simp_all add: le fs)
  have heads: "list_get (places (length p1) ([signed_data_oid, ex] @ more_o)) 0 = Some (place (length p1) signed_data_oid)"
    "list_get (places (length p1) ([signed_data_oid, ex] @ more_o)) 1 = Some tE"
    "list_get (places (length p2) ([sd] @ more_e)) 0 = Some tS"
    "find (\<lambda>c. tlv_tag c = 0xa0) (drop 3 (places (length p3) (front @ cs # rear))) = Some tC"
    using find_certificates [OF front, of "length p3" "enc_all certs" rear]
    by (simp_all add: list_get_def tE_def tS_def tC_def cs_def)
  have oid: "sub ?d (length p1) (length (enc signed_data_oid)) = PKCS7_SIGNED_DATA_OID_DER"
    using sub_middle [of p1 "enc signed_data_oid" "enc_all ([ex] @ more_o) @ trail"] d1 enc_oid by simp
  have loop: "dedupe_loop ?d (places (length p4) certs) [] [] False =
      (enc_all (keep_first [] certs), keep_first [] certs \<noteq> certs)"
    using dedupe_loop_places [of "[]" certs ?d p4 "enc_all rear @ enc_all more_e @ enc_all more_o @ trail" "[]" False]
      d4 sm(4) by (simp add: small_def)
  have r: "replace_child_tlv tS tC new ?d = der_encode_tlv 0x30 (enc_all front @ new @ enc_all rear)"
    "replace_child_tlv tE tS new ?d = der_encode_tlv 0xa0 (new @ enc_all more_e)"
    "replace_child_tlv tO tE new ?d = der_encode_tlv 0x30 (enc signed_data_oid @ new @ enc_all more_o)" for new
  proof -
    show "replace_child_tlv tS tC new ?d = der_encode_tlv 0x30 (enc_all front @ new @ enc_all rear)"
      using replace_child_place [of ?d p2 "0x30" front cs rear "enc_all more_e @ enc_all more_o @ trail" new] d2
      by (simp add: tS_def tC_def p3_def sd)
    show "replace_child_tlv tE tS new ?d = der_encode_tlv 0xa0 (new @ enc_all more_e)"
      using replace_child_place [of ?d "p1 @ enc signed_data_oid" "0xa0" "[]" sd more_e "enc_all more_o @ trail" new] d1
      by (simp add: tE_def tS_def p2_def ex_def add.assoc)
    show "replace_child_tlv tO tE new ?d = der_encode_tlv 0x30 (enc signed_data_oid @ new @ enc_all more_o)"
      using replace_child_place [of ?d "[]" "0x30" "[signed_data_oid]" ex more_o trail new]
      by (simp add: tO_def tE_def p1_def ci)
  qed
  show ?thesis
    unfolding dedupe_signed_data_certificate_set_def ci_def [symmetric] outer obind_simps tO_def [symmetric] at
      ch heads place_simps
    by (simp add: oid loop r keep_first_id at) (simp add: content_info_def signed_data_def enc_def)
qed

section \<open>Normalization\<close>

lemma outer_payload:
  assumes "fst t = 0x30" "length (snd t) < 2 ^ 32"
  shows "tlv_outer_sequence_payload (enc t @ trail) = Some (snd t)"
proof -
  have "parse_der_definite_length (der_encode_definite_length (length (snd t)) @ snd t @ trail) =
      Some (length (snd t), length (der_encode_definite_length (length (snd t))))"
    by (rule parse_encoded_length [OF assms(2)])
  then show ?thesis
    using assms(1) by (simp add: tlv_outer_sequence_payload_def enc_eq hdr_def Let_def sub_def)
qed

lemma not_pkcx: "fst t = 0x30 \<Longrightarrow> strip_pkcx_p7x_wrapper (enc t @ trail) = None"
  by (simp add: strip_pkcx_p7x_wrapper_def enc_eq hdr_def)

lemma normalize_content_info:
  assumes "front_ok front" "length (enc (content_info front certs rear more_e more_o)) < 2 ^ 32"
  shows "normalize_pkcs7_der_for_authenticode (enc (content_info front certs rear more_e more_o)) =
    enc (content_info front (keep_first [] certs) rear more_e more_o)"
proof -
  let ?c = "content_info front certs rear more_e more_o"
  have c: "fst ?c = 0x30" "\<exists>r. snd ?c = 0x06 # r"
    by (simp_all add: content_info_def signed_data_oid_def enc_eq [of "(6, _)"] hdr_def)
  have len: "length (snd ?c) < 2 ^ 32" using assms(2) length_enc_ge [of ?c] by simp
  have d: "dedupe_signed_data_certificate_set (enc ?c) =
      (if distinct certs then None else Some (enc (content_info front (keep_first [] certs) rear more_e more_o)))"
    using dedupe_content_info [OF assms(1), of certs rear more_e more_o "[]"] assms(2) by simp
  show ?thesis
  proof (cases "distinct certs")
    case True
    then have "keep_first [] certs = certs" by (simp add: keep_first_id)
    then show ?thesis
      using True c outer_payload [OF c(1) len, of "[]"] not_pkcx [OF c(1), of "[]"] d
      by (auto simp: normalize_pkcs7_der_for_authenticode_def)
  next
    case False
    then show ?thesis
      using c outer_payload [OF c(1) len, of "[]"] not_pkcx [OF c(1), of "[]"] d
      by (auto simp: normalize_pkcs7_der_for_authenticode_def)
  qed
qed

lemma wrap_signed_data:
  "pkcs7_content_info_signed_data (enc (signed_data front certs rear)) = enc (content_info front certs rear [] [])"
  by (simp add: pkcs7_content_info_signed_data_def content_info_def enc_oid Let_def)
    (simp add: enc_def [of "(0x30, PKCS7_SIGNED_DATA_OID_DER @ _)"] enc_def [of "(0xa0, _)"] der_encode_tlv_def)

lemma length_content_info:
  "length (enc (signed_data front certs rear)) < length (enc (content_info front certs rear [] []))"
  by (simp add: content_info_def enc_eq [of "(0x30, enc signed_data_oid @ _)"] hdr_def enc_eq [of "(0xa0, _)"])

lemma normalize_bare:
  assumes "front_ok front" "fst (hd front) = 0x02"
    and "length (enc (content_info front certs rear [] [])) < 2 ^ 32"
  shows "normalize_pkcs7_der_for_authenticode (enc (signed_data front certs rear)) =
    enc (content_info front (keep_first [] certs) rear [] [])"
proof -
  let ?s = "signed_data front certs rear"
  have "front \<noteq> []" using assms(1) by (auto simp: front_ok_def)
  then have c: "fst ?s = 0x30" "\<exists>r. snd ?s = 0x02 # r"
    using assms(2) by (auto simp: signed_data_def neq_Nil_conv enc_eq hdr_def)
  have len: "length (snd ?s) < 2 ^ 32"
    using assms(3) length_content_info [of front certs rear] length_enc_ge [of ?s] by linarith
  have d: "dedupe_signed_data_certificate_set (enc (content_info front certs rear [] [])) =
      (if distinct certs then None else Some (enc (content_info front (keep_first [] certs) rear [] [])))"
    using dedupe_content_info [OF assms(1), of certs rear "[]" "[]" "[]"] assms(3) by simp
  show ?thesis
  proof (cases "distinct certs")
    case True
    then have "keep_first [] certs = certs" by (simp add: keep_first_id)
    then show ?thesis
      using True c outer_payload [OF c(1) len, of "[]"] not_pkcx [OF c(1), of "[]"] d
      by (auto simp: normalize_pkcs7_der_for_authenticode_def wrap_signed_data)
  next
    case False
    then show ?thesis
      using c outer_payload [OF c(1) len, of "[]"] not_pkcx [OF c(1), of "[]"] d
      by (auto simp: normalize_pkcs7_der_for_authenticode_def wrap_signed_data)
  qed
qed

lemma normalize_pkcx:
  "fst t = 0x30 \<Longrightarrow> normalize_pkcs7_der_for_authenticode ([0x50, 0x4b, 0x43, 0x58] @ enc t) =
   normalize_pkcs7_der_for_authenticode (enc t)"
  using not_pkcx [of t "[]"] by (simp add: normalize_pkcs7_der_for_authenticode_def)
    (simp add: strip_pkcx_p7x_wrapper_def)

section \<open>Properties\<close>

text \<open>An element the code encodes reads back from any position of a buffer: the reader answers
  with its tag, and its value window is exactly the content (up to 4 GiB, the four length octets
  the reader accepts).\<close>

theorem der_tlv_round_trip:
  assumes "length content < 2 ^ 32" and "length (pre @ der_encode_tlv tag content @ post) < 2 ^ 64"
    and "length (pre @ der_encode_tlv tag content) \<le> limit"
    and "limit \<le> length (pre @ der_encode_tlv tag content @ post)"
  shows "\<exists>t. der_tlv_at (pre @ der_encode_tlv tag content @ post) (length pre) limit = Some t \<and>
    tlv_tag t = tag \<and> tag_start t = length pre \<and>
    value_end t = length (pre @ der_encode_tlv tag content) \<and>
    sub (pre @ der_encode_tlv tag content @ post) (value_start t) (value_end t - value_start t) = content"
proof -
  let ?t = "(tag, content)" and ?d = "pre @ der_encode_tlv tag content @ post"
  have e: "der_encode_tlv tag content = enc ?t" by (simp add: enc_def)
  have "der_tlv_at ?d (length pre) limit = Some (place (length pre) ?t)"
    using assms by (intro der_tlv_at_place [of ?d pre ?t post]) (simp_all add: e)
  moreover have "sub ?d (length pre + length (hdr ?t)) (length (enc ?t) - length (hdr ?t)) = content"
    using sub_middle [of "pre @ hdr ?t" content post] by (simp add: e enc_eq)
  ultimately show ?thesis by (simp add: e)
qed

theorem der_tlv_round_trip_witness:
  "\<exists>t. der_tlv_at ([0, 0] @ der_encode_tlv 4 (replicate 200 7) @ [1]) (length [0 :: u8, 0]) 206 = Some t \<and>
    tlv_tag t = 4 \<and>
    sub ([0, 0] @ der_encode_tlv 4 (replicate 200 7) @ [1]) (value_start t) (value_end t - value_start t) =
      replicate 200 7"
proof -
  have "length (der_length_stack 200) = 1" by (simp add: der_length_stack.simps)
  then have "length (der_encode_tlv 4 (replicate 200 7)) = 203"
    by (simp add: der_encode_tlv_def der_encode_definite_length_def)
  with der_tlv_round_trip [of "replicate 200 7" "[0, 0]" 4 "[1]" 206] show ?thesis by auto
qed

text \<open>C5: removing duplicate certificates refines a list operation on the structure of the blob: when
  the certificate set of a SignedData has duplicates, the result is the encoding of the same
  structure with the first occurrence of every certificate kept, in order, with every enclosing
  length recomputed and every other element untouched; without duplicates nothing is rewritten.\<close>

theorem dedupe_refines_keep_first:
  assumes "front_ok front"
    and "length (enc (content_info front certs rear more_e more_o) @ trail) < 2 ^ 32"
  shows "dedupe_signed_data_certificate_set (enc (content_info front certs rear more_e more_o) @ trail) =
    (if distinct certs then None
     else Some (enc (content_info front (keep_first [] certs) rear more_e more_o)))"
  by (rule dedupe_content_info [OF assms])

definition sample_front :: "tlv list" where
  "sample_front = [(2, [1]), (0x31, []), (0x30, [6, 1, 42])]"

lemma sample_front_ok: "front_ok sample_front" "fst (hd sample_front) = 2"
  by (simp_all add: front_ok_def sample_front_def)

lemma sample_lengths:
  "length (enc (content_info sample_front [(0x30, [1]), (0x30, [1])] [(0x31, [])] [] [])) < 2 ^ 32"
  by (simp add: content_info_def signed_data_def sample_front_def signed_data_oid_def enc_eq hdr_def
      der_encode_definite_length_def)

theorem dedupe_refines_keep_first_witness:
  "dedupe_signed_data_certificate_set
     (enc (content_info sample_front [(0x30, [1]), (0x30, [1])] [(0x31, [])] [] []) @ []) =
   Some (enc (content_info sample_front [(0x30, [1])] [(0x31, [])] [] []))"
  using dedupe_refines_keep_first [of sample_front "[(0x30, [1]), (0x30, [1])]" "[(0x31, [])]" "[]" "[]" "[]"]
    sample_front_ok sample_lengths by simp

text \<open>The three forms in which a blob reaches the verifier normalize to the same bytes: a
  ContentInfo, the bare SignedData inside it, and either behind a \<^verbatim>\<open>PKCX\<close> prefix give the
  ContentInfo without duplicate certificates; and normalizing that again changes nothing.\<close>

theorem normalize_forms_agree:
  assumes "front_ok front" and "fst (hd front) = 0x02"
    and "length (enc (content_info front certs rear [] [])) < 2 ^ 32"
    and "length (enc (content_info front (keep_first [] certs) rear [] [])) < 2 ^ 32"
  shows "let n = enc (content_info front (keep_first [] certs) rear [] []) in
    normalize_pkcs7_der_for_authenticode (enc (content_info front certs rear [] [])) = n \<and>
    normalize_pkcs7_der_for_authenticode (enc (signed_data front certs rear)) = n \<and>
    normalize_pkcs7_der_for_authenticode ([0x50, 0x4b, 0x43, 0x58] @ enc (content_info front certs rear [] [])) = n \<and>
    normalize_pkcs7_der_for_authenticode ([0x50, 0x4b, 0x43, 0x58] @ enc (signed_data front certs rear)) = n \<and>
    normalize_pkcs7_der_for_authenticode n = n"
proof -
  have f: "fst (content_info front certs rear [] []) = 0x30" "fst (signed_data front certs rear) = 0x30"
    by (simp_all add: content_info_def signed_data_def)
  have "keep_first [] (keep_first [] certs) = keep_first [] certs"
    using keep_first_facts [of "[]" certs] by (simp add: keep_first_id)
  then show ?thesis
    using normalize_content_info [OF assms(1,3)] normalize_content_info [OF assms(1,4)]
      normalize_bare [OF assms(1-3)] normalize_pkcx [OF f(1)] normalize_pkcx [OF f(2)]
    by (simp add: Let_def)
qed

theorem normalize_forms_agree_witness:
  "normalize_pkcs7_der_for_authenticode
     (enc (signed_data sample_front [(0x30, [1]), (0x30, [1])] [(0x31, [])])) =
   enc (content_info sample_front [(0x30, [1])] [(0x31, [])] [] [])"
proof -
  have "length (enc (content_info sample_front (keep_first [] [(0x30, [1]), (0x30, [1])]) [(0x31, [])] [] [])) < 2 ^ 32"
    by (simp add: content_info_def signed_data_def sample_front_def signed_data_oid_def enc_eq hdr_def
        der_encode_definite_length_def)
  from normalize_forms_agree [OF sample_front_ok sample_lengths this] show ?thesis by (simp add: Let_def)
qed

end
