(* ===== verification/Page_Hashes.thy ===== *)
theory Page_Hashes
  imports Pe_Digest
begin

text \<open>
  Model of \<^verbatim>\<open>crates/psign-sip-digest/src/page_hashes.rs\<close>: extraction of the page-hash attributes
  from the PKCS#7 rows of an image, peeling of their DER wrappers, the flat table, and the check of
  the table against the raw file.

  The crates \<^verbatim>\<open>der\<close> and \<^verbatim>\<open>cms\<close> are the record \<open>der_lib\<close>: header, octet string and object
  identifier decoding (each answers with what it read and the rest of the input), and the decoded
  PKCS#7 structures as far as the code looks into them.
\<close>

type_synonym oid = "nat list"

definition ID_SIGNED_DATA :: oid where "ID_SIGNED_DATA = [1, 2, 840, 113549, 1, 7, 2]"
definition OID_PE_PAGE_HASHES_V1 :: oid where "OID_PE_PAGE_HASHES_V1 = [1, 3, 6, 1, 4, 1, 311, 2, 3, 1]"
definition OID_PE_PAGE_HASHES_V2 :: oid where "OID_PE_PAGE_HASHES_V2 = [1, 3, 6, 1, 4, 1, 311, 2, 3, 2]"

datatype PageHashAttrKind = V1 | V2

record PageHashAttrValue =
  attr_kind :: PageHashAttrKind
  value_der :: "u8 list"

record PePageHashAttrLocation =
  pkcs7_index :: nat
  signer_index :: nat
  location_values :: "PageHashAttrValue list"

record PageHashTableEntry =
  page_end_offset :: u32
  entry_digest :: "u8 list"

record signer_info =
  signed_attrs :: "(oid \<times> u8 list list) list option"

record der_lib =
  der_slice_ok :: "u8 list \<Rightarrow> bool"
  der_header :: "u8 list \<Rightarrow> (u8 \<times> nat \<times> u8 list) option"
  der_octet_string :: "u8 list \<Rightarrow> (u8 list \<times> u8 list) option"
  der_oid :: "u8 list \<Rightarrow> (oid \<times> u8 list) option"
  cms_content_info :: "u8 list \<Rightarrow> (oid \<times> u8 list) option"
  cms_signed_data :: "u8 list \<Rightarrow> signer_info list option"

fun digest_byte_len_for_page_hash_attr :: "PageHashAttrKind \<Rightarrow> nat" where
  "digest_byte_len_for_page_hash_attr V1 = 20"
| "digest_byte_len_for_page_hash_attr V2 = 32"

text \<open>\<^verbatim>\<open>SliceReader::new\<close> and \<^verbatim>\<open>read_slice\<close>: the next \<open>n\<close> bytes, and the bytes behind them.\<close>

definition slice_reader :: "der_lib \<Rightarrow> u8 list \<Rightarrow> string \<Rightarrow> u8 list res" where
  "slice_reader D data msg = (if der_slice_ok D data then Inr data else bail msg)"

definition read_slice :: "u8 list \<Rightarrow> nat \<Rightarrow> (u8 list \<times> u8 list) res" where
  "read_slice r n = (if n \<le> length r then Inr (take n r, drop n r) else bail ''der'')"

definition try_spc_serialized_object_data :: "der_lib \<Rightarrow> u8 list \<Rightarrow> u8 list option res" where
  "try_spc_serialized_object_data D seq_der =
     (if seq_der = [] \<or> hd seq_der \<noteq> 0x30 then Inr None
      else rbind (slice_reader D seq_der ''invalid DER slice'') (\<lambda>r.
        rbind (ok_or (der_header D r) ''der'') (\<lambda>(tag, len, r).
        if tag \<noteq> 0x30 then Inr None
        else rbind (read_slice r len) (\<lambda>(body, _).
          rbind (slice_reader D body ''inner DER slice'') (\<lambda>inner.
          rbind (ok_or (der_octet_string D inner) ''der'') (\<lambda>(class_id, inner).
          if length class_id \<noteq> 16 then Inr None
          else rbind (ok_or (der_octet_string D inner) ''der'') (\<lambda>(serialized, _).
            Inr (Some serialized))))))))"

text \<open>
  The loop over the members of the SET. \<open>fuel\<close> is the length of its body: every member header
  takes at least one byte (\<open>set_members_fuel\<close>).
\<close>

fun set_members :: "der_lib \<Rightarrow> nat \<Rightarrow> u8 list \<Rightarrow> u8 list \<Rightarrow> u8 list res" where
  "set_members D 0 sr acc = (if sr = [] then Inr acc else bail ''no progress'')"
| "set_members D (Suc fuel) sr acc =
     (if sr = [] then Inr acc
      else rbind (ok_or (der_header D sr) ''der'') (\<lambda>(tag, len, sr).
        if tag \<noteq> 0x30 then bail ''SET OF member is not SEQUENCE''
        else rbind (read_slice sr len) (\<lambda>(seq_body, sr).
          rbind (slice_reader D seq_body ''SEQUENCE body'') (\<lambda>qr.
          rbind (ok_or (der_oid D qr) ''der'') (\<lambda>(_, qr).
          rbind (ok_or (der_octet_string D qr) ''der'') (\<lambda>(oct, _).
            set_members D fuel sr (acc @ oct)))))))"

definition concat_octets_from_set_of_type_and_optional_value :: "der_lib \<Rightarrow> u8 list \<Rightarrow> u8 list res" where
  "concat_octets_from_set_of_type_and_optional_value D data =
     (if data = [] \<or> hd data \<noteq> 0x31 then Inr data
      else rbind (slice_reader D data ''invalid DER slice'') (\<lambda>r.
        rbind (ok_or (der_header D r) ''der'') (\<lambda>(tag, len, r).
        if tag \<noteq> 0x31 then Inr data
        else rbind (read_slice r len) (\<lambda>(set_body, _).
          rbind (slice_reader D set_body ''SET body slice'') (\<lambda>sr.
            set_members D (length sr) sr [])))))"

text \<open>The peeling loop: at most eight layers, then \<^verbatim>\<open>break\<close>.\<close>

fun peel_loop :: "der_lib \<Rightarrow> nat \<Rightarrow> u8 list \<Rightarrow> u8 list res" where
  "peel_loop D 0 cur = Inr cur"
| "peel_loop D (Suc n) cur =
     (if cur = [] then bail ''empty page-hash attribute payload''
      else if hd cur = 0x04 then
        rbind (slice_reader D cur ''OCTET STRING slice'') (\<lambda>rd.
        rbind (ok_or (der_octet_string D rd) ''der'') (\<lambda>(oct, _). peel_loop D n oct))
      else if hd cur = 0x30 then
        rbind (try_spc_serialized_object_data D cur) (\<lambda>inner. case inner of
          Some i \<Rightarrow> peel_loop D n i | None \<Rightarrow> Inr cur)
      else Inr cur)"

definition peel_authenticode_page_hash_attribute_payload :: "der_lib \<Rightarrow> u8 list \<Rightarrow> u8 list res" where
  "peel_authenticode_page_hash_attribute_payload D value =
     rbind (peel_loop D 8 value) (concat_octets_from_set_of_type_and_optional_value D)"

section \<open>The flat table\<close>

definition all_zero :: "u8 list \<Rightarrow> bool" where "all_zero bs \<longleftrightarrow> (\<forall>b\<in>set bs. b = 0)"

text \<open>The \<^verbatim>\<open>while\<close> loop with its position and the rows read so far.\<close>

function flat_loop :: "u8 list \<Rightarrow> nat \<Rightarrow> nat \<Rightarrow> PageHashTableEntry list \<Rightarrow> nat \<times> PageHashTableEntry list" where
  "flat_loop data digest_len i out =
     (if i + 4 + digest_len \<le> length data then
        let page_end = u32_from_le (sub data i 4);
            digest = sub data (i + 4) digest_len;
            i' = i + (4 + digest_len)
        in if all_zero digest then (i', out)
           else flat_loop data digest_len i' (out @ [\<lparr>page_end_offset = page_end, entry_digest = digest\<rparr>])
      else (i, out))"
  by pat_completeness auto
termination by (relation "measure (\<lambda>(data, _, i, _). length data - i)") auto

declare flat_loop.simps [simp del]

definition parse_page_hash_flat_pairs_le :: "u8 list \<Rightarrow> nat \<Rightarrow> PageHashTableEntry list res" where
  "parse_page_hash_flat_pairs_le data digest_len =
     (if digest_len = 0 then bail ''digest_len must be non-zero''
      else let (i, out) = flat_loop data digest_len 0 [] in
        if i < length data \<and> \<not> all_zero (drop i data)
        then bail ''trailing bytes after PE page-hash table'' else Inr out)"

definition parse_page_hash_attribute_entries ::
  "der_lib \<Rightarrow> u8 list \<Rightarrow> PageHashAttrKind \<Rightarrow> PageHashTableEntry list res" where
  "parse_page_hash_attribute_entries D value kind =
     rbind (peel_authenticode_page_hash_attribute_payload D value) (\<lambda>flat.
       parse_page_hash_flat_pairs_le flat (digest_byte_len_for_page_hash_attr kind))"

section \<open>The contiguous check\<close>

fun page_hash_fn :: "hash_fn \<Rightarrow> PageHashAttrKind \<Rightarrow> u8 list \<Rightarrow> u8 list" where
  "page_hash_fn H V1 = H Sha1"
| "page_hash_fn H V2 = H Sha256"

fun contiguous_loop ::
  "hash_fn \<Rightarrow> u8 list \<Rightarrow> PageHashAttrKind \<Rightarrow> nat \<Rightarrow> PageHashTableEntry list \<Rightarrow> unit res" where
  "contiguous_loop H img kind start [] = Inr ()"
| "contiguous_loop H img kind start (e # es) =
     (if length (entry_digest e) \<noteq> digest_byte_len_for_page_hash_attr kind
      then bail ''page-hash digest length does not match expectation''
      else let end = unat (page_end_offset e) in
        if length img < end then bail ''page_end_offset exceeds PE image length''
        else if end \<le> start then bail ''non-increasing or empty page-hash range''
        else rbind (slice_idx img start end) (\<lambda>slice.
          if page_hash_fn H kind slice \<noteq> entry_digest e
          then bail ''page-hash digest mismatch for file range''
          else contiguous_loop H img kind end es))"

definition verify_page_hash_entries_contiguous_file_offsets ::
  "hash_fn \<Rightarrow> u8 list \<Rightarrow> PageHashTableEntry list \<Rightarrow> PageHashAttrKind \<Rightarrow> unit res" where
  "verify_page_hash_entries_contiguous_file_offsets H pe_image entries kind =
     contiguous_loop H pe_image kind 0 (sort_key page_end_offset entries)"

section \<open>Attributes of the embedded blobs\<close>

definition decode_signed_data :: "der_lib \<Rightarrow> u8 list \<Rightarrow> signer_info list res" where
  "decode_signed_data D pkcs7_der =
     rbind (slice_reader D pkcs7_der ''PKCS#7 empty'') (\<lambda>r.
     rbind (ok_or (cms_content_info D r) ''PKCS#7 ContentInfo'') (\<lambda>(content_type, content).
     if content_type \<noteq> ID_SIGNED_DATA then bail ''PKCS#7 root content type is not SignedData''
     else ok_or (cms_signed_data D content) ''SignedData''))"

definition page_hash_kind :: "oid \<Rightarrow> PageHashAttrKind option" where
  "page_hash_kind oid' = (if oid' = OID_PE_PAGE_HASHES_V1 then Some V1
     else if oid' = OID_PE_PAGE_HASHES_V2 then Some V2 else None)"

fun page_hash_row :: "(oid \<times> u8 list list) list \<Rightarrow> PageHashAttrValue list" where
  "page_hash_row [] = []"
| "page_hash_row ((oid', vals) # attrs) = (case page_hash_kind oid' of
     None \<Rightarrow> page_hash_row attrs
   | Some k \<Rightarrow> map (\<lambda>v. \<lparr>attr_kind = k, value_der = v\<rparr>) vals @ page_hash_row attrs)"

definition page_hash_values_from_signed_data :: "signer_info list \<Rightarrow> PageHashAttrValue list list" where
  "page_hash_values_from_signed_data sd =
     map (\<lambda>si. case signed_attrs si of None \<Rightarrow> [] | Some attrs \<Rightarrow> page_hash_row attrs) sd"

definition WIN_CERT_PKCS :: u16 where "WIN_CERT_PKCS = 2"

definition locations_of :: "nat \<Rightarrow> PageHashAttrValue list list \<Rightarrow> PePageHashAttrLocation list" where
  "locations_of idx rows =
     concat (map (\<lambda>(signer, vals). if vals = [] then []
        else [\<lparr>pkcs7_index = idx, signer_index = signer, location_values = vals\<rparr>]) (enumerate 0 rows))"

fun collect_loop ::
  "der_lib \<Rightarrow> nat \<Rightarrow> attribute_certificate option list \<Rightarrow> PePageHashAttrLocation list \<Rightarrow>
   PePageHashAttrLocation list res" where
  "collect_loop D idx [] out = Inr out"
| "collect_loop D idx (entry # rest) out =
     rbind (ok_or entry ''attribute certificate entry invalid'') (\<lambda>attr.
       if certificate_type attr \<noteq> WIN_CERT_PKCS then collect_loop D (idx + 1) rest out
       else case decode_signed_data D (ac_data attr) of
         Inl _ \<Rightarrow> collect_loop D (idx + 1) rest out
       | Inr sd \<Rightarrow> collect_loop D (idx + 1) rest
                    (out @ locations_of idx (page_hash_values_from_signed_data sd)))"

definition pe_collect_page_hash_auth_attributes ::
  "pe_lib \<Rightarrow> der_lib \<Rightarrow> u8 list \<Rightarrow> PePageHashAttrLocation list res" where
  "pe_collect_page_hash_auth_attributes L D bytes =
     rbind (ParsedPe_parse L bytes) (\<lambda>pe.
     rbind (ok_or (lib_certificates L pe) ''certificate table invalid'') (\<lambda>table. case table of
       None \<Rightarrow> Inr [] | Some entries \<Rightarrow> collect_loop D 0 entries []))"

fun verify_values ::
  "der_lib \<Rightarrow> hash_fn \<Rightarrow> u8 list \<Rightarrow> PageHashAttrValue list \<Rightarrow> bool \<Rightarrow> bool res" where
  "verify_values D H img [] verified = Inr verified"
| "verify_values D H img (v # vs) verified =
     rbind (parse_page_hash_attribute_entries D (value_der v) (attr_kind v)) (\<lambda>entries.
       if entries = [] then verify_values D H img vs verified
       else rbind (verify_page_hash_entries_contiguous_file_offsets H img entries (attr_kind v)) (\<lambda>_.
         verify_values D H img vs True))"

definition verify_pe_embedded_page_hash_tables ::
  "pe_lib \<Rightarrow> der_lib \<Rightarrow> hash_fn \<Rightarrow> u8 list \<Rightarrow> unit res" where
  "verify_pe_embedded_page_hash_tables L D H pe_image =
     rbind (pe_collect_page_hash_auth_attributes L D pe_image) (\<lambda>locs.
     if locs = [] then bail ''no CMS signed_attributes carrying SPC_PE_IMAGE_PAGE_HASHES''
     else rbind (verify_values D H pe_image (concat (map location_values locs)) False) (\<lambda>verified_table.
       if \<not> verified_table then bail ''PE page-hash attributes present but no non-empty parsable tables''
       else Inr ()))"

definition SPC_PE_IMAGE_PAGE_HASHES_V1_OID_DER :: "u8 list" where
  "SPC_PE_IMAGE_PAGE_HASHES_V1_OID_DER = [0x06, 0x0A, 0x2B, 0x06, 0x01, 0x04, 0x01, 0x82, 0x37, 0x02, 0x03, 0x01]"

definition SPC_PE_IMAGE_PAGE_HASHES_V2_OID_DER :: "u8 list" where
  "SPC_PE_IMAGE_PAGE_HASHES_V2_OID_DER = [0x06, 0x0A, 0x2B, 0x06, 0x01, 0x04, 0x01, 0x82, 0x37, 0x02, 0x03, 0x02]"

fun windows_match :: "u8 list \<Rightarrow> u8 list \<Rightarrow> bool" where
  "windows_match [] pat = (pat = [])"
| "windows_match (b # bs) pat = (take (length pat) (b # bs) = pat \<or> windows_match bs pat)"

definition contains_oid_tlv :: "u8 list \<Rightarrow> u8 list \<Rightarrow> bool" where
  "contains_oid_tlv haystack oid_tlv = windows_match haystack oid_tlv"

definition pkcs7_signed_data_contains_page_hash_oid :: "u8 list \<Rightarrow> bool" where
  "pkcs7_signed_data_contains_page_hash_oid pkcs7_der \<longleftrightarrow>
     contains_oid_tlv pkcs7_der SPC_PE_IMAGE_PAGE_HASHES_V1_OID_DER \<or>
     contains_oid_tlv pkcs7_der SPC_PE_IMAGE_PAGE_HASHES_V2_OID_DER"

fun contains_loop :: "der_lib \<Rightarrow> attribute_certificate option list \<Rightarrow> bool res" where
  "contains_loop D [] = Inr False"
| "contains_loop D (entry # rest) =
     rbind (ok_or entry ''attribute certificate entry invalid'') (\<lambda>attr.
       if certificate_type attr \<noteq> WIN_CERT_PKCS then contains_loop D rest
       else if (case decode_signed_data D (ac_data attr) of
                  Inl _ \<Rightarrow> False
                | Inr sd \<Rightarrow> \<exists>row\<in>set (page_hash_values_from_signed_data sd). row \<noteq> [])
       then Inr True
       else if pkcs7_signed_data_contains_page_hash_oid (ac_data attr) then Inr True
       else contains_loop D rest)"

definition pe_embedded_pkcs7_contains_page_hash_attribute :: "pe_lib \<Rightarrow> der_lib \<Rightarrow> u8 list \<Rightarrow> bool res" where
  "pe_embedded_pkcs7_contains_page_hash_attribute L D bytes =
     rbind (ParsedPe_parse L bytes) (\<lambda>pe.
     rbind (ok_or (lib_certificates L pe) ''certificate table invalid'') (\<lambda>table. case table of
       None \<Rightarrow> Inr False | Some entries \<Rightarrow> contains_loop D entries))"

section \<open>Lemmas\<close>

text \<open>The SET loop never runs out of fuel when decoding a header consumes input.\<close>

definition der_progress :: "der_lib \<Rightarrow> bool" where
  "der_progress D \<longleftrightarrow> (\<forall>r tag len rest. der_header D r = Some (tag, len, rest) \<longrightarrow> length rest < length r)"

lemma set_members_fuel:
  assumes "der_progress D" "length sr \<le> fuel"
  shows "set_members D fuel sr acc \<noteq> bail ''no progress'' \<and> set_members D fuel sr acc = set_members D (length sr) sr acc"
  using assms(2)
proof (induction fuel arbitrary: sr acc rule: less_induct)
  case (less fuel)
  show ?case
  proof (cases "sr = []")
    case True
    then show ?thesis by (cases fuel) simp_all
  next
    case False
    then obtain f m where f: "fuel = Suc f" "length sr = Suc m" "m \<le> f"
      using less.prems by (cases fuel; cases "length sr") auto
    have step: "set_members D f rest acc' \<noteq> bail ''no progress'' \<and> set_members D f rest acc' = set_members D m rest acc'"
      if h: "der_header D sr = Some (tag, len, r)" "read_slice r len = Inr (b, rest)" for tag len r b rest acc'
    proof -
      have "length rest \<le> m"
        using h assms(1) f by (auto simp: der_progress_def read_slice_def split: if_splits)
          (metis diff_le_self less_Suc_eq_le order_trans)
      then have "f < fuel" "length rest \<le> f" "m < fuel" "length rest \<le> m" using f by simp_all
      then show ?thesis using less.IH [of f rest acc'] less.IH [of m rest acc'] by metis
    qed
    show ?thesis
    proof (cases "der_header D sr")
      case (Some h)
      obtain tag len r where h: "h = (tag, len, r)" by (metis prod_cases3)
      have "set_members D m (drop len r) a \<noteq> bail ''no progress''"
        and "set_members D f (drop len r) a = set_members D m (drop len r) a" if "len \<le> length r" for a
        using step [OF Some [unfolded h], of "take len r" "drop len r" a] that unfolding read_slice_def by metis+
      then show ?thesis
        using False f Some h
        by (auto simp: slice_reader_def rbind_Inl_iff ok_or_Inl_iff read_slice_def
            split: prod.splits if_splits intro!: rbind_cong)
    qed (use False f in simp)
  qed
qed

section \<open>Properties\<close>

definition flat_table :: "PageHashTableEntry list \<Rightarrow> u8 list" where
  "flat_table es = concat (map (\<lambda>e. u32_to_le (page_end_offset e) @ entry_digest e) es)"

lemma flat_table_simps [simp]: "flat_table [] = []"
  "flat_table (e # es) = u32_to_le (page_end_offset e) @ entry_digest e @ flat_table es"
  by (simp_all add: flat_table_def)

lemma flat_loop_table:
  assumes "\<forall>e\<in>set es. length (entry_digest e) = n \<and> \<not> all_zero (entry_digest e)"
  shows "flat_loop (pre @ flat_table es @ tail) n (length pre) out =
    flat_loop (pre @ flat_table es @ tail) n (length (pre @ flat_table es)) (out @ es)"
  using assms
proof (induction es arbitrary: pre out)
  case (Cons e es)
  let ?w = "u32_to_le (page_end_offset e)" and ?d = "pre @ flat_table (e # es) @ tail"
  have n: "length (entry_digest e) = n" "\<not> all_zero (entry_digest e)" using Cons.prems by simp_all
  have s: "sub ?d (length pre) 4 = ?w" "sub ?d (length pre + 4) n = entry_digest e"
    using n(1) by (simp_all add: sub_def)
  have r: "\<lparr>page_end_offset = page_end_offset e, entry_digest = entry_digest e\<rparr> = e" by simp
  have "flat_loop ?d n (length pre) out =
      flat_loop ?d n (length (pre @ ?w @ entry_digest e)) (out @ [e])"
    using n s by (subst flat_loop.simps) (simp add: Let_def r)
  also have "\<dots> = flat_loop ?d n (length (pre @ flat_table (e # es))) (out @ e # es)"
    using Cons.IH [of "pre @ ?w @ entry_digest e" "out @ [e]"] Cons.prems by simp
  finally show ?case .
qed simp

text \<open>the flat page-hash table round-trips: every table of rows with non-zero digests of the
  expected width parses back to exactly its rows, whether it just ends or is followed by a terminator
  row and any amount of zero padding.\<close>

theorem page_hash_table_round_trip:
  assumes "0 < n" and "\<forall>e\<in>set es. length (entry_digest e) = n \<and> \<not> all_zero (entry_digest e)"
  shows "parse_page_hash_flat_pairs_le (flat_table es) n = Inr es \<and>
    parse_page_hash_flat_pairs_le (flat_table es @ u32_to_le w @ replicate n 0 @ replicate k 0) n = Inr es"
proof -
  have e: "flat_loop (flat_table es) n (length (flat_table es)) es = (length (flat_table es), es)"
    using assms(1) by (simp add: flat_loop.simps)
  let ?t = "u32_to_le w @ replicate n 0 @ replicate k 0" and ?l = "length (flat_table es)"
  have z: "sub (flat_table es @ ?t) (?l + 4) n = replicate n 0" "all_zero (replicate n 0)"
    by (simp_all add: sub_def all_zero_def)
  have t: "flat_loop (flat_table es @ ?t) n ?l es = (?l + (4 + n), es)"
    using z by (subst flat_loop.simps) (simp add: Let_def)
  have "all_zero (drop (?l + (4 + n)) (flat_table es @ ?t))" by (simp add: all_zero_def)
  then show ?thesis
    using e t assms flat_loop_table [OF assms(2), of "[]" "[]" "[]"] flat_loop_table [OF assms(2), of "[]" ?t "[]"]
    by (simp add: parse_page_hash_flat_pairs_le_def)
qed

theorem page_hash_table_round_trip_witness:
  "parse_page_hash_flat_pairs_le
     (flat_table [\<lparr>page_end_offset = 512, entry_digest = [1, 2]\<rparr>] @ u32_to_le 9 @ replicate 2 0 @ replicate 5 0) 2 =
   Inr [\<lparr>page_end_offset = 512, entry_digest = [1, 2]\<rparr>]"
  using page_hash_table_round_trip [of 2 "[\<lparr>page_end_offset = 512, entry_digest = [1, 2]\<rparr>]" 9 5]
  by (simp add: all_zero_def)

lemma contiguous_loop_iff:
  "contiguous_loop H img kind start es = Inr () \<longleftrightarrow>
    (let ends = map (\<lambda>e. unat (page_end_offset e)) es in
     sorted_wrt (<) (start # ends) \<and>
     (\<forall>e\<in>set es. unat (page_end_offset e) \<le> length img \<and>
        length (entry_digest e) = digest_byte_len_for_page_hash_attr kind) \<and>
     map entry_digest es = map (\<lambda>(a, b). page_hash_fn H kind (sub img a (b - a))) (zip (start # ends) ends))"
proof (induction H img kind start es rule: contiguous_loop.induct)
  case (2 H img kind start e es)
  let ?stop = "unat (page_end_offset e)"
  have tr: "sorted_wrt (<) (start # ?stop # xs) \<longleftrightarrow> start < ?stop \<and> sorted_wrt (<) (?stop # xs)" for xs
    by auto
  show ?case
  proof (cases "length (entry_digest e) = digest_byte_len_for_page_hash_attr kind \<and> ?stop \<le> length img \<and>
      start < ?stop \<and> page_hash_fn H kind (sub img start (?stop - start)) = entry_digest e")
    case True
    then show ?thesis using 2 by (auto simp: Let_def tr simp del: sorted_wrt.simps)
  next
    case False
    then show ?thesis by (auto simp: Let_def slice_idx_def slice_get_def)
  qed
qed simp

text \<open>The contiguous page-hash check accepts exactly the tables it describes: sorted by end
  offset, the ends are strictly increasing and inside the file, and the digest of every row is the
  hash of the file bytes from the previous end (the first page starts at 0) to its own, so the
  accepted pages tile a prefix of the file without gap or overlap.\<close>

theorem contiguous_check_exact:
  "verify_page_hash_entries_contiguous_file_offsets H img entries kind = Inr () \<longleftrightarrow>
    (let rows = sort_key page_end_offset entries; ends = map (\<lambda>e. unat (page_end_offset e)) rows in
     sorted_wrt (<) (0 # ends) \<and>
     (\<forall>e\<in>set entries. unat (page_end_offset e) \<le> length img \<and>
        length (entry_digest e) = digest_byte_len_for_page_hash_attr kind) \<and>
     map entry_digest rows = map (\<lambda>(a, b). page_hash_fn H kind (sub img a (b - a))) (zip (0 # ends) ends))"
  by (simp add: verify_page_hash_entries_contiguous_file_offsets_def contiguous_loop_iff Let_def)

text \<open>Two pages of one and two bytes, listed out of order; a table with a gap at the end is accepted
  as well, one with equal ends is not.\<close>

definition sample_rows :: "PageHashTableEntry list" where
  "sample_rows = [\<lparr>page_end_offset = 3, entry_digest = replicate 20 2\<rparr>, \<lparr>page_end_offset = 1, entry_digest = replicate 20 1\<rparr>]"

theorem contiguous_check_exact_witness:
  "verify_page_hash_entries_contiguous_file_offsets (\<lambda>k m. replicate 20 (word_of_nat (length m)))
     [7, 8, 9, 10] sample_rows V1 = Inr ()"
  unfolding contiguous_check_exact
  by (simp add: sample_rows_def Let_def sub_def word_le_nat_alt)

end
