(* ===== verification/Esd.thy ===== *)
theory Esd
  imports Pe_Digest
begin

text \<open>
  Model of \<^verbatim>\<open>crates/psign-sip-digest/src/esd_digest.rs\<close>: the packed WIM header, the length of the
  signed prefix, its digest with the signature-length field cleared, and the embedded blob.

  A file is its byte list; opening and seeking do not fail, and \<^verbatim>\<open>read_exact\<close> fails behind the end
  of the file. The 208-byte header array is a list of that length.
\<close>

unbundle bit_operations_syntax

definition WIM_HEADER_PACKED_SIZE :: nat where "WIM_HEADER_PACKED_SIZE = 0xD0"
definition WIM_MAGIC_QWORD_LE :: u64 where
  "WIM_MAGIC_QWORD_LE = u64_from_le [0x4d, 0x53, 0x57, 0x49, 0x4d, 0, 0, 0]"
definition OFF_PKCS7_CB :: nat where "OFF_PKCS7_CB = 0xB4"
definition OFF_HASH_END_OR_SIG_OFF :: nat where "OFF_HASH_END_OR_SIG_OFF = 0xBC"
definition HASH_EXTENT_REGION_BASES :: "nat list" where "HASH_EXTENT_REGION_BASES = [48, 72, 124]"

lemmas wim_consts = WIM_HEADER_PACKED_SIZE_def OFF_PKCS7_CB_def OFF_HASH_END_OR_SIG_OFF_def

definition wim_read_u64_le :: "u8 list \<Rightarrow> nat \<Rightarrow> u64 res" where
  "wim_read_u64_le hdr off =
     ok_or (map_option u64_from_le (slice_get hdr off (off + 8))) ''WIM header slice too small''"

definition wim_read_u32_le :: "u8 list \<Rightarrow> nat \<Rightarrow> u32 res" where
  "wim_read_u32_le hdr off =
     ok_or (map_option u32_from_le (slice_get hdr off (off + 4))) ''WIM header slice too small''"

fun hash_extent :: "u8 list \<Rightarrow> u64 \<Rightarrow> nat list \<Rightarrow> u64 res" where
  "hash_extent header max_end [] = Inr max_end"
| "hash_extent header max_end (base # bases) =
     rbind (wim_read_u64_le header base) (\<lambda>raw.
     let offset_masked = raw AND 0x00FFFFFFFFFFFFFF in
     rbind (wim_read_u64_le header (base + 8)) (\<lambda>length.
     rbind (ok_or (checked_add_u64 offset_masked length) ''WIM header region: offset/length overflow'') (\<lambda>end.
       hash_extent header (max max_end end) bases)))"

definition get_hash_data_offset :: "u8 list \<Rightarrow> u64 res" where
  "get_hash_data_offset header = hash_extent header 0 HASH_EXTENT_REGION_BASES"

definition wim_hash_byte_count :: "u8 list \<Rightarrow> u64 res" where
  "wim_hash_byte_count header =
     rbind (wim_read_u64_le header OFF_HASH_END_OR_SIG_OFF) (\<lambda>explicit.
       if explicit \<noteq> 0 then Inr explicit else get_hash_data_offset header)"

definition validate_wim_header_prefix :: "u8 list \<Rightarrow> unit res" where
  "validate_wim_header_prefix header =
     rbind (wim_read_u64_le header 0) (\<lambda>magic.
     if magic \<noteq> WIM_MAGIC_QWORD_LE then bail ''not a WIM/ESD image''
     else rbind (wim_read_u32_le header 8) (\<lambda>hdr_cb.
       if hdr_cb \<noteq> word_of_nat WIM_HEADER_PACKED_SIZE then bail ''unexpected WIM packed header size''
       else Inr ()))"

text \<open>The reading loop, with the bytes fed to the hasher so far.\<close>

function hash_prefix_loop :: "u8 list \<Rightarrow> nat \<Rightarrow> u8 list \<Rightarrow> u8 list res" where
  "hash_prefix_loop reader remaining fed =
     (if remaining > 0 then
        let n = min remaining 0x10000 in
        if n \<le> length reader then hash_prefix_loop (drop n reader) (remaining - n) (fed @ take n reader)
        else bail ''failed to fill whole buffer''
      else Inr fed)"
  by pat_completeness auto
termination by (relation "measure (\<lambda>(_, remaining, _). remaining)") auto

declare hash_prefix_loop.simps [simp del]

definition hash_prefix :: "hash_fn \<Rightarrow> u8 list \<Rightarrow> nat \<Rightarrow> PeAuthenticodeHashKind \<Rightarrow> u8 list res" where
  "hash_prefix H reader tot kind = rbind (hash_prefix_loop reader tot []) (\<lambda>fed. Inr (H kind fed))"

definition compute_wim_image_digest_from_header ::
  "hash_fn \<Rightarrow> u8 list \<Rightarrow> u8 list \<Rightarrow> PeAuthenticodeHashKind \<Rightarrow> u8 list res" where
  "compute_wim_image_digest_from_header H file header kind =
     rbind (validate_wim_header_prefix header) (\<lambda>_.
     rbind (wim_hash_byte_count header) (\<lambda>tot.
     rbind (copy_at header OFF_PKCS7_CB (replicate (OFF_HASH_END_OR_SIG_OFF - OFF_PKCS7_CB) 0)) (\<lambda>hash_header.
       if unat tot \<le> WIM_HEADER_PACKED_SIZE
       then rbind (slice_idx hash_header 0 (unat tot)) (\<lambda>prefix. hash_prefix H prefix (unat tot) kind)
       else hash_prefix H (hash_header @ take (unat tot - WIM_HEADER_PACKED_SIZE)
              (drop WIM_HEADER_PACKED_SIZE file)) (unat tot) kind)))"

definition read_embedded_pkcs7 :: "u8 list \<Rightarrow> u8 list \<Rightarrow> u8 list res" where
  "read_embedded_pkcs7 file header =
     rbind (validate_wim_header_prefix header) (\<lambda>_.
     rbind (wim_read_u32_le header OFF_PKCS7_CB) (\<lambda>cb32.
     let cb = ucast cb32 :: u64 in
     rbind (wim_read_u64_le header OFF_HASH_END_OR_SIG_OFF) (\<lambda>off.
     if cb = 0 \<or> off = 0 then bail ''WIM/ESD file has no embedded Authenticode signature''
     else rbind (ok_or (checked_add_u64 off cb) ''signature extent overflow'') (\<lambda>end.
       if length file < unat end then bail ''embedded PKCS#7 extent exceeds file size''
       else ok_or (slice_get file (unat off) (unat off + unat cb)) ''failed to fill whole buffer''))))"

definition verify_wim_esd_digest_consistency ::
  "hash_fn \<Rightarrow> (u8 list \<Rightarrow> u8 list option) \<Rightarrow> u8 list \<Rightarrow> unit res" where
  "verify_wim_esd_digest_consistency H sig_digest file =
     rbind (ok_or (slice_get file 0 WIM_HEADER_PACKED_SIZE) ''failed to fill whole buffer'') (\<lambda>head.
     rbind (read_embedded_pkcs7 file head) (\<lambda>pkcs7.
     rbind (ok_or (sig_digest pkcs7) ''WIM/ESD PKCS#7 parse failed'') (\<lambda>embedded.
     rbind (from_digest_byte_len (length embedded)) (\<lambda>kind.
     rbind (compute_wim_image_digest_from_header H file head kind) (\<lambda>computed.
       if computed \<noteq> embedded then bail ''WIM/ESD Authenticode digest mismatch'' else Inr ())))))"

section \<open>Lemmas\<close>

lemma hash_prefix_loop_eq:
  "hash_prefix_loop reader n fed =
     (if n \<le> length reader then Inr (fed @ take n reader) else bail ''failed to fill whole buffer'')"
proof (induction reader n fed rule: hash_prefix_loop.induct)
  case (1 reader n fed)
  let ?m = "min n 0x10000"
  have m: "?m \<le> n" "n > 0 \<Longrightarrow> ?m > 0" by simp_all
  show ?case
  proof (cases "n > 0 \<and> ?m \<le> length reader")
    case True
    have t: "take ?m reader @ take (n - ?m) (drop ?m reader) = take n reader"
      using m(1) by (metis le_add_diff_inverse take_add)
    have "hash_prefix_loop reader n fed = hash_prefix_loop (drop ?m reader) (n - ?m) (fed @ take ?m reader)"
      using True by (subst hash_prefix_loop.simps) (simp add: Let_def)
    also have "\<dots> = (if n - ?m \<le> length (drop ?m reader)
        then Inr ((fed @ take ?m reader) @ take (n - ?m) (drop ?m reader)) else bail ''failed to fill whole buffer'')"
      using True by (intro "1.IH") simp_all
    also have "n - ?m \<le> length (drop ?m reader) \<longleftrightarrow> n \<le> length reader"
      unfolding length_drop using m True by linarith
    finally show ?thesis using t by simp
  next
    case False
    then show ?thesis
      using m by (subst hash_prefix_loop.simps) (auto simp: Let_def)
  qed
qed

lemma wim_read_u64_le_patch:
  "off + 8 \<le> a \<or> a + length ys \<le> off \<Longrightarrow> a + length ys \<le> length h \<Longrightarrow>
   wim_read_u64_le (patch h a ys) off = wim_read_u64_le h off"
  by (auto simp: wim_read_u64_le_def slice_get_def length_patch sub_patch_before sub_patch_after)

lemma hash_extent_patch:
  "\<forall>b\<in>set bases. b + 16 \<le> a \<Longrightarrow> a + length ys \<le> length h \<Longrightarrow>
   hash_extent (patch h a ys) m bases = hash_extent h m bases"
  by (induction bases arbitrary: m) (simp_all add: wim_read_u64_le_patch)

text \<open>A header with another signature length, in a file with anything behind the signed prefix.\<close>

lemma header_relength:
  assumes "length h = 208" "length cb = 8"
  shows "validate_wim_header_prefix (patch h 180 cb) = validate_wim_header_prefix h"
    and "wim_hash_byte_count (patch h 180 cb) = wim_hash_byte_count h"
    and "copy_at (patch h 180 cb) 180 (replicate 8 0) = copy_at h 180 (replicate 8 0)"
proof -
  have "wim_read_u32_le (patch h 180 cb) 8 = wim_read_u32_le h 8"
    using assms by (simp add: wim_read_u32_le_def slice_get_def length_patch sub_patch_before)
  then show "validate_wim_header_prefix (patch h 180 cb) = validate_wim_header_prefix h"
    using assms by (simp add: validate_wim_header_prefix_def wim_read_u64_le_patch cong: if_cong)
  show "wim_hash_byte_count (patch h 180 cb) = wim_hash_byte_count h"
  proof -
    have "get_hash_data_offset (patch h 180 cb) = get_hash_data_offset h"
      using assms by (simp add: get_hash_data_offset_def HASH_EXTENT_REGION_BASES_def hash_extent_patch
          del: hash_extent.simps)
    then show ?thesis
      using assms by (simp add: wim_hash_byte_count_def wim_consts wim_read_u64_le_patch cong: if_cong)
  qed
  show "copy_at (patch h 180 cb) 180 (replicate 8 0) = copy_at h 180 (replicate 8 0)"
    using assms by (simp add: copy_at_def length_patch patch_same_again)
qed

lemma compute_eq:
  assumes "validate_wim_header_prefix h = Inr ()" "wim_hash_byte_count h = Inr tot" "length h = 208"
    and "208 < unat tot" "unat tot \<le> length file"
  shows "compute_wim_image_digest_from_header H file h kind =
    Inr (H kind (patch h 180 (replicate 8 0) @ take (unat tot - 208) (drop 208 file)))"
  using assms by (simp add: compute_wim_image_digest_from_header_def hash_prefix_def hash_prefix_loop_eq
      wim_consts length_patch)

lemma read_embedded_appended:
  assumes "length h = 208" and "validate_wim_header_prefix h = Inr ()"
    and "wim_read_u64_le h 0xBC = Inr tot" and "208 < unat tot" and "unat tot = length (h @ body)"
    and "blob \<noteq> []" and "length blob < 2 ^ 32" and "length (h @ body) + length blob < 2 ^ 64"
  defines "h' \<equiv> patch h 180 (u32_to_le (word_of_nat (length blob)) @ replicate 4 0)"
  shows "read_embedded_pkcs7 (h' @ body @ blob) h' = Inr blob"
proof -
  let ?cb = "u32_to_le (word_of_nat (length blob)) @ replicate 4 0"
  let ?h = "patch h 180 ?cb" let ?f = "?h @ body @ blob"
  have l: "length ?h = 208" using assms(1) by (simp add: length_patch)
  have v: "validate_wim_header_prefix ?h = Inr ()" 
    using header_relength [OF assms(1), of ?cb] assms(2) by simp
  have t: "tot \<noteq> 0" using assms(4) by auto
  have sz: "unat (word_of_nat (length blob) :: u32) = length blob"
    using assms(7) by (simp add: unat_of_nat)
  have cb: "wim_read_u32_le ?h 180 = Inr (word_of_nat (length blob))"
  proof -
    have "sub ?h 180 8 = ?cb" using assms(1) by (simp add: sub_patch_same)
    then have "sub ?h 180 4 = u32_to_le (word_of_nat (length blob))"
      using sub_take [of 0 4 8 "drop 180 ?h"] by (simp add: sub_def)
    then show ?thesis using l by (simp add: wim_read_u32_le_def slice_get_def)
  qed
  have off: "wim_read_u64_le ?h 188 = Inr tot"
    using assms(1,3) by (simp add: wim_read_u64_le_patch)
  have u: "unat (ucast (word_of_nat (length blob) :: u32) :: u64) = length blob"
    using sz by (simp add: unat_widen)
  then have nz: "(ucast (word_of_nat (length blob) :: u32) :: u64) \<noteq> 0"
    using assms(6) by (metis length_0_conv unat_0)
  have s: "checked_add_u64 tot (ucast (word_of_nat (length blob) :: u32)) =
      Some (tot + ucast (word_of_nat (length blob) :: u32))"
    "unat (tot + ucast (word_of_nat (length blob) :: u32)) = unat tot + length blob"
    using assms(5,8) u by (simp_all add: checked_add_u64_def unat_word_ariths)
  show "read_embedded_pkcs7 (h' @ body @ blob) h' = Inr blob"
    unfolding h'_def
    using v cb off nz t s u assms(1,5) l
    by (simp add: read_embedded_pkcs7_def wim_consts slice_get_def sub_def Let_def)
qed

section \<open>Properties\<close>

text \<open>C7: embedding a signature does not change the digest it signs. For a WIM/ESD file whose header
  already names the end of the signed prefix, cutting the file there, appending any blob and writing
  its length to the header field gives a file with the same digest, from which the blob is read back
  and which verifies when the blob carries that digest.\<close>

theorem esd_sign_then_verify:
  assumes "length h = 208" and "validate_wim_header_prefix h = Inr ()"
    and "wim_read_u64_le h 0xBC = Inr tot" and "208 < unat tot" and "unat tot = length (h @ body)"
    and "blob \<noteq> []" and "length blob < 2 ^ 32" and "length (h @ body) + length blob < 2 ^ 64"
    and "hash_lengths H" and "sig_digest blob = Some d"
    and "compute_wim_image_digest_from_header H (h @ body) h kind = Inr d"
  shows "let h' = patch h 0xB4 (u32_to_le (word_of_nat (length blob)) @ replicate 4 0); file = h' @ body @ blob in
    compute_wim_image_digest_from_header H file h' kind = Inr d \<and>
    read_embedded_pkcs7 file h' = Inr blob \<and>
    verify_wim_esd_digest_consistency H sig_digest file = Inr ()"
proof -
  let ?cb = "u32_to_le (word_of_nat (length blob)) @ replicate 4 0"
  let ?h = "patch h 180 ?cb" let ?f = "?h @ body @ blob"
  have l: "length ?h = 208" using assms(1) by (simp add: length_patch)
  have v: "validate_wim_header_prefix ?h = Inr ()" and hc: "wim_hash_byte_count ?h = wim_hash_byte_count h"
    and z: "copy_at ?h 180 (replicate 8 0) = copy_at h 180 (replicate 8 0)"
    using header_relength [OF assms(1), of ?cb] assms(2) by simp_all
  have t: "tot \<noteq> 0" using assms(4) by auto
  then have c: "wim_hash_byte_count h = Inr tot"
    using assms(3) by (simp add: wim_hash_byte_count_def wim_consts)
  have d: "d = H kind (patch h 180 (replicate 8 0) @ take (unat tot - 208) (drop 208 (h @ body)))"
    using compute_eq [OF assms(2) c assms(1,4), of "h @ body" H kind] assms(5,11) by simp
  have "patch ?h 180 (replicate 8 0) = patch h 180 (replicate 8 0)"
    using z assms(1) l by (simp add: copy_at_def)
  then have comp: "compute_wim_image_digest_from_header H ?f ?h kind = Inr d"
    using compute_eq [OF v _ l assms(4), of ?f H kind] hc c assms(1,5) l d by simp
  have ex: "read_embedded_pkcs7 ?f ?h = Inr blob"
    using read_embedded_appended [OF assms(1,2,3,4,5,6,7,8)] .
  have "length d = digest_output_len kind" using d assms(9) by (simp add: hash_lengths_def)
  then have "from_digest_byte_len (length d) = Inr kind" by (simp add: from_digest_byte_len_iff)
  moreover have "slice_get ?f 0 208 = Some ?h" using l by (simp add: slice_get_def sub_def)
  ultimately show ?thesis
    using comp ex assms(10) by (simp add: verify_wim_esd_digest_consistency_def wim_consts Let_def)
qed

text \<open>The smallest image: a header that names its own end, and one byte behind it.\<close>

definition sample_wim :: "u8 list" where
  "sample_wim = [0x4d, 0x53, 0x57, 0x49, 0x4d, 0, 0, 0, 0xD0, 0, 0, 0] @ replicate 176 0 @
     [209, 0, 0, 0, 0, 0, 0, 0] @ replicate 12 0"

lemma sample_wim_facts: "length sample_wim = 208" "validate_wim_header_prefix sample_wim = Inr ()"
  "wim_read_u64_le sample_wim 0xBC = Inr 209"
  by (simp_all add: sample_wim_def validate_wim_header_prefix_def wim_read_u64_le_def wim_read_u32_le_def
      slice_get_def sub_def WIM_MAGIC_QWORD_LE_def u64_from_le_def u32_from_le_def wim_consts)

theorem esd_sign_then_verify_witness:
  "\<exists>file. verify_wim_esd_digest_consistency (\<lambda>k m. replicate (digest_output_len k) 7)
     (\<lambda>p. Some (replicate 20 7)) file = Inr ()"
proof -
  have c: "wim_hash_byte_count sample_wim = Inr 209"
    using sample_wim_facts by (simp add: wim_hash_byte_count_def wim_consts)
  have "compute_wim_image_digest_from_header (\<lambda>k m. replicate (digest_output_len k) 7)
      (sample_wim @ [5]) sample_wim Sha1 = Inr (replicate 20 7)"
    using compute_eq [OF sample_wim_facts(2) c sample_wim_facts(1), of "sample_wim @ [5]"] sample_wim_facts(1)
    by simp
  then show ?thesis
    using esd_sign_then_verify [OF sample_wim_facts, of "[5]" "[0x30]"
        "\<lambda>k m. replicate (digest_output_len k) 7" "\<lambda>p. Some (replicate 20 7)" "replicate 20 7" Sha1]
    by (auto simp: sample_wim_facts hash_lengths_def Let_def)
qed

end
