(* ===== verification/Search.thy ===== *)
theory Search
  imports Utf
begin

text \<open>
  Searching a sequence for a needle: \<open>find_subslice\<close> is the first match of \<^verbatim>\<open>windows(n).position(..)\<close>
  and of \<^verbatim>\<open>str::find\<close>, \<open>find_last_subslice\<close> the last one. Both are specified by \<open>occurs_at\<close>; the last
  section moves occurrences of ASCII text between a text and its UTF-16 code units.
\<close>

definition occurs_at :: "'a list \<Rightarrow> 'a list \<Rightarrow> nat \<Rightarrow> bool" where
  "occurs_at n h i \<longleftrightarrow> i + length n \<le> length h \<and> sub h i (length n) = n"

definition occurs :: "'a list \<Rightarrow> 'a list \<Rightarrow> bool" where
  "occurs n h \<longleftrightarrow> (\<exists>i. occurs_at n h i)"

fun window_position :: "'a list \<Rightarrow> 'a list \<Rightarrow> nat option" where
  "window_position n h =
     (if length h < length n then None
      else if take (length n) h = n then Some 0
      else case h of [] \<Rightarrow> None | _ # t \<Rightarrow> map_option Suc (window_position n t))"

declare window_position.simps [simp del]

definition find_subslice :: "'a list \<Rightarrow> 'a list \<Rightarrow> nat option" where
  "find_subslice haystack needle =
     (if needle = [] \<or> length haystack < length needle then None else window_position needle haystack)"

definition find_last_subslice :: "'a list \<Rightarrow> 'a list \<Rightarrow> nat option" where
  "find_last_subslice haystack needle =
     (if needle = [] \<or> length haystack < length needle then None
      else fold (\<lambda>i found. if take (length needle) (drop i haystack) = needle then Some i else found)
             [0..<length haystack - length needle + 1] None)"

lemma occurs_at_iff: "occurs_at n h i \<longleftrightarrow> (\<exists>a b. h = a @ n @ b \<and> length a = i)"
proof
  assume o: "occurs_at n h i"
  then have "drop i h = n @ drop (length n) (drop i h)"
    using append_take_drop_id [of "length n" "drop i h"] by (simp add: occurs_at_def sub_def)
  then have "h = take i h @ n @ drop (length n) (drop i h)" by (metis append_take_drop_id)
  then show "\<exists>a b. h = a @ n @ b \<and> length a = i"
    using o by (intro exI [of _ "take i h"] exI [of _ "drop (length n) (drop i h)"]) (auto simp: occurs_at_def)
qed (auto simp: occurs_at_def sub_def)

lemma occurs_iff: "occurs n h \<longleftrightarrow> (\<exists>a b. h = a @ n @ b)"
  by (auto simp: occurs_def occurs_at_iff)

lemma occurs_at_nth: "occurs_at n h i \<Longrightarrow> k < length n \<Longrightarrow> h ! (i + k) = n ! k"
  by (auto simp: occurs_at_iff nth_append)

lemma occurs_at_append_left: "occurs_at n h i \<Longrightarrow> occurs_at n (h @ t) i"
  by (simp add: occurs_at_def sub_def)

lemma occurs_at_in_left: "occurs_at n (h @ t) i \<Longrightarrow> i + length n \<le> length h \<Longrightarrow> occurs_at n h i"
  by (auto simp: occurs_at_def sub_def)

lemma occurs_at_in_right: "occurs_at n (h @ t) i \<Longrightarrow> length h \<le> i \<Longrightarrow> occurs_at n t (i - length h)"
  by (auto simp: occurs_at_def sub_def)

lemma occurs_at_Cons: "occurs_at n (x # h) (Suc i) \<longleftrightarrow> occurs_at n h i"
  by (simp add: occurs_at_def sub_def)

lemma occurs_at_0: "occurs_at n h 0 \<longleftrightarrow> (\<exists>b. h = n @ b)"
  by (auto simp: occurs_at_iff)

lemma occurs_at_part: "occurs_at (p @ n @ q) h i \<Longrightarrow> occurs_at n h (i + length p)"
  unfolding occurs_at_iff by (metis append.assoc length_append)

lemma window_position_Some:
  "window_position n h = Some i \<longleftrightarrow> occurs_at n h i \<and> (\<forall>j<i. \<not> occurs_at n h j)"
proof (induction h arbitrary: i)
  case Nil
  then show ?case by (auto simp: window_position.simps [of n "[]"] occurs_at_def sub_def)
next
  case (Cons x h)
  show ?case
  proof (cases "occurs_at n (x # h) 0")
    case True
    then show ?thesis by (cases i) (auto simp: window_position.simps [of n "x # h"] occurs_at_def sub_def)
  next
    case False
    show ?thesis
    proof (cases i)
      case 0
      then show ?thesis using False by (auto simp: window_position.simps [of n "x # h"] occurs_at_def sub_def)
    next
      case (Suc k)
      have "window_position n (x # h) = map_option Suc (window_position n h)"
      proof (cases "length (x # h) < length n")
        case True
        then show ?thesis by (simp add: window_position.simps [of n "x # h"] window_position.simps [of n h])
      next
        case False
        then show ?thesis using \<open>\<not> occurs_at n (x # h) 0\<close>
          by (simp add: window_position.simps [of n "x # h"] occurs_at_def sub_def)
      qed
      then show ?thesis using Cons.IH [of k] False Suc by (simp add: occurs_at_Cons All_less_Suc2)
    qed
  qed
qed

lemma find_subslice_Some:
  "find_subslice h n = Some i \<longleftrightarrow> n \<noteq> [] \<and> occurs_at n h i \<and> (\<forall>j<i. \<not> occurs_at n h j)"
proof (cases "n = [] \<or> length h < length n")
  case True
  then show ?thesis by (auto simp: find_subslice_def occurs_at_def)
next
  case False
  then show ?thesis by (simp add: find_subslice_def window_position_Some)
qed

lemma find_subslice_None: "find_subslice h n = None \<longleftrightarrow> n = [] \<or> \<not> occurs n h"
proof (cases "n = []")
  case False
  have "(\<exists>i. occurs_at n h i) \<longleftrightarrow> (\<exists>i. occurs_at n h i \<and> (\<forall>j<i. \<not> occurs_at n h j))"
    using exists_least_iff [of "occurs_at n h"] by blast
  then have "occurs n h \<longleftrightarrow> (\<exists>i. find_subslice h n = Some i)"
    using False by (simp add: find_subslice_Some occurs_def)
  with False show ?thesis by (cases "find_subslice h n") auto
qed (simp add: find_subslice_def)

lemma fold_last_index:
  "fold (\<lambda>i found. if P i then Some i else found) [0..<m] None = Some k \<longleftrightarrow> k < m \<and> P k \<and> (\<forall>j<m. P j \<longrightarrow> j \<le> k)"
  by (induction m) (auto simp: less_Suc_eq)

lemma find_last_subslice_Some:
  "find_last_subslice h n = Some i \<longleftrightarrow> n \<noteq> [] \<and> occurs_at n h i \<and> (\<forall>j>i. \<not> occurs_at n h j)"
proof (cases "n = [] \<or> length h < length n")
  case False
  have bound: "j < length h - length n + 1" if "occurs_at n h j" for j
    using that False by (auto simp: occurs_at_def)
  have at: "take (length n) (drop j h) = n \<longleftrightarrow> occurs_at n h j" if "j < length h - length n + 1" for j
    using that False by (auto simp: occurs_at_def sub_def)
  have "find_last_subslice h n = Some i \<longleftrightarrow>
      i < length h - length n + 1 \<and> occurs_at n h i \<and> (\<forall>j<length h - length n + 1. occurs_at n h j \<longrightarrow> j \<le> i)"
    using at unfolding find_last_subslice_def if_not_P [OF False] fold_last_index by blast
  also have "\<dots> \<longleftrightarrow> occurs_at n h i \<and> (\<forall>j>i. \<not> occurs_at n h j)"
    using bound by (metis leD leI)
  finally show ?thesis using False by simp
qed (auto simp: find_last_subslice_def occurs_at_def)

section \<open>ASCII text in UTF-16 code units\<close>

lemma utf16_char_ascii: "c < 0x80 \<Longrightarrow> utf16_char c = [word_of_nat c]"
  by (simp add: utf16_char_bmp)

lemma utf16_ascii_head:
  assumes "is_scalar c" "p < 0x80" "utf16_char c @ t = word_of_nat p # u"
  shows "c = p \<and> t = u"
proof (cases "c < 0x10000")
  case True
  then have "(word_of_nat c :: u16) = word_of_nat p" "t = u" using assms(3) by (simp_all add: utf16_char_def)
  moreover have "unat (word_of_nat c :: u16) = c" "unat (word_of_nat p :: u16) = p" using True assms(2) by simp_all
  ultimately show ?thesis by metis
next
  case False
  have "0xD800 + (c - 0x10000) div 1024 < 65536" using assms(1) False by (auto simp: is_scalar_def)
  then have "unat (word_of_nat (0xD800 + (c - 0x10000) div 1024) :: u16) = 0xD800 + (c - 0x10000) div 1024"
    by (rule unat_unit)
  moreover have "unat (word_of_nat p :: u16) = p" using assms(2) by simp
  moreover have "(word_of_nat (0xD800 + (c - 0x10000) div 1024) :: u16) = word_of_nat p"
    using False assms(3) by (simp add: utf16_char_def del: of_nat_add)
  ultimately have "0xD800 + (c - 0x10000) div 1024 = p" by metis
  moreover have "p < 0xD800" using assms(2) by linarith
  ultimately show ?thesis by linarith
qed

lemma utf16_ascii_prefix:
  "wf_str s \<Longrightarrow> is_ascii p \<Longrightarrow> encode_utf16 s = map word_of_nat p @ r \<Longrightarrow> \<exists>t. s = p @ t \<and> encode_utf16 t = r"
proof (induction p arbitrary: s)
  case (Cons a p)
  then obtain c t where s: "s = c # t" by (cases s) auto
  then have "c = a \<and> encode_utf16 t = map word_of_nat p @ r"
    using utf16_ascii_head [of c a "encode_utf16 t"] Cons.prems by auto
  then show ?case using Cons.IH [of t] Cons.prems s by auto
qed auto

lemma utf16_occurs:
  assumes "wf_str s" "is_ascii p" "p \<noteq> []"
  shows "occurs (map word_of_nat p) (encode_utf16 s) \<longleftrightarrow> occurs p s"
proof
  assume "occurs p s"
  then obtain a b where "s = a @ p @ b" by (auto simp: occurs_iff)
  then show "occurs (map word_of_nat p) (encode_utf16 s)"
    using assms(2) by (auto simp: occurs_iff encode_utf16_ascii)
next
  assume "occurs (map word_of_nat p) (encode_utf16 s)"
  then obtain i where "occurs_at (map word_of_nat p) (encode_utf16 s) i" by (auto simp: occurs_def)
  then show "occurs p s" using assms(1)
  proof (induction s arbitrary: i)
    case Nil
    then show ?case using assms(3) by (simp add: occurs_at_def)
  next
    case (Cons c s)
    show ?case
    proof (cases i)
      case 0
      then show ?thesis
        using Cons.prems utf16_ascii_prefix [of "c # s" p] assms(2) occurs_iff [of p "c # s"]
        by (auto simp: occurs_at_0) (metis append_Nil)
    next
      case (Suc k)
      have in_tail: "\<exists>j. occurs_at (map word_of_nat p) (encode_utf16 s) j"
      proof (cases "length (utf16_char c) \<le> i")
        case True
        then show ?thesis using occurs_at_in_right Cons.prems(1) by fastforce
      next
        case False
        then have l: "\<not> c < 0x10000" "i = 1" using Suc by (auto simp: utf16_char_def split: if_splits)
        obtain a q where p: "p = a # q" using assms(3) by (cases p) auto
        have "(word_of_nat (0xDC00 + (c - 0x10000) mod 1024) :: u16) = word_of_nat a"
          using occurs_at_nth [OF Cons.prems(1), of 0] l p by (simp add: utf16_char_def del: of_nat_add)
        moreover have "0xDC00 + (c - 0x10000) mod 1024 < 65536" "a < 0x80"
          using p assms(2) mod_less_divisor [of 1024 "c - 0x10000"] by auto
        ultimately have "0xDC00 + (c - 0x10000) mod 1024 = a"
          using unat_unit [of "0xDC00 + (c - 0x10000) mod 1024"] unat_unit [of a] by fastforce
        then show ?thesis using \<open>a < 0x80\<close> by simp
      qed
      then have "occurs p s" using Cons.IH Cons.prems(2) by auto
      then show ?thesis unfolding occurs_iff by (metis append_Cons)
    qed
  qed
qed

end
