(* ===== verification/Script_Sip.thy ===== *)
theory Script_Sip
  imports Search Base64 Pe_Digest Sig_Container
begin

text \<open>
  Model of \<^verbatim>\<open>crates/psign-sip-digest/src/ps_script.rs\<close>, the PowerShell-class script format, with the
  signing half of \<^verbatim>\<open>crates/psign-portable-core/src/lib.rs\<close> (\<^verbatim>\<open>format_powershell_signature_block\<close>,
  \<^verbatim>\<open>append_script_signature_block\<close>) and the digest \<^verbatim>\<open>pkcs7.rs\<close> puts into a new signature.

  Parameters: the hash \<open>H\<close>, the base64 engine \<open>B\<close>, and \<open>sig_digest\<close>, the digest that the crate
  \<^verbatim>\<open>authenticode\<close> reads out of a PKCS#7 blob (\<open>None\<close> where it does not parse).
\<close>

record ScriptAuthenticodeDigestReport =
  rep_pkcs7_der :: "u8 list"
  rep_embedded_digest :: "u8 list"
  rep_computed_digest :: "u8 list"

datatype MarkerFamily = Hash | Xml | Mof

definition marker_family :: "str \<Rightarrow> MarkerFamily res" where
  "marker_family ext =
     (let e = to_ascii_lowercase ext in
      if e = lit ''ps1'' \<or> e = lit ''psd1'' \<or> e = lit ''psm1'' then Inr Hash
      else if e = lit ''ps1xml'' \<or> e = lit ''psc1'' \<or> e = lit ''cdxml'' then Inr Xml
      else if e = lit ''mof'' then Inr Mof
      else bail ''extension is not handled by pwrshsip-style markers'')"

fun begin_pat :: "MarkerFamily \<Rightarrow> str" where
  "begin_pat Hash = lit ''# SIG # Begin signature block''"
| "begin_pat Xml = lit ''<!-- SIG # Begin signature block -->''"
| "begin_pat Mof = lit ''/* SIG # Begin signature block */''"

fun end_pat :: "MarkerFamily \<Rightarrow> str" where
  "end_pat Hash = lit ''# SIG # End signature block''"
| "end_pat Xml = lit ''<!-- SIG # End signature block -->''"
| "end_pat Mof = lit ''/* SIG # End signature block */''"

text \<open>The four markers: begin with its line breaks, begin, end with its line break, end.\<close>

definition markers :: "MarkerFamily \<Rightarrow> u16 list \<times> u16 list \<times> u16 list \<times> u16 list" where
  "markers family =
     (encode_utf16 (crlf @ begin_pat family @ crlf), encode_utf16 (begin_pat family),
      encode_utf16 (end_pat family @ crlf), encode_utf16 (end_pat family))"

definition file_utf16_units :: "u8 list \<Rightarrow> u16 list" where
  "file_utf16_units raw =
     (if take 2 raw = [0xFF, 0xFE] then units_le (drop 2 raw)
      else if take 2 raw = [0xFE, 0xFF] then units_be (drop 2 raw)
      else encode_utf16 (from_utf8_lossy raw))"

definition utf16le_bytes :: "u16 list \<Rightarrow> u8 list" where
  "utf16le_bytes units = concat (map u16_to_le units)"

definition strip_signature_region_utf16 :: "u16 list \<Rightarrow> MarkerFamily \<Rightarrow> u16 list res" where
  "strip_signature_region_utf16 units family =
     (case markers family of (begin_cr, beg, end_cr, fin) \<Rightarrow>
      rbind (ok_or (case find_subslice units begin_cr of Some i \<Rightarrow> Some i | None \<Rightarrow> find_subslice units beg)
               ''signature begin marker not found when interpreting file as UTF-16'') (\<lambda>start.
      let tail = drop start units in
      rbind (case find_subslice tail end_cr of Some i \<Rightarrow> Inr (i, length end_cr)
             | None \<Rightarrow> (case find_subslice tail fin of Some i \<Rightarrow> Inr (i, length fin)
               | None \<Rightarrow> bail ''signature end marker not found when interpreting file as UTF-16''))
        (\<lambda>(end_rel, pat_len).
        Inr (take start units @ drop (start + end_rel + pat_len) units))))"

definition hash_payload :: "hash_fn \<Rightarrow> PeAuthenticodeHashKind \<Rightarrow> u8 list \<Rightarrow> u8 list res" where
  "hash_payload H kind payload = Inr (H kind payload)"

definition looks_like_b64_token :: "str \<Rightarrow> bool" where
  "looks_like_b64_token s \<longleftrightarrow> 4 \<le> length (utf8 s) \<and> (\<forall>c\<in>set s. is_base64_char c)"

text \<open>What one line of the block contributes.\<close>

definition line_token :: "MarkerFamily \<Rightarrow> str \<Rightarrow> str option" where
  "line_token family line =
     (let t = trim line in
      case family of
        Hash \<Rightarrow> strip_prefix (lit ''# '') t
      | Xml \<Rightarrow> obind (strip_prefix (lit ''<!--'') t) (strip_suffix (lit ''-->''))
      | Mof \<Rightarrow> obind (strip_prefix (lit ''/*'') t) (strip_suffix (lit ''*/'')))"

fun collect_tokens :: "MarkerFamily \<Rightarrow> str list \<Rightarrow> str \<Rightarrow> str" where
  "collect_tokens family [] b64 = b64"
| "collect_tokens family (line # ls) b64 =
     (case line_token family line of
        Some rest \<Rightarrow> (let token = trim rest in
          collect_tokens family ls (if looks_like_b64_token token then b64 @ token else b64))
      | None \<Rightarrow> collect_tokens family ls b64)"

definition script_units :: "u8 list \<Rightarrow> u16 list" where
  "script_units raw =
     (let units = file_utf16_units raw in if take 2 raw = [0xFF, 0xFE] then 0xFEFF # units else units)"

definition extract_pkcs7_der_from_script :: "base64 \<Rightarrow> u8 list \<Rightarrow> MarkerFamily \<Rightarrow> u8 list res" where
  "extract_pkcs7_der_from_script B raw family =
     (let view = from_utf16_lossy (script_units raw) in
      rbind (ok_or (find_subslice view (begin_pat family)) ''signature begin not found (UTF-8 lossy view)'')
        (\<lambda>start.
      let tail = drop start view in
      rbind (ok_or (find_subslice tail (end_pat family)) ''signature end not found (UTF-8 lossy view)'')
        (\<lambda>end_rel.
      let block = take (end_rel + length (end_pat family)) tail;
          b64 = collect_tokens family (lines block) [] in
      if b64 = [] then bail ''no base64 tokens parsed inside signature block''
      else ok_or (b64_decode B (trim b64)) ''base64 decode'')))"

definition extension_supported :: "str \<Rightarrow> bool" where
  "extension_supported ext \<longleftrightarrow>
     to_ascii_lowercase ext \<in> {lit ''ps1'', lit ''psd1'', lit ''psm1'', lit ''ps1xml'', lit ''psc1'',
       lit ''cdxml'', lit ''mof''}"

definition is_wsh_extension :: "str \<Rightarrow> bool" where
  "is_wsh_extension ext \<longleftrightarrow>
     to_ascii_lowercase ext \<in> {lit ''js'', lit ''jse'', lit ''vbs'', lit ''vbe'', lit ''wsf''}"

definition powershell_class_digest_report ::
  "base64 \<Rightarrow> hash_fn \<Rightarrow> (u8 list \<Rightarrow> u8 list option) \<Rightarrow> u8 list \<Rightarrow> str \<Rightarrow> ScriptAuthenticodeDigestReport res" where
  "powershell_class_digest_report B H sig_digest raw ext =
     (let ext_l = to_ascii_lowercase ext in
      if \<not> extension_supported ext_l then bail ''Rust SIP script digest does not support extension''
      else rbind (marker_family ext_l) (\<lambda>family.
      rbind (extract_pkcs7_der_from_script B raw family) (\<lambda>pkcs7.
      rbind (ok_or (sig_digest pkcs7) ''Authenticode PKCS#7 parse failed'') (\<lambda>embedded.
      rbind (from_digest_byte_len (length embedded)) (\<lambda>kind.
      rbind (strip_signature_region_utf16 (script_units raw) family) (\<lambda>stripped.
      rbind (hash_payload H kind (utf16le_bytes stripped)) (\<lambda>computed.
      if computed \<noteq> embedded
      then bail ''script Authenticode digest mismatch (experimental UTF-16 strip heuristic vs PKCS#7)''
      else Inr \<lparr>rep_pkcs7_der = pkcs7, rep_embedded_digest = embedded, rep_computed_digest = computed\<rparr>)))))))"

definition verify_powershell_class_digest ::
  "base64 \<Rightarrow> hash_fn \<Rightarrow> (u8 list \<Rightarrow> u8 list option) \<Rightarrow> u8 list \<Rightarrow> str \<Rightarrow> unit res" where
  "verify_powershell_class_digest B H sig_digest raw ext =
     rbind (powershell_class_digest_report B H sig_digest raw ext) (\<lambda>_. Inr ())"

section \<open>Signing\<close>

datatype AuthenticodeSigningDigest = Sign_Sha256 | Sign_Sha384 | Sign_Sha512

fun pe_hash_kind :: "AuthenticodeSigningDigest \<Rightarrow> PeAuthenticodeHashKind" where
  "pe_hash_kind Sign_Sha256 = Sha256"
| "pe_hash_kind Sign_Sha384 = Sha384"
| "pe_hash_kind Sign_Sha512 = Sha512"

text \<open>The digest of \<^verbatim>\<open>script_authenticode_spc_indirect_data\<close>; the ASN.1 wrapping around it is not modelled.\<close>

definition script_authenticode_digest :: "hash_fn \<Rightarrow> u8 list \<Rightarrow> AuthenticodeSigningDigest \<Rightarrow> u8 list res" where
  "script_authenticode_digest H script alg =
     rbind (hash_payload H (pe_hash_kind alg) (utf16le_bytes (file_utf16_units script))) (\<lambda>d.
       if length d \<noteq> digest_output_len (pe_hash_kind alg) then bail ''script digest length does not match''
       else Inr d)"

fun line_prefix :: "MarkerFamily \<Rightarrow> str" where
  "line_prefix Hash = lit ''# ''"
| "line_prefix Xml = lit ''<!-- ''"
| "line_prefix Mof = lit ''/* ''"

fun line_suffix :: "MarkerFamily \<Rightarrow> str" where
  "line_suffix Hash = []"
| "line_suffix Xml = lit '' -->''"
| "line_suffix Mof = lit '' */''"

definition format_family :: "str \<Rightarrow> MarkerFamily" where
  "format_family ext =
     (let e = to_ascii_lowercase ext in
      if e = lit ''ps1xml'' \<or> e = lit ''psc1'' \<or> e = lit ''cdxml'' then Xml
      else if e = lit ''mof'' then Mof else Hash)"

definition format_powershell_signature_block :: "base64 \<Rightarrow> u8 list \<Rightarrow> str \<Rightarrow> str" where
  "format_powershell_signature_block B pkcs7_der ext =
     (let family = format_family ext in
      (crlf @ begin_pat family @ crlf) @
      concat (map (\<lambda>chunk. line_prefix family @ chunk @ line_suffix family @ crlf)
               (chunks 64 (b64_encode B pkcs7_der))) @
      end_pat family @ crlf)"

definition utf16be_bytes :: "u16 list \<Rightarrow> u8 list" where
  "utf16be_bytes units = concat (map (\<lambda>u. rev (u16_to_le u)) units)"

definition append_script_signature_block :: "u8 list \<Rightarrow> str \<Rightarrow> u8 list" where
  "append_script_signature_block script block =
     script @ (if take 2 script = [0xFF, 0xFE] then utf16le_bytes (encode_utf16 block)
               else if take 2 script = [0xFE, 0xFF] then utf16be_bytes (encode_utf16 block)
               else utf8 block)"

end
