(* ===== verification/Script_Signing.thy ===== *)
theory Script_Signing
  imports Script_Sip
begin

text \<open>
  The signing and verification halves of the script format against each other: the block the signer
  writes is cut out exactly by the verifier and its blob is read back, so the two digests agree for
  UTF-8 and big-endian UTF-16 scripts, and differ by the byte-order mark for little-endian ones.
\<close>

section \<open>Markers and lines\<close>

text \<open>A marker between line breaks behind text that does not contain it is found there.\<close>

lemma find_marker_line:
  assumes "\<not> occurs b pre" "r \<notin> set b" "b \<noteq> []" "r \<noteq> nl"
  shows "find_subslice (pre @ r # nl # b @ r # nl # rest) (r # nl # b @ [r, nl]) = Some (length pre)"
proof -
  let ?n = "r # nl # b @ [r, nl]" let ?h = "pre @ r # nl # b @ r # nl # rest"
  have "\<not> occurs_at ?n ?h j" if j: "j < length pre" for j
  proof
    assume o: "occurs_at ?n ?h j"
    have b: "occurs_at b ?h (j + 2)"
      using occurs_at_part [of "[r, nl]" b "[r, nl]" ?h j] o by simp
    show False
    proof (cases "j + 2 + length b \<le> length pre")
      case True
      then have "occurs_at b pre (j + 2)" using occurs_at_in_left [OF b] by simp
      then show False using assms(1) by (auto simp: occurs_def)
    next
      case False
      define k where "k = length pre - j"
      have k: "0 < k" "k < length b + 2" "j + k = length pre" using False j by (auto simp: k_def)
      have "?n ! k = ?h ! (j + k)" using occurs_at_nth [OF o, of k] k by simp
      also have "\<dots> = r" using k by simp
      finally have "(nl # b @ [r, nl]) ! (k - 1) = r" using k(1) by (simp add: nth_Cons')
      moreover have "(nl # b @ [r, nl]) ! (k - 1) = (nl # b) ! (k - 1)"
      proof -
        have "k - 1 < length (nl # b)" unfolding list.size using k by linarith
        then show ?thesis by (metis nth_append append_Cons)
      qed
      moreover have "(nl # b) ! (k - 1) \<in> set (nl # b)" by (rule nth_mem) (use k in \<open>unfold list.size, linarith\<close>)
      ultimately show False using assms(2,4) by auto
    qed
  qed
  moreover have "occurs_at ?n ?h (length pre)" by (auto simp: occurs_at_iff)
  ultimately show ?thesis by (simp add: find_subslice_Some)
qed

text \<open>A needle without line breaks that occurs in no line of a block is first found behind it.\<close>

lemma no_occurrence_in_lines:
  assumes "\<forall>l\<in>set ls. \<not> occurs n l" "r \<notin> set n" "nl \<notin> set n" "n \<noteq> []"
    and "j < length (concat (map (\<lambda>l. l @ [r, nl]) ls))"
  shows "\<not> occurs_at n (concat (map (\<lambda>l. l @ [r, nl]) ls) @ rest) j"
  using assms(1,5)
proof (induction ls arbitrary: j)
  case (Cons l ls)
  let ?t = "concat (map (\<lambda>l. l @ [r, nl]) ls) @ rest"
  have h: "concat (map (\<lambda>l. l @ [r, nl]) (l # ls)) @ rest = (l @ [r, nl]) @ ?t" by simp
  show ?case unfolding h
  proof
    assume o: "occurs_at n ((l @ [r, nl]) @ ?t) j"
    consider "j + length n \<le> length l" | "j \<le> length l" "length l < j + length n" | "j = length l + 1"
      | "length l + 2 \<le> j" by linarith
    then show False
    proof cases
      case 1
      then have "occurs_at n l j" using occurs_at_in_left [of n l "[r, nl] @ ?t" j] o by simp
      then show False using Cons.prems(1) by (auto simp: occurs_def)
    next
      case 2
      then have "n ! (length l - j) = ((l @ [r, nl]) @ ?t) ! length l"
        using occurs_at_nth [OF o, of "length l - j"] by simp
      then have "n ! (length l - j) = r" by simp
      then show False using 2 assms(2) nth_mem [of "length l - j" n] by auto
    next
      case 3
      then have "n ! 0 = nl" using occurs_at_nth [OF o, of 0] assms(4) by (simp add: nth_append)
      then show False using assms(3,4) nth_mem [of 0 n] by auto
    next
      case 4
      then have "occurs_at n ?t (j - (length l + 2))" using occurs_at_in_right [OF o] by simp
      moreover have "j - (length l + 2) < length (concat (map (\<lambda>l. l @ [r, nl]) ls))"
      proof -
        have "j < (length l + 2) + length (concat (map (\<lambda>l. l @ [r, nl]) ls))" using Cons.prems(2) by simp
        then show ?thesis using 4 by linarith
      qed
      ultimately show False using Cons.IH Cons.prems(1) by auto
    qed
  qed
qed simp

lemma find_behind_lines:
  assumes "\<forall>l\<in>set ls. \<not> occurs n l" "r \<notin> set n" "nl \<notin> set n" "n \<noteq> []"
  shows "find_subslice (concat (map (\<lambda>l. l @ [r, nl]) ls) @ n @ q @ rest) (n @ q) =
    Some (length (concat (map (\<lambda>l. l @ [r, nl]) ls)))"
proof -
  let ?c = "concat (map (\<lambda>l. l @ [r, nl]) ls)"
  have "\<not> occurs_at (n @ q) (?c @ n @ q @ rest) j" if "j < length ?c" for j
    using no_occurrence_in_lines [OF assms that] occurs_at_part [of "[]" n q] by auto
  moreover have "occurs_at (n @ q) (?c @ n @ q @ rest) (length ?c)" unfolding occurs_at_iff by fastforce
  ultimately show ?thesis using assms(4) by (simp add: find_subslice_Some)
qed

lemma find_after_break:
  assumes "\<not> occurs b pre" "r \<notin> set b" "nl \<notin> set b" "b \<noteq> []"
  shows "find_subslice (pre @ r # nl # b @ rest) b = Some (length pre + 2)"
proof -
  have "\<not> occurs_at b (pre @ r # nl # b @ rest) j" if "j < length pre + 2" for j
    using no_occurrence_in_lines [of "[pre]" b r nl j "b @ rest"] assms that by simp
  moreover have "occurs_at b (pre @ r # nl # b @ rest) (length pre + 2)"
    unfolding occurs_at_iff by (intro exI [of _ "pre @ [r, nl]"] exI [of _ rest]) simp
  ultimately show ?thesis using assms(4) by (simp add: find_subslice_Some)
qed

section \<open>The block\<close>

definition body_line :: "MarkerFamily \<Rightarrow> str \<Rightarrow> str" where
  "body_line f chunk = line_prefix f @ chunk @ line_suffix f"

definition b64_chunks :: "str list \<Rightarrow> bool" where
  "b64_chunks cs \<longleftrightarrow> (\<forall>c\<in>set cs. (\<forall>x\<in>set c. is_base64_char x) \<and> 4 \<le> length c)"

lemma marker_facts:
  "13 \<notin> set (begin_pat f)" "10 \<notin> set (begin_pat f)" "begin_pat f \<noteq> []" "is_ascii (begin_pat f)"
  "13 \<notin> set (end_pat f)" "10 \<notin> set (end_pat f)" "end_pat f \<noteq> []" "is_ascii (end_pat f)"
  "trim (begin_pat f) = begin_pat f" "trim (end_pat f) = end_pat f"
  by (cases f; simp add: trim_id trimmed_def is_whitespace_def)+

lemma count_occurs: "occurs n l \<Longrightarrow> count_list n x \<le> count_list l x"
  by (auto simp: occurs_iff)

lemma end_not_in_begin: "\<not> occurs (end_pat f) (begin_pat f)"
  using count_occurs [of "end_pat f" "begin_pat f" 69] by (cases f) auto

lemma base64_char_not: "is_base64_char c \<Longrightarrow> c \<notin> {35, 32, 10, 13}"
  by (auto simp: is_base64_char_def)

lemma base64_chunk_graphic: "\<forall>x\<in>set c. is_base64_char x \<Longrightarrow> graphic c"
  by (auto simp: graphic_def dest: base64_char_graphic)

lemma end_not_in_line:
  assumes "\<forall>x\<in>set c. is_base64_char x"
  shows "\<not> occurs (end_pat f) (body_line f c)"
proof -
  have "count_list c 35 = 0" using assms base64_char_not by (auto simp: count_list_0_iff)
  then show ?thesis
    using count_occurs [of "end_pat f" "body_line f c" 35] by (cases f) (auto simp: body_line_def)
qed

lemma body_line_free:
  assumes "\<forall>x\<in>set c. is_base64_char x"
  shows "10 \<notin> set (body_line f c)" "is_ascii (body_line f c)"
  using graphic_free [OF base64_chunk_graphic [OF assms], of 10] graphic_ascii [OF base64_chunk_graphic [OF assms]]
  by (cases f; simp add: body_line_def)+

lemma line_token_body:
  assumes "\<forall>x\<in>set c. is_base64_char x" "c \<noteq> []"
  shows "\<exists>rest. line_token f (body_line f c) = Some rest \<and> trim rest = c"
proof -
  have g: "graphic c" using base64_chunk_graphic [OF assms(1)] .
  have t: "trimmed c" using graphic_trimmed [OF g] .
  have sp: "trim (32 # c @ [32]) = c"
  proof -
    have "trim_start (32 # c @ [32]) = c @ [32]"
      using assms(2) t by (cases c) (auto simp: trim_start_def is_whitespace_def trimmed_def)
    moreover have "trim_end (c @ [32]) = c"
      using assms(2) t dropWhile_hd [of "rev c" is_whitespace]
      by (auto simp: trim_end_def is_whitespace_def trimmed_def hd_rev)
    ultimately show ?thesis by (simp add: trim_def)
  qed
  have id: "trim (body_line f c) = body_line f c"
    using t assms(2) by (intro trim_id) (cases f; auto simp: body_line_def trimmed_def is_whitespace_def)
  show ?thesis
  proof (cases f)
    case Hash
    then show ?thesis using id t by (simp add: line_token_def body_line_def trim_id)
  next
    case Xml
    have "strip_suffix (lit ''-->'') (32 # c @ lit '' -->'') = Some (32 # c @ [32])"
      by (simp add: strip_suffix_Some)
    then show ?thesis using Xml id sp by (simp add: line_token_def body_line_def)
  next
    case Mof
    have "strip_suffix (lit ''*/'') (32 # c @ lit '' */'') = Some (32 # c @ [32])"
      by (simp add: strip_suffix_Some)
    then show ?thesis using Mof id sp by (simp add: line_token_def body_line_def)
  qed
qed

lemma line_token_marker:
  assumes "line_token f m = Some rest" "m = begin_pat f \<or> m = end_pat f"
  shows "\<not> looks_like_b64_token (trim rest)"
proof -
  have m: "trim m = m" using assms(2) marker_facts by auto
  have "rest \<in> {lit ''SIG # Begin signature block'', lit '' SIG # Begin signature block '',
     lit ''SIG # End signature block'', lit '' SIG # End signature block ''}"
    using assms m by (cases f) (auto simp: line_token_def obind_Some_iff strip_suffix_def)
  then have "35 \<in> set (trim rest)"
    by (auto simp: trim_def trim_start_def trim_end_def is_whitespace_def)
  moreover have "\<not> is_base64_char 35" by (simp add: is_base64_char_def)
  ultimately show ?thesis unfolding looks_like_b64_token_def by blast
qed

lemma collect_marker:
  "m = begin_pat f \<or> m = end_pat f \<Longrightarrow> collect_tokens f (m # ls) acc = collect_tokens f ls acc"
  using line_token_marker [of f m] by (auto simp: Let_def split: option.splits)

lemma collect_body:
  "b64_chunks cs \<Longrightarrow> collect_tokens f (map (body_line f) cs @ ls) acc = collect_tokens f ls (acc @ concat cs)"
proof (induction cs arbitrary: acc)
  case (Cons c cs)
  then have c: "\<forall>x\<in>set c. is_base64_char x" "4 \<le> length c" by (simp_all add: b64_chunks_def)
  then have "c \<noteq> []" by auto
  with c obtain rest where "line_token f (body_line f c) = Some rest" "trim rest = c"
    using line_token_body [of c f] by blast
  moreover have "looks_like_b64_token c"
    using c length_utf8_ascii [OF graphic_ascii [OF base64_chunk_graphic [OF c(1)]]]
    by (simp add: looks_like_b64_token_def)
  ultimately show ?case using Cons by (simp add: Let_def b64_chunks_def)
qed simp

section \<open>A signed script\<close>

definition script_block :: "MarkerFamily \<Rightarrow> str list \<Rightarrow> str" where
  "script_block f cs =
     concat (map (\<lambda>l. l @ [13, 10]) ([] # begin_pat f # map (body_line f) cs)) @ end_pat f @ [13, 10]"

lemma format_block:
  "format_powershell_signature_block B p ext = script_block (format_family ext) (chunks 64 (b64_encode B p))"
  by (simp add: format_powershell_signature_block_def script_block_def body_line_def crlf_def Let_def comp_def)

lemma b64_chunks_encode:
  assumes "base64_ok B" "4 dvd length (b64_encode B p)"
  shows "b64_chunks (chunks 64 (b64_encode B p))"
proof -
  have "4 \<le> length c" if "c \<in> set (chunks 64 (b64_encode B p))" for c
    using chunks_parts [OF that] chunks_mod [OF that, of 4] assms(2) by (auto intro: dvd_imp_le)
  then show ?thesis
    using chunks_parts base64_ok_chars [OF assms(1)] by (fastforce simp: b64_chunks_def)
qed

lemma lines_blocks:
  "\<forall>l\<in>set ls. 10 \<notin> set l \<Longrightarrow> lines (concat (map (\<lambda>l. l @ [13, 10]) ls) @ r) = ls @ lines r"
proof (induction ls)
  case (Cons l ls)
  then show ?case using lines_crlf [of l] by simp
qed simp

lemma script_block_ascii: "b64_chunks cs \<Longrightarrow> is_ascii (script_block f cs)"
  using marker_facts(4,8) body_line_free(2)
  by (fastforce simp: script_block_def b64_chunks_def is_ascii_def)

lemma extract_from_signed:
  assumes "\<not> occurs (begin_pat f) s" "b64_chunks cs" "concat cs = b64_encode B p" "p \<noteq> []" "base64_ok B"
    and "from_utf16_lossy (script_units raw) = s @ script_block f cs"
  shows "extract_pkcs7_der_from_script B raw f = Inr p"
proof -
  let ?ls = "begin_pat f # map (body_line f) cs"
  let ?q = "concat (map (\<lambda>l. l @ [13, 10]) ?ls)"
  have hb: "find_subslice (s @ script_block f cs) (begin_pat f) = Some (length s + 2)"
    using find_after_break [OF assms(1) marker_facts(1,2,3), of "13 # 10 #
      concat (map (\<lambda>l. l @ [13, 10]) (map (body_line f) cs)) @ end_pat f @ [13, 10]"]
    by (simp add: script_block_def)
  have tail: "drop (length s + 2) (s @ script_block f cs) = ?q @ end_pat f @ [13, 10]"
    by (simp add: script_block_def)
  have free: "\<forall>l\<in>set ?ls. \<not> occurs (end_pat f) l"
    using end_not_in_begin end_not_in_line assms(2) by (auto simp: b64_chunks_def)
  have fin: "find_subslice (?q @ end_pat f @ [13, 10]) (end_pat f) = Some (length ?q)"
    using find_behind_lines [OF free marker_facts(5,6,7), of "[]" "[13, 10]"] by simp
  have "\<forall>l\<in>set ?ls. 10 \<notin> set l"
    using marker_facts(2) body_line_free(1) assms(2) by (auto simp: b64_chunks_def)
  then have "lines (?q @ end_pat f) = ?ls @ [end_pat f]"
    using lines_blocks [of ?ls "end_pat f"] lines_single [OF marker_facts(7,6)] by simp
  then have tokens: "collect_tokens f (lines (?q @ end_pat f)) [] = b64_encode B p"
    using assms(2,3) collect_body [of cs f "[end_pat f]" "[]"] by (simp add: collect_marker del: collect_tokens.simps(2))
  have "trim (b64_encode B p) = b64_encode B p"
    using graphic_trim [OF base64_graphic [OF assms(5)]] .
  then show ?thesis
    using assms(4,5) hb tail fin tokens
    by (simp add: extract_pkcs7_der_from_script_def assms(6) Let_def del: list.map concat.simps)
qed

lemma unit_in_ascii:
  "is_ascii s \<Longrightarrow> c < 0x80 \<Longrightarrow> (word_of_nat c :: u16) \<in> word_of_nat ` set s \<longleftrightarrow> c \<in> set s"
proof
  assume a: "is_ascii s" "c < 0x80" "(word_of_nat c :: u16) \<in> word_of_nat ` set s"
  then obtain x where x: "x \<in> set s" "(word_of_nat c :: u16) = word_of_nat x" by blast
  then have "x < 0x80" using a(1) by (simp add: is_ascii_def)
  then have "unat (word_of_nat c :: u16) = c" "unat (word_of_nat x :: u16) = x" using a(2) by simp_all
  with x show "c \<in> set s" by metis
qed blast

lemma strip_from_signed:
  assumes "\<not> occurs (begin_pat f) s" "b64_chunks cs" "wf_str s"
  shows "strip_signature_region_utf16 (encode_utf16 (s @ script_block f cs)) f = Inr (encode_utf16 s)"
proof -
  let ?u = "map word_of_nat :: str \<Rightarrow> u16 list"
  let ?r = "word_of_nat 13 :: u16" let ?n = "word_of_nat 10 :: u16"
  let ?ls = "[] # begin_pat f # map (body_line f) cs"
  let ?q = "concat (map (\<lambda>l. l @ [?r, ?n]) (map ?u ?ls))"
  have unit: "?r \<notin> set (?u (begin_pat f))" "?r \<notin> set (?u (end_pat f))" "?n \<notin> set (?u (end_pat f))"
    using unit_in_ascii [OF marker_facts(4), of 13 f] unit_in_ascii [OF marker_facts(8), of 13 f]
      unit_in_ascii [OF marker_facts(8), of 10 f] marker_facts(1,5,6) [of f]
    by simp_all
  have pats: "encode_utf16 (crlf @ begin_pat f @ crlf) = ?r # ?n # ?u (begin_pat f) @ [?r, ?n]"
    "encode_utf16 (end_pat f @ crlf) = ?u (end_pat f) @ [?r, ?n]"
    using marker_facts(4,8) by (simp_all add: crlf_def encode_utf16_ascii utf16_char_bmp)
  have blk: "encode_utf16 (script_block f cs) = ?q @ ?u (end_pat f) @ [?r, ?n]"
    using script_block_ascii [OF assms(2)]
    by (simp add: encode_utf16_ascii) (simp add: script_block_def map_concat comp_def)
  have b: "\<not> occurs (?u (begin_pat f)) (encode_utf16 s)"
    using utf16_occurs [OF assms(3) marker_facts(4,3)] assms(1) by simp
  have start: "find_subslice (encode_utf16 (s @ script_block f cs)) (?r # ?n # ?u (begin_pat f) @ [?r, ?n]) =
      Some (length (encode_utf16 s))"
    using find_marker_line [OF b unit(1), of ?n "concat (map (\<lambda>l. l @ [?r, ?n]) (map (?u \<circ> body_line f) cs)) @
        ?u (end_pat f) @ [?r, ?n]"] marker_facts(3) [of f]
    by (simp add: blk)
  have free: "\<not> occurs (?u (end_pat f)) (?u l)" if "l \<in> set ?ls" for l
  proof -
    have "is_ascii l \<and> \<not> occurs (end_pat f) l"
      using that end_not_in_begin end_not_in_line assms(2) marker_facts(4,7) body_line_free(2)
      by (auto simp: b64_chunks_def occurs_iff)
    then show ?thesis
      using utf16_occurs [OF wf_str_ascii marker_facts(8,7), of l f] by (simp add: encode_utf16_ascii)
  qed
  then have "find_subslice (?q @ ?u (end_pat f) @ [?r, ?n] @ []) (?u (end_pat f) @ [?r, ?n]) = Some (length ?q)"
    using marker_facts(7) [of f] unfolding map_map [symmetric] ball_simps
    by (intro find_behind_lines unit ballI) (force simp del: list.map)+
  then have fin: "find_subslice (encode_utf16 (script_block f cs)) (?u (end_pat f) @ [?r, ?n]) = Some (length ?q)"
    by (simp add: blk)
  show ?thesis
    unfolding strip_signature_region_utf16_def markers_def prod.case pats
    using start fin by (simp add: Let_def blk)
qed

section \<open>Script files\<close>

text \<open>The three ways a script's text is stored that the signer keeps apart.\<close>

datatype script_form = Utf8 | Utf16Le | Utf16Be

fun script_file :: "script_form \<Rightarrow> str \<Rightarrow> u8 list" where
  "script_file Utf8 s = utf8 s"
| "script_file Utf16Le s = [0xFF, 0xFE] @ utf16le_bytes (encode_utf16 s)"
| "script_file Utf16Be s = [0xFE, 0xFF] @ utf16be_bytes (encode_utf16 s)"

lemma utf16_bytes_eq: "utf16le_bytes ws = utf16_bytes_le ws"
  by (simp add: utf16le_bytes_def utf16_bytes_le_def)

lemma units_le_inverse: "units_le (utf16le_bytes ws) = ws"
  using units_le_bytes [of ws "[]"] by (simp add: utf16_bytes_eq)

lemma units_be_inverse: "units_be (utf16be_bytes ws) = ws"
proof (induction ws)
  case (Cons w ws)
  obtain a b where "u16_to_le w = [a, b]"
    using u16le.width_enc [of w] by (metis (no_types) length_0_conv length_Suc_conv numeral_2_eq_2)
  then show ?case using Cons u16le.dec_enc [of w] by (simp add: utf16be_bytes_def)
qed (simp add: utf16be_bytes_def)

lemma utf8_no_mark:
  assumes "wf_str s"
  shows "take 2 (utf8 s) \<noteq> [0xFF, 0xFE]" "take 2 (utf8 s) \<noteq> [0xFE, 0xFF]"
proof -
  have *: "hd (utf8 s) \<noteq> 0xFF \<and> hd (utf8 s) \<noteq> 0xFE" if ne: "s \<noteq> []"
  proof -
    obtain c t where "s = c # t" using ne by (cases s) auto
    then have "utf8_step (utf8 s) = Some (c, utf8 t)" using assms utf8_step_char [of c "utf8 t"] by simp
    then show ?thesis by (cases "utf8 s") (auto simp: Let_def)
  qed
  show "take 2 (utf8 s) \<noteq> [0xFF, 0xFE]" "take 2 (utf8 s) \<noteq> [0xFE, 0xFF]"
    using * by (cases s; cases "utf8 s"; auto)+
qed

lemma append_script_file:
  "wf_str s \<Longrightarrow> append_script_signature_block (script_file form s) blk = script_file form (s @ blk)"
  using utf8_no_mark [of s]
  by (cases form) (simp_all add: append_script_signature_block_def utf16le_bytes_def utf16be_bytes_def)

lemma file_units:
  "wf_str s \<Longrightarrow> file_utf16_units (script_file form s) = encode_utf16 s"
  using utf8_no_mark [of s]
  by (cases form) (simp_all add: file_utf16_units_def units_le_inverse units_be_inverse from_utf8_lossy_utf8)

definition read_text :: "script_form \<Rightarrow> str \<Rightarrow> str" where
  "read_text form s = (if form = Utf16Le then 0xFEFF # s else s)"

lemma script_units_file:
  "wf_str s \<Longrightarrow> script_units (script_file form s) = encode_utf16 (read_text form s)"
  using utf8_no_mark [of s] file_units [of s form]
  by (cases form) (simp_all add: script_units_def read_text_def Let_def utf16_char_bmp)

text \<open>
  What the pipelines accept: a script in one of the forms that does not contain the begin marker
  yet, and a blob whose base64 text is padded to quadruples, as the standard engine writes it.
\<close>

definition script_admissible :: "base64 \<Rightarrow> str \<Rightarrow> script_form set \<Rightarrow> u8 list \<Rightarrow> u8 list \<Rightarrow> bool" where
  "script_admissible B ext forms raw p \<longleftrightarrow>
     base64_ok B \<and> p \<noteq> [] \<and> 4 dvd length (b64_encode B p) \<and> extension_supported ext \<and>
     (\<exists>form\<in>forms. \<exists>s. wf_str s \<and> raw = script_file form s \<and> \<not> occurs (begin_pat (format_family ext)) s)"

definition sign_script :: "base64 \<Rightarrow> str \<Rightarrow> u8 list \<Rightarrow> u8 list \<Rightarrow> u8 list res" where
  "sign_script B ext raw p =
     Inr (append_script_signature_block raw (format_powershell_signature_block B p ext))"

lemma family_of_supported: "extension_supported ext \<Longrightarrow> marker_family (to_ascii_lowercase ext) = Inr (format_family ext)"
  by (auto simp: extension_supported_def marker_family_def format_family_def Let_def)

lemma read_text_free:
  assumes "\<not> occurs (begin_pat f) s"
  shows "\<not> occurs (begin_pat f) (read_text form s)"
proof
  assume "occurs (begin_pat f) (read_text form s)"
  then obtain i where o: "occurs_at (begin_pat f) (read_text form s) i" by (auto simp: occurs_def)
  show False
  proof (cases "form = Utf16Le")
    case True
    then have "i \<noteq> 0" using occurs_at_nth [OF o, of 0] by (cases f; cases i) (auto simp: read_text_def)
    then show False using o True assms by (cases i) (auto simp: read_text_def occurs_at_Cons occurs_def)
  qed (use o assms in \<open>auto simp: read_text_def occurs_def\<close>)
qed

lemma signed_script:
  assumes "script_admissible B ext forms raw p" "sign_script B ext raw p = Inr out"
  obtains form s where "form \<in> forms" "wf_str s" "raw = script_file form s"
    "extract_pkcs7_der_from_script B out (format_family ext) = Inr p"
    "strip_signature_region_utf16 (script_units out) (format_family ext) = Inr (encode_utf16 (read_text form s))"
proof -
  let ?f = "format_family ext" let ?cs = "chunks 64 (b64_encode B p)"
  obtain form s where form: "form \<in> forms" and s: "wf_str s" "raw = script_file form s" "\<not> occurs (begin_pat ?f) s"
    using assms(1) by (auto simp: script_admissible_def)
  have B: "base64_ok B" "p \<noteq> []" "4 dvd length (b64_encode B p)"
    using assms(1) by (simp_all add: script_admissible_def)
  have cs: "b64_chunks ?cs" "concat ?cs = b64_encode B p"
    using b64_chunks_encode [OF B(1,3)] by (simp_all add: concat_chunks)
  have wf: "wf_str (s @ script_block ?f ?cs)" "wf_str (read_text form s)"
    using s(1) wf_str_ascii [OF script_block_ascii [OF cs(1)]] by (simp_all add: read_text_def is_scalar_def)
  have out: "out = script_file form (s @ script_block ?f ?cs)"
    using assms(2) s append_script_file by (simp add: sign_script_def format_block)
  have rt: "read_text form (s @ b) = read_text form s @ b" for b by (simp add: read_text_def)
  have u: "script_units out = encode_utf16 (read_text form s @ script_block ?f ?cs)"
    using script_units_file [OF wf(1)] out rt by simp
  have "from_utf16_lossy (script_units out) = read_text form s @ script_block ?f ?cs"
    unfolding u using wf by (intro from_utf16_lossy_encode) (simp add: read_text_def)
  then have "extract_pkcs7_der_from_script B out ?f = Inr p"
    by (rule extract_from_signed [OF read_text_free [OF s(3)] cs B(2,1)])
  then show ?thesis
    using that form s(1,2) strip_from_signed [OF read_text_free [OF s(3)] cs(1) wf(2)] u by simp
qed

definition script_digest_to_verify :: "hash_fn \<Rightarrow> PeAuthenticodeHashKind \<Rightarrow> MarkerFamily \<Rightarrow> u8 list \<Rightarrow> u8 list res" where
  "script_digest_to_verify H kind family raw =
     rbind (strip_signature_region_utf16 (script_units raw) family) (\<lambda>u. hash_payload H kind (utf16le_bytes u))"

definition script_digest_to_sign :: "hash_fn \<Rightarrow> PeAuthenticodeHashKind \<Rightarrow> u8 list \<Rightarrow> u8 list res" where
  "script_digest_to_sign H kind raw = hash_payload H kind (utf16le_bytes (file_utf16_units raw))"

interpretation script_sip: sig_container "script_admissible B ext {Utf8, Utf16Be}" "sign_script B ext"
  "\<lambda>g. extract_pkcs7_der_from_script B g (format_family ext)" "script_digest_to_sign H k"
  "script_digest_to_verify H k (format_family ext)"
  for B ext H k
proof
  fix raw p g
  assume adm: "script_admissible B ext {Utf8, Utf16Be} raw p"
  show "\<exists>g. sign_script B ext raw p = Inr g" by (simp add: sign_script_def)
  assume sg: "sign_script B ext raw p = Inr g"
  show "extract_pkcs7_der_from_script B g (format_family ext) = Inr p"
    by (rule signed_script [OF adm sg])
  show "script_digest_to_verify H k (format_family ext) g = script_digest_to_sign H k raw"
  proof (rule signed_script [OF adm sg])
    fix form s
    assume "form \<in> {Utf8, Utf16Be}" "wf_str s" "raw = script_file form s"
      "strip_signature_region_utf16 (script_units g) (format_family ext) = Inr (encode_utf16 (read_text form s))"
    then show ?thesis
      by (auto simp: script_digest_to_verify_def script_digest_to_sign_def file_units read_text_def)
  qed
qed

section \<open>Properties\<close>

lemma report_signed:
  assumes "script_admissible B ext forms raw p" "sign_script B ext raw p = Inr out"
    and "hash_lengths H" "script_authenticode_digest H raw alg = Inr d" "sig_digest p = Some d"
  shows "powershell_class_digest_report B H sig_digest out ext =
    rbind (script_digest_to_verify H (pe_hash_kind alg) (format_family ext) out) (\<lambda>c.
      if c \<noteq> d then bail ''script Authenticode digest mismatch (experimental UTF-16 strip heuristic vs PKCS#7)''
      else Inr \<lparr>rep_pkcs7_der = p, rep_embedded_digest = d, rep_computed_digest = c\<rparr>)"
proof -
  have "extract_pkcs7_der_from_script B out (format_family ext) = Inr p"
    by (rule signed_script [OF assms(1,2)])
  moreover have ext: "extension_supported ext" using assms(1) by (simp add: script_admissible_def)
  moreover have "extension_supported (to_ascii_lowercase ext)" using ext by (simp add: extension_supported_def)
  moreover have "from_digest_byte_len (length d) = Inr (pe_hash_kind alg)"
    using assms(3,4) by (auto simp: script_authenticode_digest_def hash_payload_def hash_lengths_def from_digest_byte_len_iff)
  ultimately show ?thesis
    using assms(5) family_of_supported [of ext]
    by (simp add: powershell_class_digest_report_def script_digest_to_verify_def Let_def hash_payload_def rbind_assoc)
qed

text \<open>C9: a PowerShell-class script signs and verifies. For every UTF-8 or big-endian UTF-16 script
  that does not contain the begin marker and every blob, the file with the signature block appended
  gives back the blob, and the digest recomputed from it is the one that was signed.\<close>

theorem script_sign_then_verify:
  assumes "script_admissible B ext {Utf8, Utf16Be} raw p" and "hash_lengths H"
    and "script_authenticode_digest H raw alg = Inr d" and "sig_digest p = Some d"
  shows "powershell_class_digest_report B H sig_digest
      (append_script_signature_block raw (format_powershell_signature_block B p ext)) ext =
    Inr \<lparr>rep_pkcs7_der = p, rep_embedded_digest = d, rep_computed_digest = d\<rparr>"
proof -
  obtain out where out: "sign_script B ext raw p = Inr out"
    "out = append_script_signature_block raw (format_powershell_signature_block B p ext)"
    by (simp add: sign_script_def)
  have "script_digest_to_verify H (pe_hash_kind alg) (format_family ext) out = Inr d"
    using script_sip.digest_embed [OF assms(1) out(1)] assms(3)
    by (auto simp: script_digest_to_sign_def script_authenticode_digest_def hash_payload_def split: if_splits)
  then show ?thesis
    using report_signed [where sig_digest = sig_digest, OF assms(1) out(1) assms(2,3,4)] unfolding out(2) [symmetric] by simp
qed

text \<open>An engine whose text needs padding only for blobs of odd length, and a script without markers.\<close>

definition toy_hash :: hash_fn where
  "toy_hash k m = replicate (digest_output_len k) (word_of_nat (length m))"

lemma toy_hash_lengths: "hash_lengths toy_hash"
  by (simp add: hash_lengths_def toy_hash_def)

definition sample_script :: str where "sample_script = lit ''exit''"
definition sample_ext :: str where "sample_ext = lit ''PS1''"

lemma sample_script_facts: "wf_str sample_script" "length (utf16le_bytes (encode_utf16 sample_script)) = 8"
  "extension_supported sample_ext" "format_family sample_ext = Hash"
  by (simp_all add: sample_script_def sample_ext_def is_scalar_def utf16_bytes_eq utf16_char_bmp
      extension_supported_def to_ascii_lowercase_def char_lower_def format_family_def Let_def)

lemma sample_script_admissible:
  assumes "form \<in> forms"
  shows "script_admissible hex_engine sample_ext forms (script_file form sample_script) [0x30, 0x82]"
proof -
  have "\<not> occurs (begin_pat Hash) sample_script"
  proof
    assume "occurs (begin_pat Hash) sample_script"
    then obtain i where "occurs_at (begin_pat Hash) sample_script i" by (auto simp: occurs_def)
    then have "length (begin_pat Hash) \<le> length sample_script" by (simp add: occurs_at_def)
    then show False by (simp add: sample_script_def)
  qed
  moreover have "length (b64_encode hex_engine [0x30, 0x82]) = 4" by (simp add: hex_engine_def)
  ultimately show ?thesis
    using hex_engine_ok sample_script_facts assms unfolding script_admissible_def by auto
qed

theorem script_sign_then_verify_witness:
  "\<exists>d. powershell_class_digest_report hex_engine toy_hash (\<lambda>p. Some d)
      (append_script_signature_block (script_file Utf8 sample_script)
         (format_powershell_signature_block hex_engine [0x30, 0x82] sample_ext)) sample_ext =
    Inr \<lparr>rep_pkcs7_der = [0x30, 0x82], rep_embedded_digest = d, rep_computed_digest = d\<rparr>"
  by (rule exI, rule script_sign_then_verify [where alg = Sign_Sha256])
    (use sample_script_admissible [of Utf8] in \<open>auto simp: toy_hash_lengths script_authenticode_digest_def
       hash_payload_def toy_hash_def simp del: script_file.simps\<close>)

text \<open>little-endian UTF-16 scripts do not round-trip. The signer hashes the code units without
  the byte-order mark, the verifier puts the mark back in front of them, so the file it has just
  signed is rejected with the mismatch error unless the hash collides on the two inputs.\<close>

theorem script_utf16le_rejected:
  assumes "script_admissible B ext {Utf16Le} (script_file Utf16Le s) p" and "hash_lengths H" and "wf_str s"
    and "script_authenticode_digest H (script_file Utf16Le s) alg = Inr d" and "sig_digest p = Some d"
    and "H (pe_hash_kind alg) ([0xFF, 0xFE] @ utf16le_bytes (encode_utf16 s)) \<noteq>
         H (pe_hash_kind alg) (utf16le_bytes (encode_utf16 s))"
  shows "powershell_class_digest_report B H sig_digest
      (append_script_signature_block (script_file Utf16Le s) (format_powershell_signature_block B p ext)) ext =
    bail ''script Authenticode digest mismatch (experimental UTF-16 strip heuristic vs PKCS#7)''"
proof -
  obtain out where out: "sign_script B ext (script_file Utf16Le s) p = Inr out"
    "out = append_script_signature_block (script_file Utf16Le s) (format_powershell_signature_block B p ext)"
    by (simp add: sign_script_def)
  have d: "d = H (pe_hash_kind alg) (utf16le_bytes (encode_utf16 s))"
    using assms(3,4) file_units [of s Utf16Le]
    by (auto simp: script_authenticode_digest_def hash_payload_def split: if_splits)
  have "strip_signature_region_utf16 (script_units out) (format_family ext) = Inr (0xFEFF # encode_utf16 s)"
  proof (rule signed_script [OF assms(1) out(1)])
    fix form t
    assume f: "form \<in> {Utf16Le}" "wf_str t" "script_file Utf16Le s = script_file form t"
      and "strip_signature_region_utf16 (script_units out) (format_family ext) = Inr (encode_utf16 (read_text form t))"
    moreover have "encode_utf16 t = encode_utf16 s"
      using f file_units [of s Utf16Le] file_units [of t Utf16Le] assms(3) by auto
    ultimately show ?thesis by (simp add: read_text_def utf16_char_bmp)
  qed
  moreover have "utf16le_bytes (0xFEFF # encode_utf16 s) = [0xFF, 0xFE] @ utf16le_bytes (encode_utf16 s)"
    by (simp add: utf16le_bytes_def u16_to_le_def le_bytes_width)
  ultimately show ?thesis
    using report_signed [where sig_digest = sig_digest, OF assms(1) out(1) assms(2,4,5)] d assms(6)
    unfolding out(2) [symmetric] by (simp add: script_digest_to_verify_def hash_payload_def)
qed

theorem script_utf16le_rejected_witness:
  "\<exists>d. powershell_class_digest_report hex_engine toy_hash (\<lambda>p. Some d)
      (append_script_signature_block (script_file Utf16Le sample_script)
         (format_powershell_signature_block hex_engine [0x30, 0x82] sample_ext)) sample_ext =
    bail ''script Authenticode digest mismatch (experimental UTF-16 strip heuristic vs PKCS#7)''"
proof (rule exI, rule script_utf16le_rejected [where alg = Sign_Sha256 and d = "replicate 32 8"])
  show "script_authenticode_digest toy_hash (script_file Utf16Le sample_script) Sign_Sha256 = Inr (replicate 32 8)"
    by (simp add: script_authenticode_digest_def file_units sample_script_facts hash_payload_def toy_hash_def
        del: script_file.simps)
  show "toy_hash (pe_hash_kind Sign_Sha256) ([0xFF, 0xFE] @ utf16le_bytes (encode_utf16 sample_script)) \<noteq>
      toy_hash (pe_hash_kind Sign_Sha256) (utf16le_bytes (encode_utf16 sample_script))"
    using sample_script_facts(2) by (simp add: toy_hash_def)
qed (simp_all add: sample_script_admissible toy_hash_lengths sample_script_facts del: script_file.simps)

end
