(* ===== verification/Script_Remove.thy ===== *)
theory Script_Remove
  imports Script_Signing
begin

text \<open>
  Model of \<^verbatim>\<open>src/portable_remove.rs\<close>: taking the signature block out of a PowerShell-class script
  while keeping the encoding of the file. The command line, the reading and the writing of the file
  are left out; the PE half of the command is \<open>pe_remove_authenticode_certificates\<close> of \<open>Pe_Embed\<close>.
\<close>

definition line_payload :: "str \<Rightarrow> str \<Rightarrow> str option" where
  "line_payload ext line =
     (if ext = lit ''ps1xml'' \<or> ext = lit ''psc1'' \<or> ext = lit ''cdxml''
      then obind (strip_prefix (lit ''<!-- '') line) (strip_suffix (lit '' -->''))
      else if ext = lit ''mof'' then obind (strip_prefix (lit ''/* '') line) (strip_suffix (lit '' */''))
      else strip_prefix (lit ''# '') line)"

fun decoded_lines :: "str \<Rightarrow> str list \<Rightarrow> str \<Rightarrow> str option" where
  "decoded_lines ext [] payload = Some payload"
| "decoded_lines ext (l # ls) payload =
     obind (line_payload ext l) (\<lambda>encoded. decoded_lines ext ls (payload @ encoded))"

definition is_authenticode_signature_block :: "base64 \<Rightarrow> str \<Rightarrow> str \<Rightarrow> bool" where
  "is_authenticode_signature_block B body ext =
     (case decoded_lines ext (filter (\<lambda>l. l \<noteq> []) (map trim (lines body))) [] of
        None \<Rightarrow> False
      | Some payload \<Rightarrow> payload \<noteq> [] \<and> b64_decode B payload \<noteq> None)"

definition remove_markers :: "str \<Rightarrow> str \<times> str" where
  "remove_markers ext =
     (if ext = lit ''ps1xml'' \<or> ext = lit ''psc1'' \<or> ext = lit ''cdxml''
      then (lit ''<!-- SIG # Begin signature block -->'', lit ''<!-- SIG # End signature block -->'')
      else if ext = lit ''mof''
      then (lit ''/* SIG # Begin signature block */'', lit ''/* SIG # End signature block */'')
      else (lit ''# SIG # Begin signature block'', lit ''# SIG # End signature block''))"

definition remove_script_signature_block :: "base64 \<Rightarrow> str \<Rightarrow> str \<Rightarrow> str option" where
  "remove_script_signature_block B content ext =
     (case remove_markers ext of (beg, fin) \<Rightarrow>
      obind (find_last_subslice content beg) (\<lambda>begin_at.
      obind (find_subslice (drop (begin_at + length beg) content) fin) (\<lambda>rel.
      let end_at = rel + begin_at + length beg;
          after_end = end_at + length fin in
      if trim (drop after_end content) \<noteq> [] \<or>
         \<not> is_authenticode_signature_block B (sub content (begin_at + length beg) (end_at - (begin_at + length beg))) ext
      then None
      else
        let remove_start = (if ends_with crlf (take begin_at content) then begin_at - 2
              else if ends_with [10] (take begin_at content) then begin_at - 1 else begin_at);
            remove_end = (if starts_with crlf (drop after_end content) then after_end + 2
              else if starts_with [10] (drop after_end content) then after_end + 1 else after_end) in
        Some (take remove_start content @ drop remove_end content))))"

datatype ScriptEncoding = Enc_Utf8 bool | Enc_Utf16Le | Enc_Utf16Be

definition decode_utf16 :: "u8 list \<Rightarrow> bool \<Rightarrow> str res" where
  "decode_utf16 bytes little_endian =
     (if length bytes mod 2 \<noteq> 0 then bail ''UTF-16 script has an odd byte length''
      else ok_or (from_utf16 (if little_endian then units_le bytes else units_be bytes)) ''invalid UTF-16 script'')"

definition script_decode :: "u8 list \<Rightarrow> (str \<times> ScriptEncoding) res" where
  "script_decode bytes =
     (if take 3 bytes = [0xEF, 0xBB, 0xBF]
      then rbind (ok_or (from_utf8 (drop 3 bytes)) ''invalid UTF-8 with BOM'') (\<lambda>s. Inr (s, Enc_Utf8 True))
      else if take 2 bytes = [0xFF, 0xFE]
      then rbind (decode_utf16 (drop 2 bytes) True) (\<lambda>s. Inr (s, Enc_Utf16Le))
      else if take 2 bytes = [0xFE, 0xFF]
      then rbind (decode_utf16 (drop 2 bytes) False) (\<lambda>s. Inr (s, Enc_Utf16Be))
      else rbind (ok_or (from_utf8 bytes) ''invalid UTF-8 script'') (\<lambda>s. Inr (s, Enc_Utf8 False)))"

definition script_encode_utf16 :: "str \<Rightarrow> bool \<Rightarrow> u8 list \<Rightarrow> u8 list" where
  "script_encode_utf16 content little_endian bom =
     bom @ concat (map (\<lambda>w. if little_endian then u16_to_le w else rev (u16_to_le w)) (encode_utf16 content))"

fun script_encode :: "ScriptEncoding \<Rightarrow> str \<Rightarrow> u8 list" where
  "script_encode (Enc_Utf8 bom) content = (if bom then [0xEF, 0xBB, 0xBF] else []) @ utf8 content"
| "script_encode Enc_Utf16Le content = script_encode_utf16 content True [0xFF, 0xFE]"
| "script_encode Enc_Utf16Be content = script_encode_utf16 content False [0xFE, 0xFF]"

text \<open>What the file holds afterwards: \<open>None\<close> where it is left alone.\<close>

definition remove_powershell_signature :: "base64 \<Rightarrow> u8 list \<Rightarrow> str \<Rightarrow> u8 list option res" where
  "remove_powershell_signature B bytes ext =
     rbind (script_decode bytes) (\<lambda>(content, encoding).
       Inr (map_option (script_encode encoding) (remove_script_signature_block B content ext)))"

section \<open>Finding the last block\<close>

lemma find_last_marker:
  assumes "r \<notin> set b" "nl \<notin> set b" "b \<noteq> []" "\<forall>l\<in>set ls. \<not> occurs b l"
  shows "find_last_subslice (pre @ b @ r # nl # concat (map (\<lambda>l. l @ [r, nl]) ls)) b = Some (length pre)"
proof -
  let ?L = "concat (map (\<lambda>l. l @ [r, nl]) ls)" let ?h = "pre @ b @ r # nl # ?L"
  have "\<not> occurs_at b ?h j" if j: "length pre < j" for j
  proof
    assume o: "occurs_at b ?h j"
    define i where "i = j - length pre"
    have o: "occurs_at b ((b @ [r, nl]) @ ?L) i" using occurs_at_in_right [OF o] j by (simp add: i_def)
    consider "0 < i" "i \<le> length b" | "i = length b + 1" | "length b + 2 \<le> i"
      using j by (auto simp: i_def) linarith
    then show False
    proof cases
      case 1
      then have "b ! (length b - i) = ((b @ [r, nl]) @ ?L) ! length b"
        using occurs_at_nth [OF o, of "length b - i"] by simp
      then have "b ! (length b - i) = r" by simp
      moreover have "length b - i < length b" using 1 assms(3) by (cases b) auto
      ultimately show False using assms(1) nth_mem by metis
    next
      case 2
      then have "b ! 0 = nl" using occurs_at_nth [OF o, of 0] assms(3) by (simp add: nth_append)
      then show False using assms(2,3) nth_mem [of 0 b] by auto
    next
      case 3
      then have o': "occurs_at b ?L (i - (length b + 2))" using occurs_at_in_right [OF o] by simp
      then have "i - (length b + 2) < length ?L" using assms(3) by (cases b) (auto simp: occurs_at_def)
      then show False using no_occurrence_in_lines [OF assms(4,1,2,3), of _ "[]"] o' by simp
    qed
  qed
  moreover have "occurs_at b ?h (length pre)" by (auto simp: occurs_at_iff)
  ultimately show ?thesis using assms(3) by (auto simp: find_last_subslice_Some)
qed

lemma begin_not_in_end: "\<not> occurs (begin_pat f) (end_pat f)"
  using count_occurs [of "begin_pat f" "end_pat f" 66] by (cases f) auto

lemma begin_not_in_line:
  assumes "\<forall>x\<in>set c. is_base64_char x"
  shows "\<not> occurs (begin_pat f) (body_line f c)"
proof -
  have "count_list c 35 = 0" using assms base64_char_not by (auto simp: count_list_0_iff)
  then show ?thesis
    using count_occurs [of "begin_pat f" "body_line f c" 35] by (cases f) (auto simp: body_line_def)
qed

lemma remove_markers_eq:
  "to_ascii_lowercase ext = ext \<Longrightarrow> remove_markers ext = (begin_pat (format_family ext), end_pat (format_family ext))"
  by (simp add: remove_markers_def format_family_def Let_def)

lemma line_payload_body:
  assumes "to_ascii_lowercase ext = ext"
  shows "line_payload ext (body_line (format_family ext) c) = Some c"
proof -
  have "strip_suffix (lit '' -->'') (c @ lit '' -->'') = Some c" "strip_suffix (lit '' */'') (c @ lit '' */'') = Some c"
    by (simp_all add: strip_suffix_Some)
  then show ?thesis using assms by (simp add: line_payload_def body_line_def format_family_def Let_def)
qed

lemma decoded_body:
  assumes "to_ascii_lowercase ext = ext"
  shows "decoded_lines ext (map (body_line (format_family ext)) cs) acc = Some (acc @ concat cs)"
  by (induction cs arbitrary: acc) (simp_all add: line_payload_body [OF assms])

lemma trim_body_line:
  assumes "\<forall>x\<in>set c. is_base64_char x" "c \<noteq> []"
  shows "trim (body_line f c) = body_line f c" "body_line f c \<noteq> []"
  using graphic_trimmed [OF base64_chunk_graphic [OF assms(1)]] assms(2)
  by (intro trim_id, cases f; auto simp: body_line_def trimmed_def is_whitespace_def)
    (cases f; use assms(2) in \<open>simp add: body_line_def\<close>)

lemma block_recognised:
  assumes "to_ascii_lowercase ext = ext" "b64_chunks cs" "concat cs = b64_encode B p" "p \<noteq> []" "base64_ok B"
  shows "is_authenticode_signature_block B
    (concat (map (\<lambda>l. l @ [13, 10]) ([] # map (body_line (format_family ext)) cs))) ext"
proof -
  let ?f = "format_family ext"
  have c: "\<forall>c\<in>set cs. (\<forall>x\<in>set c. is_base64_char x) \<and> c \<noteq> []" using assms(2) by (auto simp: b64_chunks_def)
  then have "\<forall>l\<in>set ([] # map (body_line ?f) cs). 10 \<notin> set l" using body_line_free(1) by auto
  then have "lines (concat (map (\<lambda>l. l @ [13, 10]) ([] # map (body_line ?f) cs))) = [] # map (body_line ?f) cs"
    using lines_blocks [of "[] # map (body_line ?f) cs" "[]"] by simp
  moreover have "filter (\<lambda>l. l \<noteq> []) (map trim ([] # map (body_line ?f) cs)) = map (body_line ?f) cs"
  proof -
    have "map trim (map (body_line ?f) cs) = map (body_line ?f) cs" using c trim_body_line(1) by simp
    moreover have "filter (\<lambda>l. l \<noteq> []) (map (body_line ?f) cs) = map (body_line ?f) cs"
      using c trim_body_line(2) by (auto intro!: filter_True)
    moreover have "trim [] = []" by (simp add: trim_def trim_start_def trim_end_def)
    ultimately show ?thesis by (simp only: list.map filter.simps) simp
  qed
  ultimately show ?thesis
    using decoded_body [OF assms(1), of cs "[]"] assms(3,4,5)
    unfolding is_authenticode_signature_block_def by simp
qed

lemma drop_behind: "drop (length x) (x @ [a, b]) = [a, b]" "drop (length x + 2) (x @ [a, b]) = []"
  by simp_all

lemma remove_block:
  assumes "to_ascii_lowercase ext = ext" "b64_chunks cs" "concat cs = b64_encode B p" "p \<noteq> []" "base64_ok B"
  shows "remove_script_signature_block B (s @ script_block (format_family ext) cs) ext = Some s"
proof -
  let ?f = "format_family ext" let ?b = "begin_pat ?f" let ?e = "end_pat ?f"
  let ?body = "concat (map (\<lambda>l. l @ [13, 10]) ([] # map (body_line ?f) cs))"
  let ?t = "s @ script_block ?f cs"
  have t: "?t = (s @ [13, 10]) @ ?b @ ?body @ ?e @ [13, 10]" by (simp add: script_block_def)
  have "\<forall>l\<in>set (map (body_line ?f) cs @ [?e]). \<not> occurs ?b l"
    using begin_not_in_line begin_not_in_end assms(2) by (auto simp: b64_chunks_def)
  from find_last_marker [OF marker_facts(1,2,3) this, of "s @ [13, 10]"]
  have last: "find_last_subslice ?t ?b = Some (length s + 2)"
    by (simp add: script_block_def)
  have rest: "drop (length s + 2 + length ?b) ?t = ?body @ ?e @ [13, 10]"
    unfolding t by simp
  have "\<forall>l\<in>set ([] # map (body_line ?f) cs). \<not> occurs ?e l"
    using end_not_in_line assms(2) marker_facts(7) by (auto simp: b64_chunks_def occurs_iff)
  from find_behind_lines [OF this marker_facts(5,6,7), of "[]" "[13, 10]"]
  have fin: "find_subslice (?body @ ?e @ [13, 10]) ?e = Some (length ?body)" by simp
  have bod: "sub ?t (length s + 2 + length ?b) (length ?body) = ?body"
    unfolding sub_def rest by simp
  have tk: "take (length s + 2) ?t = s @ [13, 10]" "take (length s) ?t = s" by (simp_all add: script_block_def)
  have dr: "drop (length ?body + (length s + 2) + length ?b + length ?e) ?t = [13, 10]"
    "drop (length ?body + (length s + 2) + length ?b + length ?e + 2) ?t = []"
  proof -
    let ?x = "s @ [13, 10] @ ?b @ ?body @ ?e"
    have x: "?t = ?x @ [13, 10]" unfolding t by simp
    have l: "length ?body + (length s + 2) + length ?b + length ?e = length ?x" by simp
    note drop_behind [of ?x 13 10]
    then show "drop (length ?body + (length s + 2) + length ?b + length ?e) ?t = [13, 10]"
      "drop (length ?body + (length s + 2) + length ?b + length ?e + 2) ?t = []"
      unfolding x l by blast+
  qed
  have "trim [13, 10] = []" by (simp add: trim_def trim_start_def trim_end_def is_whitespace_def)
  moreover have "ends_with crlf (s @ [13, 10])" "starts_with crlf [13, 10]"
    by (auto simp: ends_with_iff starts_with_iff crlf_def)
  moreover have "length ?body + (length s + 2) + length ?b - (length s + 2 + length ?b) = length ?body" by simp
  ultimately show ?thesis
    using last rest fin bod tk dr block_recognised [OF assms]
    unfolding remove_script_signature_block_def remove_markers_eq [OF assms(1)] prod.case
    by (simp only: obind_simps Let_def) simp
qed

section \<open>Properties\<close>

text \<open>A byte-order mark in UTF-8 is the first character of the text.\<close>

lemma utf8_bom: "utf8_char 0xFEFF = [0xEF, 0xBB, 0xBF]"
  by (simp add: utf8_char_def)

lemma utf8_bom_iff:
  assumes "wf_str s"
  shows "take 3 (utf8 s) = [0xEF, 0xBB, 0xBF] \<longleftrightarrow> (\<exists>t. s = 0xFEFF # t)"
proof
  assume "take 3 (utf8 s) = [0xEF, 0xBB, 0xBF]"
  then have u: "utf8 s = utf8_char 0xFEFF @ drop 3 (utf8 s)"
    using append_take_drop_id [of 3 "utf8 s"] by (simp add: utf8_bom)
  then obtain c t where s: "s = c # t" by (cases s) (auto simp: utf8_bom)
  have "utf8_step (utf8 s) = Some (c, utf8 t)" using assms s utf8_step_char [of c "utf8 t"] by simp
  moreover have "utf8_step (utf8 s) = Some (0xFEFF, drop 3 (utf8 s))"
    using u utf8_step_char [of "0xFEFF" "drop 3 (utf8 s)"] by (simp add: is_scalar_def)
  ultimately show "\<exists>t. s = 0xFEFF # t" using s by simp
qed (auto simp: utf8_bom)

text \<open>The text of a file without its mark, and the encoding that is remembered.\<close>

fun decoded_form :: "script_form \<Rightarrow> str \<Rightarrow> str \<times> ScriptEncoding" where
  "decoded_form Utf8 s = (if s \<noteq> [] \<and> hd s = 0xFEFF then (tl s, Enc_Utf8 True) else (s, Enc_Utf8 False))"
| "decoded_form Utf16Le s = (s, Enc_Utf16Le)"
| "decoded_form Utf16Be s = (s, Enc_Utf16Be)"

lemma length_utf16be [simp]: "length (utf16be_bytes ws) = 2 * length ws"
  by (induction ws) (simp_all add: utf16be_bytes_def)

lemma script_decode_file:
  assumes "wf_str s"
  shows "script_decode (script_file form s) = Inr (decoded_form form s)"
proof (cases form)
  case Utf8
  show ?thesis
  proof (cases "\<exists>t. s = 0xFEFF # t")
    case True
    then obtain t where "s = 0xFEFF # t" by blast
    then show ?thesis using Utf8 assms by (simp add: script_decode_def utf8_bom from_utf8_utf8)
  next
    case False
    then have "\<not> (s \<noteq> [] \<and> hd s = 0xFEFF)" by (metis list.collapse)
    then show ?thesis
      using Utf8 assms False utf8_bom_iff [OF assms] utf8_no_mark [OF assms]
      by (simp add: script_decode_def from_utf8_utf8)
  qed
next
  case Utf16Le
  then show ?thesis
    using assms by (simp add: script_decode_def decode_utf16_def units_le_inverse from_utf16_encode)
      (simp add: utf16_bytes_eq)
next
  case Utf16Be
  then show ?thesis
    using assms by (simp add: script_decode_def decode_utf16_def units_be_inverse from_utf16_encode)
qed

lemma script_encode_decoded:
  "decoded_form form s = (t, enc) \<Longrightarrow> script_encode enc t = script_file form s"
  by (cases form; cases s)
    (auto simp: script_encode_utf16_def utf16le_bytes_def utf16be_bytes_def utf8_bom split: if_splits)

lemma decoded_form_append:
  "decoded_form form s = (t, enc) \<Longrightarrow> b \<noteq> [] \<Longrightarrow> hd b \<noteq> 0xFEFF \<Longrightarrow> decoded_form form (s @ b) = (t @ b, enc)"
  by (cases form; cases s) (auto split: if_splits)

text \<open>removing a signature undoes signing. For every script in any of the encodings the signer
  writes (with or without a byte-order mark, with earlier blocks or without), taking the block out of
  the signed file restores the bytes that were signed.\<close>

theorem script_remove_undoes_sign:
  assumes "wf_str s" and "raw = script_file form s"
    and "to_ascii_lowercase ext = ext" and "base64_ok B" and "p \<noteq> []" and "4 dvd length (b64_encode B p)"
  shows "remove_powershell_signature B
      (append_script_signature_block raw (format_powershell_signature_block B p ext)) ext = Inr (Some raw)"
proof -
  let ?cs = "chunks 64 (b64_encode B p)"
  let ?b = "script_block (format_family ext) ?cs"
  have cs: "b64_chunks ?cs" "concat ?cs = b64_encode B p"
    using b64_chunks_encode [OF assms(4,6)] by (simp_all add: concat_chunks)
  obtain t enc where d: "decoded_form form s = (t, enc)" by (cases "decoded_form form s")
  then have "decoded_form form (s @ ?b) = (t @ ?b, enc)"
    by (rule decoded_form_append) (simp_all add: script_block_def)
  moreover have "wf_str (s @ ?b)" using assms(1) wf_str_ascii [OF script_block_ascii [OF cs(1)]] by simp
  ultimately have "script_decode (script_file form (s @ ?b)) = Inr (t @ ?b, enc)"
    using script_decode_file [of "s @ ?b" form] by simp
  then show ?thesis
    using remove_block [OF assms(3) cs assms(5,4), of t] script_encode_decoded [OF d]
      append_script_file [OF assms(1)] assms(2)
    by (simp add: remove_powershell_signature_def format_block)
qed

theorem script_remove_undoes_sign_witness:
  "remove_powershell_signature hex_engine
      (append_script_signature_block (script_file Utf16Be sample_script)
        (format_powershell_signature_block hex_engine [0x30, 0x82] (lit ''mof''))) (lit ''mof'') =
    Inr (Some (script_file Utf16Be sample_script))"
proof (rule script_remove_undoes_sign [OF sample_script_facts(1) refl _ hex_engine_ok])
  show "to_ascii_lowercase (lit ''mof'') = lit ''mof''" by (simp add: to_ascii_lowercase_def char_lower_def)
  have "length (b64_encode hex_engine [0x30, 0x82]) = 4" by (simp add: hex_engine_def)
  then show "4 dvd length (b64_encode hex_engine [0x30, 0x82])" by simp
qed simp

end
