(* ===== verification/Wsh_Script.thy ===== *)
theory Wsh_Script
  imports Script_Signing
begin

text \<open>
  Model of \<^verbatim>\<open>crates/psign-sip-digest/src/wsh_script.rs\<close>: Windows Script Host signatures. The block is
  found from its last begin marker, its lines carry the blob in base64, and the digest covers the
  rest of the script followed by the position of the marker.
\<close>

datatype WshKind = Vbs | Js | Wsf

definition wsh_kind_from_ext :: "str \<Rightarrow> WshKind option" where
  "wsh_kind_from_ext ext =
     (let e = to_ascii_lowercase ext in
      if e = lit ''vbs'' \<or> e = lit ''vbe'' then Some Vbs
      else if e = lit ''js'' \<or> e = lit ''jse'' then Some Js
      else if e = lit ''wsf'' then Some Wsf else None)"

text \<open>In Isabelle's strings two single quotes end the string, so the apostrophe is written by its code.\<close>

fun beg_marker :: "WshKind \<Rightarrow> str" where
  "beg_marker Vbs = crlf @ [39, 39] @ lit '' SIG '' @ [39, 39] @ lit '' Begin signature block''"
| "beg_marker Js = crlf @ lit ''// SIG // Begin signature block''"
| "beg_marker Wsf = crlf @ lit ''<signature>''"

fun end_marker :: "WshKind \<Rightarrow> str" where
  "end_marker Vbs = crlf @ [39, 39] @ lit '' SIG '' @ [39, 39] @ lit '' End signature block'' @ crlf"
| "end_marker Js = crlf @ lit ''// SIG // End signature block'' @ crlf"
| "end_marker Wsf = crlf @ lit ''</signature>'' @ crlf"

fun sig_line_prefix :: "WshKind \<Rightarrow> str" where
  "sig_line_prefix Vbs = [39, 39] @ lit '' SIG '' @ [39, 39] @ lit '' ''"
| "sig_line_prefix Js = lit ''// SIG // ''"
| "sig_line_prefix Wsf = lit ''** SIG ** ''"

definition strip_prefix_units :: "u16 list \<Rightarrow> u16 list \<Rightarrow> u16 list option" where
  "strip_prefix_units line prefix =
     (if length prefix \<le> length line \<and> take (length prefix) line = prefix
      then Some (drop (length prefix) line) else None)"

definition trim_cr :: "u16 list \<Rightarrow> u16 list" where
  "trim_cr line = rev (dropWhile (\<lambda>c. c = 13) (rev (dropWhile (\<lambda>c. c = 13) line)))"

function split_lines_utf16 :: "u16 list \<Rightarrow> u16 list list" where
  "split_lines_utf16 rest =
     (if rest = [] then []
      else if 10 \<in> set rest
        then takeWhile (\<lambda>c. c \<noteq> 10) rest # split_lines_utf16 (tl (dropWhile (\<lambda>c. c \<noteq> 10) rest))
      else [rest])"
  by pat_completeness auto
termination
proof (relation "measure length")
  fix rest :: "u16 list" assume "rest \<noteq> []"
  moreover have "length (dropWhile (\<lambda>c. c \<noteq> 10) rest) \<le> length rest" by (rule length_dropWhile_le)
  ultimately show "(tl (dropWhile (\<lambda>c. c \<noteq> 10) rest), rest) \<in> measure length" by (cases rest) auto
qed simp

declare split_lines_utf16.simps [simp del]

text \<open>The loop over the lines of the region and, inside it, over the code units behind the prefix.\<close>

fun push_units :: "u16 list \<Rightarrow> str \<Rightarrow> str res" where
  "push_units [] ascii = Inr ascii"
| "push_units (cu # rest) ascii =
     (if unat cu < 128 then push_units rest (ascii @ [unat cu])
      else bail ''non-ASCII in WSH base64 payload'')"

fun ascii_lines :: "u16 list \<Rightarrow> u16 list list \<Rightarrow> str \<Rightarrow> str res" where
  "ascii_lines prefix [] ascii = Inr ascii"
| "ascii_lines prefix (raw_line # ls) ascii =
     (let line = trim_cr raw_line in
      if line = [] then ascii_lines prefix ls ascii
      else case strip_prefix_units line prefix of
          None \<Rightarrow> bail ''WSH signature region line missing prefix''
        | Some rest \<Rightarrow> rbind (push_units rest ascii) (\<lambda>ascii. ascii_lines prefix ls ascii))"

definition extract_base64_ascii :: "u16 list \<Rightarrow> WshKind \<Rightarrow> str res" where
  "extract_base64_ascii region kind =
     rbind (ascii_lines (encode_utf16 (sig_line_prefix kind)) (split_lines_utf16 region) []) (\<lambda>ascii.
     let trimmed = filter (\<lambda>c. \<not> is_whitespace c) ascii in
     if trimmed = [] then bail ''empty WSH base64 payload'' else Inr trimmed)"

definition strip_wsh_signature_units :: "u16 list \<Rightarrow> WshKind \<Rightarrow> (u16 list \<times> u32) res" where
  "strip_wsh_signature_units units kind =
     rbind (ok_or (find_last_subslice units (encode_utf16 (beg_marker kind)))
       ''WSH begin signature marker not found'') (\<lambda>found.
     let tail = drop found units; fin = encode_utf16 (end_marker kind) in
     rbind (ok_or (find_subslice tail fin) ''WSH end signature marker not found'') (\<lambda>er.
     let after = found + er + length fin in
     Inr (take found units @ drop after units, word_of_nat found)))"

definition wsh_extract_pkcs7_der :: "base64 \<Rightarrow> u16 list \<Rightarrow> WshKind \<Rightarrow> u8 list res" where
  "wsh_extract_pkcs7_der B units kind =
     (let beg = encode_utf16 (beg_marker kind) in
      rbind (ok_or (find_last_subslice units beg) ''WSH begin marker not found'') (\<lambda>found.
      let tail = drop (found + length beg) units in
      rbind (ok_or (find_subslice tail (encode_utf16 (end_marker kind))) ''WSH end marker not found'') (\<lambda>er.
      rbind (extract_base64_ascii (take er tail) kind) (\<lambda>ascii.
      ok_or (b64_decode B ascii) ''WSH base64 decode''))))"

definition wsh_units :: "u8 list \<Rightarrow> u16 list" where
  "wsh_units raw =
     (let units = file_utf16_units raw in
      if take 3 raw = [0xEF, 0xBB, 0xBF] \<and> units \<noteq> [] \<and> hd units = 0xFEFF then tl units else units)"

definition wsh_digest_report ::
  "base64 \<Rightarrow> hash_fn \<Rightarrow> (u8 list \<Rightarrow> u8 list option) \<Rightarrow> u8 list \<Rightarrow> str \<Rightarrow> ScriptAuthenticodeDigestReport res" where
  "wsh_digest_report B H sig_digest raw ext =
     rbind (ok_or (wsh_kind_from_ext ext) ''not a WSH script extension'') (\<lambda>kind.
     rbind (wsh_extract_pkcs7_der B (wsh_units raw) kind) (\<lambda>pkcs7.
     rbind (ok_or (sig_digest pkcs7) ''Authenticode PKCS#7 parse failed'') (\<lambda>embedded.
     rbind (from_digest_byte_len (length embedded)) (\<lambda>hkind.
     rbind (strip_wsh_signature_units (wsh_units raw) kind) (\<lambda>(stripped, begin_off).
     rbind (hash_payload H hkind (utf16le_bytes stripped @ u32_to_le begin_off)) (\<lambda>computed.
     if computed \<noteq> embedded
     then bail ''WSH Authenticode digest mismatch (wshext strip + offset dword vs PKCS#7)''
     else Inr \<lparr>rep_pkcs7_der = pkcs7, rep_embedded_digest = embedded, rep_computed_digest = computed\<rparr>))))))"

definition verify_wsh_digest_consistency ::
  "base64 \<Rightarrow> hash_fn \<Rightarrow> (u8 list \<Rightarrow> u8 list option) \<Rightarrow> u8 list \<Rightarrow> str \<Rightarrow> unit res" where
  "verify_wsh_digest_consistency B H sig_digest raw ext =
     rbind (wsh_digest_report B H sig_digest raw ext) (\<lambda>_. Inr ())"

text \<open>The dispatch of \<^verbatim>\<open>lib.rs\<close> over the two script families.\<close>

definition script_digest_report ::
  "base64 \<Rightarrow> hash_fn \<Rightarrow> (u8 list \<Rightarrow> u8 list option) \<Rightarrow> u8 list \<Rightarrow> str \<Rightarrow> ScriptAuthenticodeDigestReport res" where
  "script_digest_report B H sig_digest raw ext =
     (let ext_l = to_ascii_lowercase ext in
      if is_wsh_extension ext_l then wsh_digest_report B H sig_digest raw ext_l
      else powershell_class_digest_report B H sig_digest raw ext_l)"

definition verify_script_digest_consistency ::
  "base64 \<Rightarrow> hash_fn \<Rightarrow> (u8 list \<Rightarrow> u8 list option) \<Rightarrow> u8 list \<Rightarrow> str \<Rightarrow> unit res" where
  "verify_script_digest_consistency B H sig_digest raw ext =
     (let ext_l = to_ascii_lowercase ext in
      if is_wsh_extension ext_l then verify_wsh_digest_consistency B H sig_digest raw ext_l
      else verify_powershell_class_digest B H sig_digest raw ext_l)"

section \<open>A file with one block\<close>

definition beg_line :: "WshKind \<Rightarrow> str" where "beg_line k = drop 2 (beg_marker k)"
definition end_line :: "WshKind \<Rightarrow> str" where "end_line k = butlast (butlast (drop 2 (end_marker k)))"

lemma wsh_markers: "beg_marker k = crlf @ beg_line k" "end_marker k = crlf @ end_line k @ crlf"
  by (cases k; simp add: beg_line_def end_line_def crlf_def)+

lemma wsh_line_facts:
  "13 \<notin> set (beg_line k)" "10 \<notin> set (beg_line k)" "beg_line k \<noteq> []" "is_ascii (beg_line k)"
  "13 \<notin> set (end_line k)" "10 \<notin> set (end_line k)" "end_line k \<noteq> []" "is_ascii (end_line k)"
  "is_ascii (sig_line_prefix k)" "10 \<notin> set (sig_line_prefix k)" "13 \<notin> set (sig_line_prefix k)"
  "sig_line_prefix k \<noteq> []"
  by (cases k; simp add: beg_line_def end_line_def crlf_def)+

text \<open>The code units of a file whose signature block stands between \<open>pre\<close> and \<open>post\<close>.\<close>

definition wsh_file :: "WshKind \<Rightarrow> str list \<Rightarrow> u16 list \<Rightarrow> u16 list \<Rightarrow> u16 list" where
  "wsh_file k cs pre post =
     pre @ encode_utf16 (beg_marker k) @
     concat (map (\<lambda>c. encode_utf16 (crlf @ sig_line_prefix k @ c)) cs) @
     encode_utf16 (end_marker k) @ post"

lemma no_later_marker:
  assumes "r \<notin> set b" "nl \<notin> set b" "b \<noteq> []" "\<forall>l\<in>set ls. \<not> occurs b l"
    and "\<not> occurs (r # nl # b) (r # nl # post)" and "length pre < j"
  shows "\<not> occurs_at (r # nl # b) (pre @ r # nl # b @ r # nl # concat (map (\<lambda>l. l @ [r, nl]) ls) @ post) j"
proof
  let ?L = "concat (map (\<lambda>l. l @ [r, nl]) (b # ls))"
  have h: "pre @ r # nl # b @ r # nl # concat (map (\<lambda>l. l @ [r, nl]) ls) @ post = (pre @ [r, nl]) @ ?L @ post" by simp
  assume o: "occurs_at (r # nl # b) (pre @ r # nl # b @ r # nl # concat (map (\<lambda>l. l @ [r, nl]) ls) @ post) j"
  define i where "i = j - length pre"
  have i: "0 < i" "j + 2 = length (pre @ [r, nl]) + i" using assms(6) by (simp_all add: i_def)
  have "occurs_at b ((pre @ [r, nl]) @ ?L @ post) (j + 2)"
    using occurs_at_part [of "[r, nl]" b "[]"] o unfolding h by simp
  then have b: "occurs_at b (?L @ post) i" using occurs_at_in_right i(2) by fastforce
  show False
  proof (cases "i < length ?L")
    case True
    have "i \<noteq> 0" using i by simp
    show False
    proof (cases "i < length b + 2")
      case True
      then have "\<not> occurs_at b ((b @ [r, nl]) @ concat (map (\<lambda>l. l @ [r, nl]) ls) @ post) i"
      proof -
        have "\<not> occurs b (tl b)" using assms(3) by (cases b) (auto simp: occurs_def occurs_at_def)
        moreover obtain x t where "b = x # t" using assms(3) by (cases b) auto
        moreover have "\<not> occurs_at b ((tl b @ [r, nl]) @ concat (map (\<lambda>l. l @ [r, nl]) ls) @ post) (i - 1)"
          using no_occurrence_in_lines [of "[tl b]" b r nl "i - 1"] calculation assms(1-3) True \<open>i \<noteq> 0\<close> by simp
        ultimately show ?thesis using \<open>i \<noteq> 0\<close> by (cases i) (simp_all add: occurs_at_Cons)
      qed
      then show False using b by simp
    next
      case False
      then have "occurs_at b (concat (map (\<lambda>l. l @ [r, nl]) ls) @ post) (i - (length b + 2))"
        using occurs_at_in_right [of b "b @ [r, nl]" _ i] b by simp
      then show False
        using no_occurrence_in_lines [OF assms(4,1,2,3), of "i - (length b + 2)"] True False by simp
    qed
  next
    case False
    then have "length (pre @ b @ [r, nl] @ concat (map (\<lambda>l. l @ [r, nl]) ls)) \<le> j" using i by simp
    moreover obtain q where q: "r # nl # concat (map (\<lambda>l. l @ [r, nl]) ls) = q @ [r, nl]"
      by (cases ls rule: rev_cases) auto
    moreover have "(r # nl # concat (map (\<lambda>l. l @ [r, nl]) ls)) @ post = (q @ [r, nl]) @ post"
      unfolding q ..
    moreover have "length (concat (map (\<lambda>l. l @ [r, nl]) ls)) = length q"
      using arg_cong [OF q, of length] by simp
    ultimately have e: "pre @ r # nl # b @ r # nl # concat (map (\<lambda>l. l @ [r, nl]) ls) @ post =
        (pre @ r # nl # b @ q) @ r # nl # post" and l: "length (pre @ r # nl # b @ q) \<le> j" by simp_all
    have "occurs_at (r # nl # b) (r # nl # post) (j - length (pre @ r # nl # b @ q))"
      by (rule occurs_at_in_right [OF o [unfolded e] l])
    then show False using assms(5) by (auto simp: occurs_def)
  qed
qed

section \<open>Reading the block back\<close>

lemma split_lines_crlf:
  assumes "10 \<notin> set l"
  shows "split_lines_utf16 (l @ 10 # rest) = l # split_lines_utf16 rest"
proof -
  have "takeWhile (\<lambda>c. c \<noteq> 10) (l @ 10 # rest) = l" "dropWhile (\<lambda>c. c \<noteq> 10) (l @ 10 # rest) = 10 # rest"
    using assms by (induction l) auto
  then show ?thesis by (subst split_lines_utf16.simps) simp
qed

lemma split_lines_last: "10 \<notin> set l \<Longrightarrow> l \<noteq> [] \<Longrightarrow> split_lines_utf16 l = [l]"
  by (subst split_lines_utf16.simps) simp

definition unit_line :: "WshKind \<Rightarrow> str \<Rightarrow> u16 list" where
  "unit_line k c = map word_of_nat (sig_line_prefix k @ c)"

lemma push_units_ascii:
  "is_ascii c \<Longrightarrow> push_units (map word_of_nat c) acc = Inr (acc @ c)"
proof (induction c arbitrary: acc)
  case (Cons x c)
  then have "unat (word_of_nat x :: u16) = x" by simp
  then show ?case using Cons by simp
qed simp

lemma trim_cr_line:
  assumes "13 \<notin> set us"
  shows "trim_cr (us @ [13]) = us" "trim_cr us = us"
proof -
  have d: "dropWhile (\<lambda>c. c = 13) xs = xs" if "13 \<notin> set xs" for xs :: "u16 list"
    using that by (cases xs) auto
  show "trim_cr us = us" using assms by (simp add: trim_cr_def d)
  show "trim_cr (us @ [13]) = us"
  proof (cases us)
    case (Cons x xs)
    then have "dropWhile (\<lambda>c. c = 13) (us @ [13]) = us @ [13]" using assms by simp
    then show ?thesis using assms by (simp add: trim_cr_def d)
  qed (simp add: trim_cr_def)
qed

lemma unit_line_facts:
  assumes "graphic c"
  shows "10 \<notin> set (unit_line k c)" "13 \<notin> set (unit_line k c)" "unit_line k c \<noteq> []"
proof -
  have "is_ascii (sig_line_prefix k @ c)" using wsh_line_facts(9) graphic_ascii [OF assms] by simp
  from unit_in_ascii [OF this, of 10] unit_in_ascii [OF this, of 13]
  show "10 \<notin> set (unit_line k c)" "13 \<notin> set (unit_line k c)"
    using graphic_free [OF assms, of 10] graphic_free [OF assms, of 13] wsh_line_facts(10,11)
    by (simp_all add: unit_line_def image_Un)
qed (use wsh_line_facts(12) in \<open>simp add: unit_line_def\<close>)

lemma ascii_line:
  assumes "graphic c" "raw = unit_line k c \<or> raw = unit_line k c @ [13]"
  shows "ascii_lines (map word_of_nat (sig_line_prefix k)) (raw # ls) acc =
    ascii_lines (map word_of_nat (sig_line_prefix k)) ls (acc @ c)"
proof -
  have "trim_cr raw = unit_line k c" using assms(2) trim_cr_line [OF unit_line_facts(2) [OF assms(1)]] by auto
  moreover have "strip_prefix_units (unit_line k c) (map word_of_nat (sig_line_prefix k)) = Some (map word_of_nat c)"
    by (simp add: strip_prefix_units_def unit_line_def)
  ultimately show ?thesis
    using unit_line_facts(3) [OF assms(1)] push_units_ascii [OF graphic_ascii [OF assms(1)]] by (simp add: Let_def)
qed

lemma ascii_lines_block:
  assumes "graphic c" "\<forall>c\<in>set cs. graphic c"
  shows "ascii_lines (map word_of_nat (sig_line_prefix k))
      (split_lines_utf16 (unit_line k c @ concat (map (\<lambda>c. 13 # 10 # unit_line k c) cs))) acc =
    Inr (acc @ c @ concat cs)"
  using assms
proof (induction cs arbitrary: c acc)
  case Nil
  then show ?case using unit_line_facts [of c k] ascii_line [of c "unit_line k c" k "[]"] by (simp add: split_lines_last del: ascii_lines.simps(2))
next
  case (Cons d cs)
  have "10 \<notin> set (unit_line k c @ [13])" using unit_line_facts(1) Cons.prems(1) by simp
  from split_lines_crlf [OF this] show ?case
    using Cons.IH [of d "acc @ c"] Cons.prems ascii_line [of c "unit_line k c @ [13]" k]
    by (simp del: ascii_lines.simps(2))
qed

lemma extract_region:
  assumes "\<forall>c\<in>set cs. graphic c" "concat cs \<noteq> []"
  shows "extract_base64_ascii (concat (map (\<lambda>c. 13 # 10 # unit_line k c) cs)) k = Inr (concat cs)"
proof -
  obtain c cs' where cs: "cs = c # cs'" using assms(2) by (cases cs) auto
  have "split_lines_utf16 (13 # 10 # xs) = [13] # split_lines_utf16 xs" for xs
    using split_lines_crlf [of "[13]" xs] by simp
  moreover have "trim_cr [13] = []" by (simp add: trim_cr_def)
  moreover have "filter (\<lambda>c. \<not> is_whitespace c) (concat cs) = concat cs"
    using assms(1) graphic_whitespace by (intro filter_True) (auto simp: graphic_def)
  ultimately show ?thesis
    using assms ascii_lines_block [of c cs' k "[]"] cs
    by (simp add: extract_base64_ascii_def encode_utf16_ascii wsh_line_facts(9))
qed

section \<open>Locating the block\<close>

lemma shift_breaks:
  "concat (map (\<lambda>c. r # nl # u c) cs) @ r # nl # rest = r # nl # concat (map (\<lambda>l. l @ [r, nl]) (map u cs)) @ rest"
  by (induction cs) simp_all

lemma find_framed:
  assumes "\<forall>l\<in>set ls. \<not> occurs e l" "r \<notin> set e" "nl \<notin> set e" "e \<noteq> []"
  shows "find_subslice (r # nl # concat (map (\<lambda>l. l @ [r, nl]) ls) @ e @ r # nl # post) (r # nl # e @ [r, nl]) =
    Some (length (concat (map (\<lambda>l. l @ [r, nl]) ls)))"
proof -
  let ?L = "concat (map (\<lambda>l. l @ [r, nl]) ls)" let ?Q = "concat (map (\<lambda>l. l @ [r, nl]) ([] # ls))"
  let ?h = "r # nl # ?L @ e @ r # nl # post" let ?n = "r # nl # e @ [r, nl]"
  have h: "?h = ?Q @ e @ r # nl # post" by simp
  have "\<forall>l\<in>set ([] # ls). \<not> occurs e l" using assms(1,4) by (auto simp: occurs_iff)
  note free = no_occurrence_in_lines [OF this assms(2,3,4)]
  have "\<not> occurs_at ?n ?h j" if "j < length ?L" for j
    using occurs_at_part [of "[r, nl]" e "[r, nl]" ?h j] free [of "j + 2" "e @ r # nl # post"] that
    unfolding h by auto
  moreover have "occurs_at ?n ?h (length ?L)"
  proof -
    obtain q where q: "r # nl # ?L = q @ [r, nl]" by (cases ls rule: rev_cases) auto
    have "length q = length ?L" using arg_cong [OF q, of length] by simp
    moreover have "?h = q @ ?n @ post" using arg_cong [OF q, of "\<lambda>x. x @ e @ r # nl # post"] by simp
    ultimately show ?thesis unfolding occurs_at_iff by blast
  qed
  ultimately show ?thesis by (simp add: find_subslice_Some)
qed

abbreviation units_of :: "str \<Rightarrow> u16 list" where "units_of s \<equiv> map word_of_nat s"

lemma unit_occurs: "is_ascii h \<Longrightarrow> is_ascii n \<Longrightarrow> n \<noteq> [] \<Longrightarrow> occurs (units_of n) (units_of h) \<longleftrightarrow> occurs n h"
  using utf16_occurs [OF wf_str_ascii, of h n] by (simp add: encode_utf16_ascii)

lemma wsh_beg_not_in_end: "\<not> occurs (beg_line k) (end_line k)"
proof (cases k)
  case Wsf
  have "\<not> occurs_at (beg_line Wsf) (end_line Wsf) i" for i
  proof
    assume o: "occurs_at (beg_line Wsf) (end_line Wsf) i"
    then have "i \<le> 1" by (simp add: occurs_at_def beg_line_def end_line_def crlf_def)
    then show False
      using occurs_at_nth [OF o, of 0] occurs_at_nth [OF o, of 1]
      by (cases i) (auto simp: beg_line_def end_line_def crlf_def)
  qed
  then show ?thesis using Wsf by (simp add: occurs_def)
next
  case Vbs
  then show ?thesis using count_occurs [of "beg_line k" "end_line k" 66] by (auto simp: beg_line_def end_line_def crlf_def)
next
  case Js
  then show ?thesis using count_occurs [of "beg_line k" "end_line k" 66] by (auto simp: beg_line_def end_line_def crlf_def)
qed

lemma wsh_not_in_line:
  assumes "graphic c" "60 \<notin> set c"
  shows "\<not> occurs (beg_line k) (sig_line_prefix k @ c)" "\<not> occurs (end_line k) (sig_line_prefix k @ c)"
proof -
  have c: "count_list c 32 = 0" "count_list c 60 = 0"
    using assms graphic_free [OF assms(1), of 32] by (simp_all add: count_list_0_iff)
  show "\<not> occurs (beg_line k) (sig_line_prefix k @ c)"
    using c count_occurs [of "beg_line k" "sig_line_prefix k @ c" 32] count_occurs [of "beg_line k" "sig_line_prefix k @ c" 60]
    by (cases k) (auto simp: beg_line_def crlf_def)
  show "\<not> occurs (end_line k) (sig_line_prefix k @ c)"
    using c count_occurs [of "end_line k" "sig_line_prefix k @ c" 32] count_occurs [of "end_line k" "sig_line_prefix k @ c" 60]
    by (cases k) (auto simp: end_line_def crlf_def)
qed

lemma wsh_end_not_in_beg: "\<not> occurs (end_line k) (beg_line k)"
  using count_occurs [of "end_line k" "beg_line k" 69] count_occurs [of "end_line k" "beg_line k" 47]
  by (cases k) (auto simp: beg_line_def end_line_def crlf_def)

lemma wsh_unit_facts:
  "13 \<notin> set (units_of (beg_line k))" "10 \<notin> set (units_of (beg_line k))" "units_of (beg_line k) \<noteq> []"
  "13 \<notin> set (units_of (end_line k))" "10 \<notin> set (units_of (end_line k))" "units_of (end_line k) \<noteq> []"
  using unit_in_ascii [OF wsh_line_facts(4), of 13 k] unit_in_ascii [OF wsh_line_facts(4), of 10 k]
    unit_in_ascii [OF wsh_line_facts(8), of 13 k] unit_in_ascii [OF wsh_line_facts(8), of 10 k] wsh_line_facts [of k]
  by simp_all

lemma wsh_marker_units:
  "encode_utf16 (beg_marker k) = 13 # 10 # units_of (beg_line k)"
  "encode_utf16 (end_marker k) = 13 # 10 # units_of (end_line k) @ [13, 10]"
  using wsh_line_facts(4,8) by (simp_all add: wsh_markers crlf_def encode_utf16_ascii utf16_char_bmp)

definition wsh_lines :: "str list \<Rightarrow> bool" where
  "wsh_lines cs \<longleftrightarrow> (\<forall>c\<in>set cs. graphic c \<and> 60 \<notin> set c)"

lemma wsh_file_eq:
  assumes "wsh_lines cs"
  shows "wsh_file k cs pre post = pre @ 13 # 10 # units_of (beg_line k) @ 13 # 10 #
    concat (map (\<lambda>l. l @ [13, 10]) (map (unit_line k) cs)) @ units_of (end_line k) @ 13 # 10 # post"
proof -
  have e: "encode_utf16 (crlf @ sig_line_prefix k @ c) = 13 # 10 # unit_line k c" if "c \<in> set cs" for c
    using that assms wsh_line_facts(9) graphic_ascii
    by (simp add: wsh_lines_def unit_line_def crlf_def encode_utf16_ascii utf16_char_bmp)
  then have "concat (map (\<lambda>c. encode_utf16 (crlf @ sig_line_prefix k @ c)) cs) =
      concat (map (\<lambda>c. 13 # 10 # unit_line k c) cs)"
    by (simp cong: map_cong)
  then show ?thesis
    using shift_breaks [of 13 10 "unit_line k" cs "units_of (end_line k) @ 13 # 10 # post"]
    by (simp add: wsh_file_def wsh_marker_units)
qed

lemma wsh_found:
  assumes "wsh_lines cs" "\<not> occurs (encode_utf16 (beg_marker k)) (13 # 10 # post)"
  shows "find_last_subslice (wsh_file k cs pre post) (encode_utf16 (beg_marker k)) = Some (length pre)"
proof -
  let ?b = "units_of (beg_line k)" let ?ls = "map (unit_line k) cs @ [units_of (end_line k)]"
  have f: "wsh_file k cs pre post = pre @ 13 # 10 # ?b @ 13 # 10 # concat (map (\<lambda>l. l @ [13, 10]) ?ls) @ post"
    by (simp add: wsh_file_eq [OF assms(1)])
  have "\<forall>l\<in>set ?ls. \<not> occurs ?b l"
    using assms(1) wsh_not_in_line(1) wsh_beg_not_in_end unit_occurs [OF _ wsh_line_facts(4,3)] wsh_line_facts(8,9) graphic_ascii
    by (auto simp: wsh_lines_def unit_line_def simp del: map_append)
  from no_later_marker [OF wsh_unit_facts(1,2,3) this, of post pre]
  have "\<not> occurs_at (13 # 10 # ?b) (wsh_file k cs pre post) j" if "length pre < j" for j
    using that assms(2) by (simp add: f wsh_marker_units)
  moreover have "occurs_at (13 # 10 # ?b) (wsh_file k cs pre post) (length pre)"
    unfolding f occurs_at_iff by fastforce
  ultimately show ?thesis by (simp add: find_last_subslice_Some wsh_marker_units)
qed

lemma wsh_end_found:
  assumes "wsh_lines cs"
  shows "find_subslice (13 # 10 # concat (map (\<lambda>l. l @ [13, 10]) (map (unit_line k) cs)) @ units_of (end_line k) @ 13 # 10 # post)
      (encode_utf16 (end_marker k)) = Some (length (concat (map (\<lambda>l. l @ [13, 10]) (map (unit_line k) cs))))"
    and "find_subslice (13 # 10 # concat (map (\<lambda>l. l @ [13, 10]) (units_of (beg_line k) # map (unit_line k) cs)) @
        units_of (end_line k) @ 13 # 10 # post) (encode_utf16 (end_marker k)) =
      Some (length (concat (map (\<lambda>l. l @ [13, 10]) (units_of (beg_line k) # map (unit_line k) cs))))"
proof -
  have "\<forall>l\<in>set (units_of (beg_line k) # map (unit_line k) cs). \<not> occurs (units_of (end_line k)) l"
    using assms wsh_not_in_line(2) wsh_end_not_in_beg unit_occurs [OF _ wsh_line_facts(8,7)] wsh_line_facts(4,9) graphic_ascii
    by (auto simp: wsh_lines_def unit_line_def simp del: map_append)
  then show "find_subslice (13 # 10 # concat (map (\<lambda>l. l @ [13, 10]) (map (unit_line k) cs)) @ units_of (end_line k) @ 13 # 10 # post)
      (encode_utf16 (end_marker k)) = Some (length (concat (map (\<lambda>l. l @ [13, 10]) (map (unit_line k) cs))))"
    "find_subslice (13 # 10 # concat (map (\<lambda>l. l @ [13, 10]) (units_of (beg_line k) # map (unit_line k) cs)) @
        units_of (end_line k) @ 13 # 10 # post) (encode_utf16 (end_marker k)) =
      Some (length (concat (map (\<lambda>l. l @ [13, 10]) (units_of (beg_line k) # map (unit_line k) cs))))"
    unfolding wsh_marker_units by (intro find_framed wsh_unit_facts; simp)+
qed

lemma wsh_strip_file:
  assumes "wsh_lines cs" "\<not> occurs (encode_utf16 (beg_marker k)) (13 # 10 # post)"
  shows "strip_wsh_signature_units (wsh_file k cs pre post) k = Inr (pre @ post, word_of_nat (length pre))"
proof -
  let ?L = "concat (map (\<lambda>l. l @ [13, 10]) (units_of (beg_line k) # map (unit_line k) cs))"
  let ?tail = "13 # 10 # ?L @ units_of (end_line k) @ 13 # 10 # post"
  let ?x = "pre @ 13 # 10 # ?L @ units_of (end_line k) @ [13, 10]"
  let ?after = "length pre + length ?L + length (encode_utf16 (end_marker k))"
  have f: "wsh_file k cs pre post = pre @ ?tail" by (simp add: wsh_file_eq [OF assms(1)])
  have "drop ?after (?x @ post) = post" by (rule drop_at) (simp add: wsh_marker_units)
  then have "drop ?after (pre @ ?tail) = post" by (simp del: list.map concat.simps)
  moreover have "drop (length pre) (pre @ ?tail) = ?tail" "take (length pre) (pre @ ?tail) = pre" by simp_all
  ultimately show ?thesis
    using wsh_found [OF assms, of pre] wsh_end_found(2) [OF assms(1), of k post]
    unfolding f strip_wsh_signature_units_def by (simp add: Let_def del: list.map concat.simps)
qed

lemma wsh_extract_file:
  assumes "wsh_lines cs" "\<not> occurs (encode_utf16 (beg_marker k)) (13 # 10 # post)"
    and "concat cs = b64_encode B p" "p \<noteq> []" "base64_ok B"
  shows "wsh_extract_pkcs7_der B (wsh_file k cs pre post) k = Inr p"
proof -
  let ?L = "concat (map (\<lambda>l. l @ [13, 10]) (map (unit_line k) cs))"
  let ?tail = "13 # 10 # ?L @ units_of (end_line k) @ 13 # 10 # post"
  have "drop (length pre + length (encode_utf16 (beg_marker k))) (wsh_file k cs pre post) = ?tail"
    by (simp add: wsh_file_eq [OF assms(1)] wsh_marker_units)
  moreover have "take (length ?L) ?tail = concat (map (\<lambda>c. 13 # 10 # unit_line k c) cs)"
  proof -
    have "?tail = concat (map (\<lambda>c. 13 # 10 # unit_line k c) cs) @ 13 # 10 # units_of (end_line k) @ 13 # 10 # post"
      by (simp add: shift_breaks)
    moreover have "length (concat (map (\<lambda>c. 13 # 10 # unit_line k c) cs)) = length ?L"
      by (induction cs) simp_all
    ultimately show ?thesis by (metis take_at)
  qed
  moreover have "extract_base64_ascii (concat (map (\<lambda>c. 13 # 10 # unit_line k c) cs)) k = Inr (concat cs)"
    using assms by (intro extract_region) (auto simp: wsh_lines_def)
  ultimately show ?thesis
    using wsh_found [OF assms(1,2), of pre] wsh_end_found(1) [OF assms(1), of k post] assms(3-5)
    by (simp add: wsh_extract_pkcs7_der_def Let_def del: list.map concat.simps)
qed

section \<open>Properties\<close>

text \<open>A Windows Script Host file verifies exactly when its blob carries the digest of the script
  without the block followed by the position of the block. The block is found from the last begin
  marker, so nothing in front of it matters; what follows it must not complete another marker.\<close>

theorem wsh_report_exact:
  assumes "wsh_kind_from_ext ext = Some k" and "wsh_units raw = wsh_file k cs pre post"
    and "wsh_lines cs" and "\<not> occurs (encode_utf16 (beg_marker k)) (13 # 10 # post)"
    and "concat cs = b64_encode B p" and "p \<noteq> []" and "base64_ok B"
    and "sig_digest p = Some d" and "from_digest_byte_len (length d) = Inr hk"
  shows "wsh_digest_report B H sig_digest raw ext =
    (if H hk (utf16le_bytes (pre @ post) @ u32_to_le (word_of_nat (length pre))) = d
     then Inr \<lparr>rep_pkcs7_der = p, rep_embedded_digest = d, rep_computed_digest = d\<rparr>
     else bail ''WSH Authenticode digest mismatch (wshext strip + offset dword vs PKCS#7)'')"
  using assms wsh_extract_file [OF assms(3,4,5,6,7), of pre] wsh_strip_file [OF assms(3,4), of pre]
  by (simp add: wsh_digest_report_def hash_payload_def)

lemma sample_wsh:
  "wsh_lines [b64_encode hex_engine [0x30]]"
  "wsh_units (script_file Utf16Le (lit ''x();'' @ beg_marker Js @ crlf @ sig_line_prefix Js @
     b64_encode hex_engine [0x30] @ end_marker Js)) =
   wsh_file Js [b64_encode hex_engine [0x30]] (encode_utf16 (lit ''x();'')) []"
proof -
  have b: "b64_encode hex_engine [0x30] = lit ''30''" by (simp add: hex_engine_def hex_char_code)
  show "wsh_lines [b64_encode hex_engine [0x30]]" by (simp add: b wsh_lines_def)
  show "wsh_units (script_file Utf16Le (lit ''x();'' @ beg_marker Js @ crlf @ sig_line_prefix Js @
     b64_encode hex_engine [0x30] @ end_marker Js)) =
    wsh_file Js [b64_encode hex_engine [0x30]] (encode_utf16 (lit ''x();'')) []"
    by (simp add: wsh_units_def file_utf16_units_def units_le_inverse wsh_file_def Let_def
        del: lit_simps beg_marker.simps end_marker.simps sig_line_prefix.simps)
qed

theorem wsh_report_exact_witness:
  "wsh_digest_report hex_engine toy_hash (\<lambda>p. Some (replicate 32 12))
     (script_file Utf16Le (lit ''x();'' @ beg_marker Js @ crlf @ sig_line_prefix Js @
       b64_encode hex_engine [0x30] @ end_marker Js)) (lit ''JS'') =
   Inr \<lparr>rep_pkcs7_der = [0x30], rep_embedded_digest = replicate 32 12, rep_computed_digest = replicate 32 12\<rparr>"
proof -
  have k: "wsh_kind_from_ext (lit ''JS'') = Some Js"
    by (simp add: wsh_kind_from_ext_def to_ascii_lowercase_def char_lower_def Let_def)
  have n: "\<not> occurs (encode_utf16 (beg_marker Js)) [13, 10]"
    by (auto simp: occurs_def occurs_at_def utf16_char_bmp crlf_def)
  have h: "toy_hash Sha256 (utf16le_bytes (encode_utf16 (lit ''x();'') @ []) @
      u32_to_le (word_of_nat (length (encode_utf16 (lit ''x();''))))) = replicate 32 12"
    by (simp add: toy_hash_def utf16_bytes_eq utf16_char_bmp)
  show ?thesis
    using wsh_report_exact [OF k sample_wsh(2) sample_wsh(1) n, of hex_engine "[0x30]"
        "\<lambda>p. Some (replicate 32 12)" "replicate 32 12" Sha256 toy_hash] h hex_engine_ok
    by (simp add: from_digest_byte_len_iff del: lit_simps beg_marker.simps end_marker.simps sig_line_prefix.simps script_file.simps)
qed

end
