(* ===== verification/Keyed_Store.thy ===== *)
theory Keyed_Store
  imports Prelude
begin

text \<open>
  The contract of a list of settings addressed by name: what a lookup answers after a setting was
  written or removed, where two names are the same when they agree after normalisation (the code
  compares names without regard to ASCII case).
\<close>

locale keyed_store =
  fixes norm :: "'k \<Rightarrow> 'n"
    and key :: "'v \<Rightarrow> 'k"
    and lookup :: "'s \<Rightarrow> 'k \<Rightarrow> 'v option"
    and put :: "'s \<Rightarrow> 'v \<Rightarrow> 's"
    and delete :: "'s \<Rightarrow> 'k \<Rightarrow> 's"
  assumes lookup_put: "lookup (put s v) k = (if norm k = norm (key v) then Some v else lookup s k)"
    and lookup_delete: "lookup (delete s k') k = (if norm k = norm k' then None else lookup s k)"
    and lookup_key: "lookup s k = Some v \<Longrightarrow> norm (key v) = norm k"
begin

lemma lookup_norm: "norm k = norm k' \<Longrightarrow> lookup (put s v) k = lookup (put s v) k' \<longleftrightarrow>
  norm k = norm (key v) \<or> lookup s k = lookup s k'"
  by (auto simp: lookup_put)

lemma lookup_put_same [simp]: "lookup (put s v) (key v) = Some v"
  by (simp add: lookup_put)

lemma lookup_put_other: "norm k \<noteq> norm (key v) \<Longrightarrow> lookup (put s v) k = lookup s k"
  by (simp add: lookup_put)

text \<open>The keys present, up to normalisation.\<close>

definition present :: "'s \<Rightarrow> 'k \<Rightarrow> bool" where
  "present s k \<longleftrightarrow> lookup s k \<noteq> None"

lemma present_put: "present (put s v) k \<longleftrightarrow> norm k = norm (key v) \<or> present s k"
  by (simp add: present_def lookup_put)

lemma present_delete: "present (delete s k') k \<longleftrightarrow> norm k \<noteq> norm k' \<and> present s k"
  by (simp add: present_def lookup_delete)

text \<open>A view of several settings is not disturbed by writing one that is not among them.\<close>

lemma view_put:
  "(\<And>k. k \<in> set ks \<Longrightarrow> norm k \<noteq> norm (key v)) \<Longrightarrow> map (lookup (put s v)) ks = map (lookup s) ks"
  by (induction ks) (auto simp: lookup_put)

lemma view_delete:
  "(\<And>k. k \<in> set ks \<Longrightarrow> norm k \<noteq> norm k') \<Longrightarrow> map (lookup (delete s k')) ks = map (lookup s) ks"
  by (induction ks) (auto simp: lookup_delete)

end

end
