(* ===== verification/Rdp.thy ===== *)
theory Rdp
  imports Search Base64 Keyed_Store
begin

text \<open>
  Model of \<^verbatim>\<open>crates/psign-sip-digest/src/rdp.rs\<close>: the text and record layers of a signed RDP file. A
  file is a list of \<^verbatim>\<open>name:kind:value\<close> lines; signing fixes the list of covered settings
  (\<^verbatim>\<open>SignScope\<close>), hashes their lines and stores the blob in a \<^verbatim>\<open>Signature\<close> setting. Certificates,
  keys and the CMS signature itself (\<^verbatim>\<open>parse_certificate\<close>, \<^verbatim>\<open>sign_secure_blob_rsa_sha256\<close>) are calls
  into third-party crates and are not modelled.
\<close>

definition SIGNATURE_VERSION :: u32 where "SIGNATURE_VERSION = 0x00010001"
definition CERT_SIGNATURE_TYPE :: u32 where "CERT_SIGNATURE_TYPE = 1"

datatype RdpValueKind = Integer | String | Binary

fun as_char :: "RdpValueKind \<Rightarrow> nat" where
  "as_char Integer = 105"
| "as_char String = 115"
| "as_char Binary = 98"

record RdpRecord =
  rdp_name :: str
  rdp_kind :: RdpValueKind
  rdp_value :: str

definition string_record :: "str \<Rightarrow> str \<Rightarrow> RdpRecord" where
  "string_record n v = \<lparr>rdp_name = n, rdp_kind = String, rdp_value = v\<rparr>"

record PreparedRdpSignature =
  prep_records :: "RdpRecord list"
  prep_sign_scope :: str
  prep_secure_blob :: "u8 list"

definition SENSITIVE_SETTINGS :: "(str \<times> bool) list" where
  "SENSITIVE_SETTINGS = (lit ''Full Address'', True) # map (\<lambda>n. (lit n, False))
    [''Alternate Full Address'', ''PCB'', ''Use Redirection Server Name'', ''Server Port'',
     ''Negotiate Security Layer'', ''EnableCredSspSupport'', ''DisableConnectionSharing'',
     ''AutoReconnection Enabled'', ''GatewayHostname'', ''GatewayUsageMethod'',
     ''GatewayProfileUsageMethod'', ''GatewayCredentialsSource'', ''Support URL'',
     ''PromptCredentialOnce'', ''Require pre-authentication'', ''Pre-authentication server address'',
     ''Alternate Shell'', ''Shell Working Directory'', ''RemoteApplicationProgram'',
     ''RemoteApplicationExpandWorkingdir'', ''RemoteApplicationMode'', ''RemoteApplicationGuid'',
     ''RemoteApplicationName'', ''RemoteApplicationIcon'', ''RemoteApplicationFile'',
     ''RemoteApplicationFileExtensions'', ''RemoteApplicationCmdLine'', ''RemoteApplicationExpandCmdLine'',
     ''Prompt For Credentials'', ''Authentication Level'', ''AudioMode'', ''RedirectDrives'',
     ''RedirectPrinters'', ''RedirectCOMPorts'', ''RedirectSmartCards'', ''RedirectPOSDevices'',
     ''RedirectClipboard'', ''DevicesToRedirect'', ''DrivesToRedirect'', ''LoadBalanceInfo'',
     ''RedirectDirectX'', ''RDGIsKDCProxy'', ''KDCProxyName'', ''EnableRdsAadAuth'', ''RedirectWebAuthn'',
     ''RedirectTextProcessing'', ''allowed security protocols'']"

section \<open>Text\<close>

definition decode_bomless_utf16 :: "u8 list \<Rightarrow> str option" where
  "decode_bomless_utf16 bytes =
     (if length bytes < 4 \<or> length bytes mod 2 \<noteq> 0 then None
      else
        let pairs = length bytes div 2;
            even_nuls = length (filter (\<lambda>i. bytes ! i = 0 \<and> even i) [0..<length bytes]);
            odd_nuls = length (filter (\<lambda>i. bytes ! i = 0 \<and> odd i) [0..<length bytes]) in
        if pairs \<le> odd_nuls * 2 then Some (from_utf16_lossy (units_le bytes))
        else if pairs \<le> even_nuls * 2 then Some (from_utf16_lossy (units_be bytes))
        else None)"

definition decode_rdp_text :: "u8 list \<Rightarrow> str" where
  "decode_rdp_text bytes =
     (if take 2 bytes = [0xFF, 0xFE] then from_utf16_lossy (units_le (drop 2 bytes))
      else if take 2 bytes = [0xFE, 0xFF] then from_utf16_lossy (units_be (drop 2 bytes))
      else case decode_bomless_utf16 bytes of Some t \<Rightarrow> t
        | None \<Rightarrow> (case from_utf8 bytes of
             Some s \<Rightarrow> dropWhile (\<lambda>c. c = 0xFEFF) s
           | None \<Rightarrow> from_utf8_lossy bytes))"

definition encode_native_unicode :: "str \<Rightarrow> u8 list" where
  "encode_native_unicode t = [0xFF, 0xFE] @ concat (map u16_to_le (encode_utf16 t))"

definition is_blank :: "nat \<Rightarrow> bool" where "is_blank c \<longleftrightarrow> c = 32 \<or> c = 9"

definition trim_start_blank :: "str \<Rightarrow> str" where "trim_start_blank = dropWhile is_blank"
definition trim_end_blank :: "str \<Rightarrow> str" where "trim_end_blank s = rev (dropWhile is_blank (rev s))"

definition parse_kind :: "nat \<Rightarrow> RdpValueKind option" where
  "parse_kind c = (let c = char_lower c in
     if c = 105 then Some Integer else if c = 115 then Some String else if c = 98 then Some Binary else None)"

definition parse_line :: "str \<Rightarrow> RdpRecord option" where
  "parse_line line =
     (let trimmed = trim_start_blank line in
      if trimmed = [] then None
      else obind (split_once 58 trimmed) (\<lambda>(name, rest).
        case trim_start_blank rest of
          [] \<Rightarrow> None
        | c # chars \<Rightarrow> obind (parse_kind c) (\<lambda>kind.
            obind (strip_prefix [58] (trim_start_blank chars)) (\<lambda>v.
            Some \<lparr>rdp_name = trim_end_blank name, rdp_kind = kind,
                  rdp_value = rev (dropWhile (\<lambda>c. c = 13 \<or> c = 10) (rev (trim_start_blank v)))\<rparr>))))"

definition parse_records :: "str \<Rightarrow> RdpRecord list" where
  "parse_records t = List.map_filter parse_line (lines t)"

definition record_to_line :: "RdpRecord \<Rightarrow> str" where
  "record_to_line r = rdp_name r @ [58] @ [as_char (rdp_kind r)] @ [58] @ rdp_value r @ [13, 10]"

definition records_to_text :: "RdpRecord list \<Rightarrow> str" where
  "records_to_text rs = concat (map record_to_line rs)"

section \<open>Records\<close>

definition find_record :: "RdpRecord list \<Rightarrow> str \<Rightarrow> RdpRecord option" where
  "find_record records name = List.find (\<lambda>r. eq_ignore_ascii_case (rdp_name r) name) records"

fun insert_or_replace :: "RdpRecord list \<Rightarrow> RdpRecord \<Rightarrow> RdpRecord list" where
  "insert_or_replace [] record = [record]"
| "insert_or_replace (r # rs) record =
     (if eq_ignore_ascii_case (rdp_name r) (rdp_name record) then record # rs
      else r # insert_or_replace rs record)"

definition remove_record :: "RdpRecord list \<Rightarrow> str \<Rightarrow> RdpRecord list" where
  "remove_record records name = filter (\<lambda>r. \<not> eq_ignore_ascii_case (rdp_name r) name) records"

section \<open>Signing\<close>

fun scope_lines :: "RdpRecord list \<Rightarrow> str list \<Rightarrow> str \<Rightarrow> str res" where
  "scope_lines records [] acc = Inr acc"
| "scope_lines records (name # names) acc =
     rbind (ok_or (find_record records name) ''field in SignScope was not found in RDP file'')
       (\<lambda>r. scope_lines records names (acc @ record_to_line r))"

definition secure_settings_blob :: "RdpRecord list \<Rightarrow> str \<Rightarrow> u8 list res" where
  "secure_settings_blob records sign_scope =
     rbind (scope_lines records (filter (\<lambda>s. s \<noteq> []) (split_on 44 sign_scope)) []) (\<lambda>t.
     rbind (ok_or (find_record records (lit ''SignScope'')) ''SignScope field was not found in RDP file'') (\<lambda>r.
     Inr (concat (map u16_to_le (encode_utf16 (t @ record_to_line r) @ [0])))))"

fun scope_names :: "RdpRecord list \<Rightarrow> (str \<times> bool) list \<Rightarrow> str list \<Rightarrow> str list res" where
  "scope_names records [] names = Inr names"
| "scope_names records ((name, required) # rest) names =
     (case find_record records name of
        None \<Rightarrow> if required then bail ''RDP file is missing required setting''
                else scope_names records rest names
      | Some record \<Rightarrow>
          if required \<and> rdp_value record = [] then bail ''RDP file has an empty required setting''
          else scope_names records rest (names @ [name]))"

fun join_comma :: "str list \<Rightarrow> str" where
  "join_comma [] = []"
| "join_comma [x] = x"
| "join_comma (x # y # ys) = x @ [44] @ join_comma (y # ys)"

definition prepare_for_signature :: "RdpRecord list \<Rightarrow> PreparedRdpSignature res" where
  "prepare_for_signature records =
     (let records = remove_record records (lit ''SignScope'');
          records = remove_record records (lit ''Signature'') in
      rbind (ok_or (case find_record records (lit ''Full Address'') of
                      Some r \<Rightarrow> if rdp_value r = [] then None else Some (rdp_value r) | None \<Rightarrow> None)
               ''RDP file is missing required Full Address setting'') (\<lambda>full_address.
      let records = (if find_record records (lit ''Alternate Full Address'') = None
            then insert_or_replace records (string_record (lit ''Alternate Full Address'') full_address)
            else records) in
      rbind (scope_names records SENSITIVE_SETTINGS []) (\<lambda>names.
      let sign_scope = join_comma names;
          records = insert_or_replace records (string_record (lit ''SignScope'') sign_scope) in
      rbind (secure_settings_blob records sign_scope) (\<lambda>blob.
      Inr \<lparr>prep_records = records, prep_sign_scope = sign_scope, prep_secure_blob = blob\<rparr>))))"

definition serialize_signature :: "u8 list \<Rightarrow> u8 list" where
  "serialize_signature pkcs7 =
     u32_to_le SIGNATURE_VERSION @ u32_to_le CERT_SIGNATURE_TYPE @
     u32_to_le (word_of_nat (length pkcs7)) @ pkcs7"

definition apply_pkcs7_signature :: "base64 \<Rightarrow> RdpRecord list \<Rightarrow> u8 list \<Rightarrow> RdpRecord list" where
  "apply_pkcs7_signature B records pkcs7 =
     insert_or_replace records (string_record (lit ''Signature'') (b64_encode B (serialize_signature pkcs7)))"

definition signature_pkcs7_from_serialized :: "u8 list \<Rightarrow> u8 list res" where
  "signature_pkcs7_from_serialized serialized =
     (if length serialized < 12 then bail ''RDP Signature payload is shorter than 12-byte header''
      else
        let version = u32_from_le (sub serialized 0 4);
            signature_type = u32_from_le (sub serialized 4 4);
            len = unat (u32_from_le (sub serialized 8 4)) in
        if version \<noteq> SIGNATURE_VERSION then bail ''unsupported RDP Signature version''
        else if signature_type \<noteq> CERT_SIGNATURE_TYPE then bail ''unsupported RDP Signature type''
        else if length serialized - 12 \<noteq> len then bail ''RDP Signature length header does not match the payload''
        else Inr (drop 12 serialized))"

definition signature_pkcs7_from_base64 :: "base64 \<Rightarrow> str \<Rightarrow> u8 list res" where
  "signature_pkcs7_from_base64 B v =
     rbind (ok_or (b64_decode B (trim v)) ''decode RDP Signature base64'') signature_pkcs7_from_serialized"

definition signature_record_pkcs7 :: "base64 \<Rightarrow> RdpRecord list \<Rightarrow> u8 list res" where
  "signature_record_pkcs7 B records =
     rbind (ok_or (find_record records (lit ''Signature'')) ''RDP file does not contain a Signature record'')
       (\<lambda>r. signature_pkcs7_from_base64 B (rdp_value r))"

section \<open>The settings store\<close>

lemma find_record_simps [simp]:
  "find_record [] k = None"
  "find_record (r # rs) k = (if to_ascii_lowercase (rdp_name r) = to_ascii_lowercase k then Some r else find_record rs k)"
  by (simp_all add: find_record_def eq_ignore_ascii_case_def)

interpretation rdp_store: keyed_store to_ascii_lowercase rdp_name find_record insert_or_replace remove_record
proof
  fix s v k k'
  show "find_record (insert_or_replace s v) k =
      (if to_ascii_lowercase k = to_ascii_lowercase (rdp_name v) then Some v else find_record s k)"
    by (induction s) (auto simp: eq_ignore_ascii_case_def)
  show "find_record (remove_record s k') k =
      (if to_ascii_lowercase k = to_ascii_lowercase k' then None else find_record s k)"
    by (induction s) (auto simp: remove_record_def eq_ignore_ascii_case_def)
  assume "find_record s k = Some v"
  then show "to_ascii_lowercase (rdp_name v) = to_ascii_lowercase k"
    by (induction s) (auto split: if_splits)
qed

lemma scope_lines_view:
  "map (find_record rs) names = map (find_record rs') names \<Longrightarrow> scope_lines rs names acc = scope_lines rs' names acc"
  by (induction names arbitrary: acc) auto

lemma scope_lines_Inr:
  "scope_lines rs names acc = Inr t \<longleftrightarrow>
     (\<exists>found. map (find_record rs) names = map Some found \<and> t = acc @ concat (map record_to_line found))"
proof (induction names arbitrary: acc)
  case (Cons n names)
  show ?case
  proof (cases "find_record rs n")
    case None
    then show ?thesis by auto
  next
    case (Some r)
    have "(\<exists>found. map (find_record rs) (n # names) = map Some found \<and> t = acc @ concat (map record_to_line found)) \<longleftrightarrow>
        (\<exists>found. map (find_record rs) names = map Some found \<and> t = acc @ record_to_line r @ concat (map record_to_line found))"
      using Some by (auto simp: map_eq_Cons_conv Cons_eq_map_conv)
    then show ?thesis using Some Cons.IH [of "acc @ record_to_line r"] by simp
  qed
qed auto

lemma join_split:
  "names \<noteq> [] \<Longrightarrow> \<forall>n\<in>set names. 44 \<notin> set n \<Longrightarrow> split_on 44 (join_comma names) = names"
proof (induction names rule: join_comma.induct)
  case (3 x y ys)
  then show ?case using split_on_append [of 44 x "join_comma (y # ys)"] by simp
qed (simp_all add: split_on_free)

lemma scope_names_subset: "scope_names rs settings acc = Inr names \<Longrightarrow> set names \<subseteq> set acc \<union> fst ` set settings"
  by (induction rs settings acc rule: scope_names.induct) (fastforce split: option.splits if_splits)+

lemma scope_names_keep: "scope_names rs settings acc = Inr names \<Longrightarrow> set acc \<subseteq> set names"
  by (induction rs settings acc rule: scope_names.induct) (fastforce split: option.splits if_splits)+

lemma setting_names:
  assumes "n \<in> fst ` set SENSITIVE_SETTINGS"
  shows "44 \<notin> set n \<and> to_ascii_lowercase n \<noteq> to_ascii_lowercase (lit ''Signature'') \<and> n \<noteq> [] \<and>
    to_ascii_lowercase n \<noteq> to_ascii_lowercase (lit ''SignScope'')"
proof -
  have "\<forall>n\<in>fst ` set SENSITIVE_SETTINGS. 44 \<notin> set n \<and> to_ascii_lowercase n \<noteq> to_ascii_lowercase (lit ''Signature'') \<and>
      n \<noteq> [] \<and> to_ascii_lowercase n \<noteq> to_ascii_lowercase (lit ''SignScope'')"
    by code_simp
  then show ?thesis using assms by blast
qed

section \<open>Text round trip\<close>

text \<open>The records a line can hold: what parsing trims or splits at does not occur in them.\<close>

definition printable :: "RdpRecord \<Rightarrow> bool" where
  "printable r \<longleftrightarrow>
     58 \<notin> set (rdp_name r) \<and> 10 \<notin> set (rdp_name r) \<and> 10 \<notin> set (rdp_value r) \<and>
     (rdp_name r = [] \<or> \<not> is_blank (hd (rdp_name r)) \<and> \<not> is_blank (List.last (rdp_name r))) \<and>
     (rdp_value r = [] \<or> \<not> is_blank (hd (rdp_value r)) \<and> List.last (rdp_value r) \<noteq> 13)"

definition line_of :: "RdpRecord \<Rightarrow> str" where
  "line_of r = rdp_name r @ [58] @ [as_char (rdp_kind r)] @ [58] @ rdp_value r"

lemma record_to_line_eq: "record_to_line r = line_of r @ [13, 10]"
  by (simp add: record_to_line_def line_of_def)

lemma parse_kind_char [simp]: "parse_kind (as_char k) = Some k"
  by (cases k) (simp_all add: parse_kind_def char_lower_def)

lemma parse_line_of:
  assumes "printable r"
  shows "parse_line (line_of r) = Some r"
proof -
  have b: "\<not> is_blank 58" "\<not> is_blank (as_char (rdp_kind r))"
    by (simp_all add: is_blank_def) (cases "rdp_kind r"; simp add: is_blank_def)
  have t: "trim_start_blank (line_of r) = line_of r"
    using assms b by (cases "rdp_name r") (auto simp: printable_def line_of_def trim_start_blank_def)
  have e: "trim_end_blank (rdp_name r) = rdp_name r"
    using assms dropWhile_hd [of "rev (rdp_name r)" is_blank]
    by (auto simp: printable_def trim_end_blank_def hd_rev)
  have v: "trim_start_blank (rdp_value r) = rdp_value r"
    using assms by (cases "rdp_value r") (auto simp: printable_def trim_start_blank_def)
  have "rdp_value r \<noteq> [] \<Longrightarrow> List.last (rdp_value r) \<noteq> 10"
  proof -
    assume "rdp_value r \<noteq> []"
    then have "List.last (rdp_value r) \<in> set (rdp_value r)" by (rule last_in_set)
    moreover have "10 \<notin> set (rdp_value r)" using assms by (simp add: printable_def)
    ultimately show ?thesis by metis
  qed
  then have w: "rev (dropWhile (\<lambda>c. c = 13 \<or> c = 10) (rev (rdp_value r))) = rdp_value r"
    using assms dropWhile_hd [of "rev (rdp_value r)" "\<lambda>c. c = 13 \<or> c = 10"]
    by (cases "rdp_value r = []") (simp_all add: printable_def hd_rev)
  have s: "split_once 58 (line_of r) = Some (rdp_name r, as_char (rdp_kind r) # 58 # rdp_value r)"
    using assms split_once_at [of 58 "rdp_name r"] by (simp add: printable_def line_of_def)
  have "trim_start_blank (as_char (rdp_kind r) # 58 # rdp_value r) = as_char (rdp_kind r) # 58 # rdp_value r"
    "trim_start_blank (58 # rdp_value r) = 58 # rdp_value r"
    using b by (simp_all add: trim_start_blank_def)
  then show ?thesis
    using t e v w s by (simp add: parse_line_def Let_def) (simp add: line_of_def)
qed

lemma parse_records_text: "\<forall>r\<in>set rs. printable r \<Longrightarrow> parse_records (records_to_text rs) = rs"
proof (induction rs)
  case (Cons r rs)
  then have "10 \<notin> set (line_of r)" by (cases "rdp_kind r") (auto simp: printable_def line_of_def)
  from lines_crlf [OF this] show ?case
    using Cons by (simp add: parse_records_def records_to_text_def record_to_line_eq parse_line_of)
qed (simp add: parse_records_def records_to_text_def)

lemma decode_encode: "wf_str t \<Longrightarrow> decode_rdp_text (encode_native_unicode t) = t"
  using units_le_bytes [of "encode_utf16 t" "[]"]
  by (simp add: decode_rdp_text_def encode_native_unicode_def utf16_bytes_le_def from_utf16_lossy_encode)

lemma utf16_bytes_inject: "utf16_bytes_le a = utf16_bytes_le b \<longleftrightarrow> a = b"
proof -
  have "units_le (utf16_bytes_le ws) = ws" for ws using units_le_bytes [of ws "[]"] by simp
  then show ?thesis by metis
qed

section \<open>Properties\<close>

text \<open>C10: the record layer round-trips through a file: writing printable records as text, encoding
  the text as the program writes it, decoding and parsing gives the same records in the same order.\<close>

theorem rdp_records_round_trip:
  assumes "\<forall>r\<in>set rs. printable r" and "wf_str (records_to_text rs)"
  shows "parse_records (decode_rdp_text (encode_native_unicode (records_to_text rs))) = rs"
  by (simp add: decode_encode assms parse_records_text)

definition sample_rdp :: "RdpRecord list" where
  "sample_rdp = [\<lparr>rdp_name = lit ''full address'', rdp_kind = String, rdp_value = lit ''srv:3389''\<rparr>,
     \<lparr>rdp_name = lit ''Server Port'', rdp_kind = Integer, rdp_value = lit ''3389''\<rparr>]"

theorem rdp_records_round_trip_witness:
  "parse_records (decode_rdp_text (encode_native_unicode (records_to_text sample_rdp))) = sample_rdp"
  by (rule rdp_records_round_trip)
    (simp_all add: sample_rdp_def printable_def is_blank_def records_to_text_def record_to_line_def is_scalar_def)

lemma prepared_facts:
  assumes "prepare_for_signature rs = Inr p"
  shows "\<exists>names. names \<noteq> [] \<and> set names \<subseteq> fst ` set SENSITIVE_SETTINGS \<and> prep_sign_scope p = join_comma names \<and>
    secure_settings_blob (prep_records p) (prep_sign_scope p) = Inr (prep_secure_blob p) \<and>
    find_record (prep_records p) (lit ''SignScope'') = Some (string_record (lit ''SignScope'') (prep_sign_scope p)) \<and>
    lit ''Full Address'' \<in> set names"
proof -
  obtain rs' names where n: "scope_names rs' SENSITIVE_SETTINGS [] = Inr names"
    and p: "prep_records p = insert_or_replace rs' (string_record (lit ''SignScope'') (join_comma names))"
      "prep_sign_scope p = join_comma names"
      "secure_settings_blob (prep_records p) (join_comma names) = Inr (prep_secure_blob p)"
    using assms by (auto simp: prepare_for_signature_def Let_def rbind_Inr_iff simp del: lit_simps split: if_splits)
  have "lit ''Full Address'' \<in> set names"
  proof (cases "find_record rs' (lit ''Full Address'')")
    case (Some r)
    then have "scope_names rs' (tl SENSITIVE_SETTINGS) [lit ''Full Address''] = Inr names"
      using n by (simp add: SENSITIVE_SETTINGS_def split: if_splits del: lit_simps list.map find_record_simps)
    then show ?thesis using scope_names_keep by fastforce
  qed (use n in \<open>simp add: SENSITIVE_SETTINGS_def del: lit_simps list.map find_record_simps\<close>)
  moreover have "find_record (prep_records p) (lit ''SignScope'') = Some (string_record (lit ''SignScope'') (join_comma names))"
    unfolding p(1) using rdp_store.lookup_put_same [of rs' "string_record (lit ''SignScope'') (join_comma names)"]
    by (simp add: string_record_def del: lit_simps)
  ultimately show ?thesis
    using scope_names_subset [OF n] p(2,3) by (intro exI [of _ names]) auto
qed

lemma scope_parts:
  assumes "names \<noteq> []" "set names \<subseteq> fst ` set SENSITIVE_SETTINGS"
  shows "filter (\<lambda>s. s \<noteq> []) (split_on 44 (join_comma names)) = names"
proof -
  have "\<forall>n\<in>set names. 44 \<notin> set n \<and> n \<noteq> []" using assms(2) setting_names by blast
  then show ?thesis using join_split [OF assms(1)] by simp
qed

text \<open>C11: signing is stable. What was prepared is what is signed and what a verifier reads back: after
  the signature is stored, the covered settings and their blob are unchanged, the scope in the file is
  the scope that was signed, it contains the server address, and the blob of the signature comes out.\<close>

theorem rdp_sign_then_read:
  assumes "prepare_for_signature rs = Inr p" and "base64_ok B" and "length pkcs7 < 2 ^ 32"
  shows "let signed = apply_pkcs7_signature B (prep_records p) pkcs7 in
    signature_record_pkcs7 B signed = Inr pkcs7 \<and>
    secure_settings_blob signed (prep_sign_scope p) = Inr (prep_secure_blob p) \<and>
    map_option rdp_value (find_record signed (lit ''SignScope'')) = Some (prep_sign_scope p) \<and>
    lit ''Full Address'' \<in> set (split_on 44 (prep_sign_scope p))"
proof -
  let ?sig = "string_record (lit ''Signature'') (b64_encode B (serialize_signature pkcs7))"
  let ?signed = "insert_or_replace (prep_records p) ?sig"
  obtain names where n: "names \<noteq> []" "set names \<subseteq> fst ` set SENSITIVE_SETTINGS" "prep_sign_scope p = join_comma names"
    and b: "secure_settings_blob (prep_records p) (prep_sign_scope p) = Inr (prep_secure_blob p)"
    and s: "find_record (prep_records p) (lit ''SignScope'') = Some (string_record (lit ''SignScope'') (prep_sign_scope p))"
    and fa: "lit ''Full Address'' \<in> set names"
    using prepared_facts [OF assms(1)] by blast
  have key: "rdp_name ?sig = lit ''Signature''" by (simp add: string_record_def)
  have other: "find_record ?signed (lit ''SignScope'') = find_record (prep_records p) (lit ''SignScope'')"
    by (rule rdp_store.lookup_put_other) (simp add: string_record_def to_ascii_lowercase_def char_lower_def)
  have view: "map (find_record ?signed) names = map (find_record (prep_records p)) names"
    by (rule rdp_store.view_put) (use n(2) setting_names key in auto)
  have blob: "secure_settings_blob ?signed (prep_sign_scope p) = Inr (prep_secure_blob p)"
    using b scope_lines_view [OF view] other scope_parts [OF n(1,2)]
    by (simp add: secure_settings_blob_def n(3) del: lit_simps)
  have "signature_pkcs7_from_serialized (serialize_signature pkcs7) = Inr pkcs7"
    using assms(3) by (simp add: signature_pkcs7_from_serialized_def serialize_signature_def sub_def Let_def unat_u32_of_nat)
  moreover have "find_record ?signed (lit ''Signature'') = Some ?sig"
    using rdp_store.lookup_put_same [of "prep_records p" ?sig] by (simp add: key del: lit_simps)
  moreover have "trim (b64_encode B x) = b64_encode B x" for x
    by (rule graphic_trim [OF base64_graphic [OF assms(2)]])
  ultimately have "signature_record_pkcs7 B ?signed = Inr pkcs7"
    using assms(2) by (simp add: signature_record_pkcs7_def signature_pkcs7_from_base64_def string_record_def del: lit_simps)
  moreover have "lit ''Full Address'' \<in> set (split_on 44 (prep_sign_scope p))"
  proof -
    have "\<forall>n\<in>set names. 44 \<notin> set n" using n(2) setting_names by blast
    then show ?thesis using fa join_split [OF n(1)] n(3) by simp
  qed
  ultimately show ?thesis
    using blob other s by (simp add: apply_pkcs7_signature_def Let_def string_record_def del: lit_simps)
qed

theorem rdp_sign_then_read_witness:
  "\<exists>p. prepare_for_signature sample_rdp = Inr p \<and>
    signature_record_pkcs7 hex_engine (apply_pkcs7_signature hex_engine (prep_records p) [0x30]) = Inr [0x30]"
proof -
  have "is_ok (prepare_for_signature sample_rdp)" by code_simp
  then obtain p where "prepare_for_signature sample_rdp = Inr p" by (auto simp: is_ok_iff)
  then show ?thesis using rdp_sign_then_read [OF _ hex_engine_ok, of sample_rdp p "[0x30]"] by (auto simp: Let_def)
qed

section \<open>The blob binds the covered settings\<close>

lemma line_of_inject:
  assumes "printable r" "printable r'" "line_of r = line_of r'"
  shows "r = r'"
proof -
  have "split_once 58 (line_of q) = Some (rdp_name q, as_char (rdp_kind q) # 58 # rdp_value q)" if "printable q" for q
    using that split_once_at [of 58 "rdp_name q"] by (simp add: printable_def line_of_def)
  then have "rdp_name r = rdp_name r'" "as_char (rdp_kind r) = as_char (rdp_kind r')" "rdp_value r = rdp_value r'"
    using assms by (metis list.inject option.inject prod.inject)+
  then show ?thesis by (cases "rdp_kind r"; cases "rdp_kind r'") simp_all
qed

lemma text_inject:
  assumes "concat (map record_to_line rs) = concat (map record_to_line rs')"
    and "\<forall>r\<in>set rs. printable r" "\<forall>r\<in>set rs'. printable r"
  shows "rs = rs'"
  using parse_records_text [OF assms(2)] parse_records_text [OF assms(3)] assms(1)
  by (simp add: records_to_text_def)

lemma encode_utf16_inject: "wf_str s \<Longrightarrow> wf_str t \<Longrightarrow> encode_utf16 s = encode_utf16 t \<Longrightarrow> s = t"
  by (metis from_utf16_encode option.inject)

lemma wf_lines: "\<forall>r\<in>set rs. wf_str (record_to_line r) \<Longrightarrow> wf_str (concat (map record_to_line rs))"
  by (induction rs) simp_all

lemma find_record_set: "find_record rs k = Some r \<Longrightarrow> r \<in> set rs"
  by (induction rs) (auto split: if_splits)

lemma blob_lines:
  assumes "find_record rs (lit ''SignScope'') = Some sc" "secure_settings_blob rs (rdp_value sc) = Inr b"
    and "\<forall>r\<in>set rs. printable r \<and> wf_str (rdp_name r) \<and> wf_str (rdp_value r)"
  shows "\<exists>found. map (find_record rs) (filter (\<lambda>s. s \<noteq> []) (split_on 44 (rdp_value sc))) = map Some found \<and>
    b = utf16_bytes_le (encode_utf16 (concat (map record_to_line (found @ [sc]))) @ [0]) \<and>
    (\<forall>r\<in>set (found @ [sc]). printable r) \<and> wf_str (concat (map record_to_line (found @ [sc])))"
proof -
  obtain found where f: "map (find_record rs) (filter (\<lambda>s. s \<noteq> []) (split_on 44 (rdp_value sc))) = map Some found"
    "b = utf16_bytes_le (encode_utf16 (concat (map record_to_line found) @ record_to_line sc) @ [0])"
    using assms(1,2)
    by (auto simp: secure_settings_blob_def scope_lines_Inr rbind_Inr_iff utf16_bytes_le_def simp del: lit_simps)
  have "r \<in> set rs" if r: "r \<in> set (found @ [sc])" for r
  proof (cases "r \<in> set found")
    case True
    then have "Some r \<in> set (map (find_record rs) (filter (\<lambda>s. s \<noteq> []) (split_on 44 (rdp_value sc))))"
      unfolding f(1) by simp
    then show ?thesis by (auto dest: find_record_set [OF sym])
  qed (use r assms(1) find_record_set in auto)
  then have m: "\<forall>r\<in>set (found @ [sc]). printable r \<and> wf_str (rdp_name r) \<and> wf_str (rdp_value r)"
    using assms(3) by blast
  have "wf_str (record_to_line r)" if "wf_str (rdp_name r)" "wf_str (rdp_value r)" for r
    using that by (cases "rdp_kind r") (simp_all add: record_to_line_def is_scalar_def)
  then have "wf_str (concat (map record_to_line (found @ [sc])))"
    using m by (intro wf_lines) blast
  then show ?thesis using f m by (intro exI [of _ found]) simp
qed

text \<open>The signed blob binds every covered setting. Two files whose scope records are the ones that
  were signed and that give the same blob have the same scope, and name by name the same record behind
  it (name as written, kind and value): no covered setting can change under a signature that still
  verifies, except for the uncovered ones.\<close>

theorem rdp_blob_binds_settings:
  assumes "find_record rs (lit ''SignScope'') = Some sc" and "find_record rs' (lit ''SignScope'') = Some sc'"
    and "secure_settings_blob rs (rdp_value sc) = Inr b" and "secure_settings_blob rs' (rdp_value sc') = Inr b"
    and "\<forall>r\<in>set rs \<union> set rs'. printable r \<and> wf_str (rdp_name r) \<and> wf_str (rdp_value r)"
  shows "sc = sc' \<and>
    (\<forall>n\<in>set (split_on 44 (rdp_value sc)). n \<noteq> [] \<longrightarrow> find_record rs n = find_record rs' n)"
proof -
  obtain f where f: "map (find_record rs) (filter (\<lambda>s. s \<noteq> []) (split_on 44 (rdp_value sc))) = map Some f"
    "b = utf16_bytes_le (encode_utf16 (concat (map record_to_line (f @ [sc]))) @ [0])"
    "\<forall>r\<in>set (f @ [sc]). printable r" "wf_str (concat (map record_to_line (f @ [sc])))"
    using blob_lines [OF assms(1,3)] assms(5) by blast
  obtain g where g: "map (find_record rs') (filter (\<lambda>s. s \<noteq> []) (split_on 44 (rdp_value sc'))) = map Some g"
    "b = utf16_bytes_le (encode_utf16 (concat (map record_to_line (g @ [sc']))) @ [0])"
    "\<forall>r\<in>set (g @ [sc']). printable r" "wf_str (concat (map record_to_line (g @ [sc'])))"
    using blob_lines [OF assms(2,4)] assms(5) by blast
  have "concat (map record_to_line (f @ [sc])) = concat (map record_to_line (g @ [sc']))"
    by (rule encode_utf16_inject [OF f(4) g(4)]) (use f(2) g(2) utf16_bytes_inject in auto)
  from text_inject [OF this f(3) g(3)] have fg: "f = g" "sc = sc'" by simp_all
  have "find_record rs n = find_record rs' n"
    if "n \<in> set (filter (\<lambda>s. s \<noteq> []) (split_on 44 (rdp_value sc)))" for n
  proof -
    have "map (find_record rs) (filter (\<lambda>s. s \<noteq> []) (split_on 44 (rdp_value sc))) =
        map (find_record rs') (filter (\<lambda>s. s \<noteq> []) (split_on 44 (rdp_value sc)))"
      using f(1) g(1) fg by simp
    then show ?thesis using that by (simp only: map_eq_conv)
  qed
  with fg show ?thesis by auto
qed

definition scoped_rdp :: "RdpRecord list" where
  "scoped_rdp = [string_record (lit ''SignScope'') (lit ''a''), string_record (lit ''a'') (lit ''1'')]"

definition reordered_rdp :: "RdpRecord list" where
  "reordered_rdp = [string_record (lit ''a'') (lit ''1''), string_record (lit ''b'') (lit ''2''),
     string_record (lit ''SignScope'') (lit ''a'')]"

theorem rdp_blob_binds_settings_witness:
  "\<exists>b. secure_settings_blob scoped_rdp (lit ''a'') = Inr b \<and> secure_settings_blob reordered_rdp (lit ''a'') = Inr b \<and>
     find_record scoped_rdp (lit ''a'') = find_record reordered_rdp (lit ''a'')"
proof -
  let ?sc = "string_record (lit ''SignScope'') (lit ''a'')"
  have sc: "find_record scoped_rdp (lit ''SignScope'') = Some ?sc" "find_record reordered_rdp (lit ''SignScope'') = Some ?sc"
    by code_simp+
  have "is_ok (secure_settings_blob scoped_rdp (lit ''a''))"
    "secure_settings_blob scoped_rdp (lit ''a'') = secure_settings_blob reordered_rdp (lit ''a'')" by code_simp+
  then obtain b where b: "secure_settings_blob scoped_rdp (rdp_value ?sc) = Inr b"
    "secure_settings_blob reordered_rdp (rdp_value ?sc) = Inr b" by (auto simp: is_ok_iff string_record_def)
  have "\<forall>r\<in>set scoped_rdp \<union> set reordered_rdp. printable r \<and> wf_str (rdp_name r) \<and> wf_str (rdp_value r)"
    by (simp add: scoped_rdp_def reordered_rdp_def string_record_def printable_def is_blank_def is_scalar_def)
  from rdp_blob_binds_settings [OF sc b this] b show ?thesis by (simp add: string_record_def)
qed

end
