(* ===== verification/Response_Argv.thy ===== *)
theory Response_Argv
  imports Script_Remove
begin

text \<open>
  Model of \<^verbatim>\<open>src/response_argv.rs\<close>: command lines that name response files. An argument is a string
  (an \<^verbatim>\<open>OsString\<close> that is Unicode); the file system is a partial function from paths to contents.

  The inclusion of files by files is bounded by the depth the code counts, which is the measure of
  the mutual recursion below: at depth 8 another inclusion is an error.
\<close>

type_synonym file_store = "str \<Rightarrow> u8 list option"

definition MAX_RESPONSE_DEPTH :: nat where "MAX_RESPONSE_DEPTH = 8"
definition MAX_RESPONSE_LINES :: nat where "MAX_RESPONSE_LINES = 4096"

definition is_response_path_arg :: "str \<Rightarrow> str option" where
  "is_response_path_arg s =
     (case strip_prefix [64] s of
        None \<Rightarrow> None
      | Some rest \<Rightarrow> if rest = [] \<or> starts_with [64, 64] s then None else Some rest)"

definition utf16_bytes_to_string :: "u8 list \<Rightarrow> bool \<Rightarrow> str res" where
  "utf16_bytes_to_string bytes big_endian =
     (if length bytes mod 2 \<noteq> 0 then bail ''response file UTF-16 payload has odd length''
      else ok_or (from_utf16 (if big_endian then units_be bytes else units_le bytes))
             ''response file UTF-16 decode failed'')"

definition read_response_text :: "file_store \<Rightarrow> str \<Rightarrow> str res" where
  "read_response_text F path =
     rbind (ok_or (F path) ''reading response file'') (\<lambda>bytes.
       if 3 \<le> length bytes \<and> take 3 bytes = [0xEF, 0xBB, 0xBF]
       then ok_or (from_utf8 (drop 3 bytes)) ''response file is not valid UTF-8 after BOM strip''
       else if 2 \<le> length bytes \<and> bytes ! 0 = 0xFF \<and> bytes ! 1 = 0xFE
       then utf16_bytes_to_string (drop 2 bytes) False
       else if 2 \<le> length bytes \<and> bytes ! 0 = 0xFE \<and> bytes ! 1 = 0xFF
       then utf16_bytes_to_string (drop 2 bytes) True
       else case from_utf8 bytes of
              Some s \<Rightarrow> Inr s
            | None \<Rightarrow> (case utf16_bytes_to_string bytes False of
                  Inr s \<Rightarrow> Inr s
                | Inl _ \<Rightarrow> bail ''invalid UTF-8; UTF-16-LE fallback failed''))"

definition normalized_line :: "str \<Rightarrow> str" where
  "normalized_line line = trim (rev (dropWhile (\<lambda>c. c = 13) (rev line)))"

text \<open>\<^verbatim>\<open>replace\<close> of a doubled quote by one, left to right.\<close>

fun undouble :: "str \<Rightarrow> str" where
  "undouble (a # b # s) = (if a = 34 \<and> b = 34 then 34 # undouble s else a # undouble (b # s))"
| "undouble s = s"

definition decode_response_arg_token :: "str \<Rightarrow> str" where
  "decode_response_arg_token line =
     (let t = trim line in
      if 2 \<le> length (utf8 t) \<and> starts_with [34] t \<and> ends_with [34] t
      then undouble (butlast (tl t))
      else t)"

text \<open>The rank that decreases: the remaining depth, then the step inside one file, then the lines left.\<close>

definition include_rank ::
  "(file_store \<times> str \<times> nat) + (file_store \<times> str list \<times> nat \<times> nat \<times> str list) +
   (file_store \<times> str list \<times> str \<times> nat) \<Rightarrow> nat \<times> nat \<times> nat" where
  "include_rank x = (case x of
       Inl (F, path, depth) \<Rightarrow> (9 - depth, if 8 < depth then 0 else 3, 0)
     | Inr (Inl (F, ls, depth, n, out)) \<Rightarrow> (9 - depth, 2, length ls)
     | Inr (Inr (F, out, line, depth)) \<Rightarrow> (9 - depth, 1, 0))"

function read_flat_args_from_file :: "file_store \<Rightarrow> str \<Rightarrow> nat \<Rightarrow> str list res"
  and read_lines :: "file_store \<Rightarrow> str list \<Rightarrow> nat \<Rightarrow> nat \<Rightarrow> str list \<Rightarrow> str list res"
  and append_response_line :: "file_store \<Rightarrow> str list \<Rightarrow> str \<Rightarrow> nat \<Rightarrow> str list res"
where
  "read_flat_args_from_file F path depth =
     (if MAX_RESPONSE_DEPTH < depth then bail ''response file nesting exceeds MAX_RESPONSE_DEPTH''
      else rbind (read_response_text F path) (\<lambda>text. read_lines F (lines text) depth 0 []))"
| "read_lines F [] depth lines_seen out = Inr out"
| "read_lines F (line # ls) depth lines_seen out =
     (if MAX_RESPONSE_LINES < lines_seen + 1 then bail ''response file exceeds MAX_RESPONSE_LINES lines''
      else rbind (append_response_line F out line depth)
             (\<lambda>out'. read_lines F ls depth (lines_seen + 1) out'))"
| "append_response_line F out raw_line depth =
     (let t = normalized_line raw_line in
      if t = [] then Inr out
      else
        let decoded = decode_response_arg_token t in
        case strip_prefix [64] decoded of
          Some inner \<Rightarrow>
            if inner \<noteq> [] then
              rbind (read_flat_args_from_file F inner (depth + 1)) (\<lambda>args. Inr (out @ args))
            else Inr (out @ [decoded])
        | None \<Rightarrow> Inr (out @ [decoded]))"
  by pat_completeness auto

termination
  by (relation "inv_image (less_than <*lex*> less_than <*lex*> less_than) include_rank")
    (auto simp: include_rank_def MAX_RESPONSE_DEPTH_def)

declare read_flat_args_from_file.simps [simp del] append_response_line.simps [simp del]

fun block_lines :: "file_store \<Rightarrow> str list \<Rightarrow> nat \<Rightarrow> str list list \<Rightarrow> str list \<Rightarrow> str list list res" where
  "block_lines F [] lines_seen blocks current =
     (let blocks' = (if current \<noteq> [] then blocks @ [current] else blocks) in
      if blocks' = [] then bail ''response file is empty (no arguments)'' else Inr blocks')"
| "block_lines F (line # ls) lines_seen blocks current =
     (if MAX_RESPONSE_LINES < lines_seen + 1 then bail ''response file exceeds MAX_RESPONSE_LINES lines''
      else if normalized_line line = [] then
        (if current \<noteq> [] then block_lines F ls (lines_seen + 1) (blocks @ [current]) []
         else block_lines F ls (lines_seen + 1) blocks current)
      else rbind (append_response_line F current line 0)
             (\<lambda>current'. block_lines F ls (lines_seen + 1) blocks current'))"

definition parse_multi_command_blocks :: "file_store \<Rightarrow> str \<Rightarrow> str list list res" where
  "parse_multi_command_blocks F text = block_lines F (lines text) 0 [] []"

definition prepend_executable :: "str \<Rightarrow> str list \<Rightarrow> str list" where
  "prepend_executable executable tail = executable # tail"

fun splice_args :: "file_store \<Rightarrow> str list \<Rightarrow> str list \<Rightarrow> str list res" where
  "splice_args F [] out = Inr out"
| "splice_args F (arg # args) out =
     (if starts_with [64, 64] arg then
        splice_args F args (out @ [if length (utf8 arg) = 2 then [64] else tl arg])
      else case is_response_path_arg arg of
          Some path \<Rightarrow> rbind (read_flat_args_from_file F path 0) (\<lambda>flat. splice_args F args (out @ flat))
        | None \<Rightarrow> splice_args F args (out @ [arg]))"

definition expand_invocations :: "file_store \<Rightarrow> str \<Rightarrow> str list \<Rightarrow> str list list res" where
  "expand_invocations F executable tail =
     (let general = rbind (splice_args F tail [executable]) (\<lambda>out. Inr [out]) in
      case tail of
        [arg] \<Rightarrow>
          (case is_response_path_arg arg of
             Some path \<Rightarrow>
               rbind (read_response_text F path) (\<lambda>text.
               rbind (parse_multi_command_blocks F text) (\<lambda>blocks.
               Inr (map (prepend_executable executable) blocks)))
           | None \<Rightarrow> general)
      | _ \<Rightarrow> general)"

section \<open>Exit codes\<close>

definition AZURE_SIGN_EXIT_PARTIAL_SUCCESS :: i32 where "AZURE_SIGN_EXIT_PARTIAL_SUCCESS = 0x20000001"
definition AZURE_SIGN_EXIT_ALL_FAILED :: i32 where "AZURE_SIGN_EXIT_ALL_FAILED = 0xA0000002"

definition combine_batch_exit_codes :: "i32 \<Rightarrow> i32 \<Rightarrow> i32" where
  "combine_batch_exit_codes acc next_code =
     (if acc = 1 \<or> next_code = 1 then 1
      else if acc = AZURE_SIGN_EXIT_ALL_FAILED \<or> next_code = AZURE_SIGN_EXIT_ALL_FAILED
      then AZURE_SIGN_EXIT_ALL_FAILED
      else if acc = AZURE_SIGN_EXIT_PARTIAL_SUCCESS \<or> next_code = AZURE_SIGN_EXIT_PARTIAL_SUCCESS
      then AZURE_SIGN_EXIT_PARTIAL_SUCCESS
      else if acc = 2 \<or> next_code = 2 then 2 else 0)"

section \<open>Quoted tokens\<close>

text \<open>What a response file is to contain for an argument: quoted, with its quotes doubled.\<close>

fun double_quotes :: "str \<Rightarrow> str" where
  "double_quotes [] = []"
| "double_quotes (c # s) = (if c = 34 then 34 # 34 # double_quotes s else c # double_quotes s)"

definition quote_token :: "str \<Rightarrow> str" where
  "quote_token s = [34] @ double_quotes s @ [34]"

lemma undouble_double: "undouble (double_quotes s) = s"
proof (induction s)
  case (Cons c s)
  show ?case
  proof (cases "c = 34")
    case False
    then have "undouble (c # t) = c # undouble t" for t by (cases t) auto
    then show ?thesis using Cons False by simp
  qed (use Cons in simp)
qed simp

lemma trimmed_quoted: "trimmed (quote_token s)"
  by (simp add: trimmed_def quote_token_def is_whitespace_def)

lemma normalized_line_eq_trim: "normalized_line l = trim l"
proof -
  have d: "dropWhile is_whitespace (dropWhile (\<lambda>c. c = 13) xs) = dropWhile is_whitespace xs" for xs
    by (induction xs) (auto simp: is_whitespace_def)
  have e: "trim_end (rev (dropWhile (\<lambda>c. c = 13) (rev xs))) = trim_end xs" for xs
    by (simp add: trim_end_def d)
  have c: "trim_end (trim_start xs) = trim_start (trim_end xs)" for xs
  proof (induction xs)
    case (Cons a xs)
    show ?case
    proof (cases "is_whitespace a")
      case True
      have "trim_end (a # xs) = (if trim_end xs = [] then [] else a # trim_end xs)"
        using True by (auto simp: trim_end_def dropWhile_append dropWhile_eq_Nil_conv)
      then show ?thesis using True Cons by (auto simp: trim_start_def)
    next
      case False
      then have "trim_end (a # xs) = a # trim_end xs"
        by (auto simp: trim_end_def dropWhile_append dropWhile_eq_Nil_conv)
      then show ?thesis using False by (simp add: trim_start_def)
    qed
  qed (simp add: trim_end_def trim_start_def)
  show ?thesis by (simp add: normalized_line_def trim_def c e)
qed

lemma decode_quoted: "decode_response_arg_token (quote_token s) = s"
proof -
  have "34 # double_quotes s @ [34] = [34] @ double_quotes s @ [34]" by simp
  then have "starts_with [34] (quote_token s)" "ends_with [34] (quote_token s)"
    unfolding starts_with_iff ends_with_iff quote_token_def by (auto intro: exI [of _ "34 # double_quotes s"])
  moreover have "2 \<le> length (utf8 (quote_token s))"
    by (simp add: quote_token_def utf8_char_def)
  ultimately show ?thesis
    by (simp add: decode_response_arg_token_def Let_def trim_id [OF trimmed_quoted])
      (simp add: quote_token_def butlast_append undouble_double)
qed

lemma quoted_line: "10 \<notin> set s \<Longrightarrow> lines (quote_token s @ 10 # r) = quote_token s # lines r"
proof -
  assume "10 \<notin> set s"
  moreover have "set (double_quotes s) \<subseteq> set s" by (induction s) auto
  ultimately have "split_once 10 (quote_token s @ 10 # r) = Some (quote_token s, r)"
    by (intro split_once_at) (auto simp: quote_token_def)
  moreover have "strip_cr (quote_token s) = quote_token s" by (simp add: strip_cr_def quote_token_def)
  ultimately show ?thesis by (simp add: lines.simps)
qed

lemma blank_line: "lines (10 # r) = [] # lines r"
  by (simp add: lines.simps strip_cr_def)

text \<open>A token that asks for no inclusion is appended as it is.\<close>

definition plain_token :: "str \<Rightarrow> bool" where
  "plain_token s \<longleftrightarrow> 10 \<notin> set s \<and> (strip_prefix [64] s = None \<or> s = [64])"

lemma append_quoted:
  assumes "plain_token s"
  shows "append_response_line F out (quote_token s) depth = Inr (out @ [s])"
proof -
  have "quote_token s \<noteq> []" by (simp add: quote_token_def)
  with assms show ?thesis
    by (auto simp: append_response_line.simps [of F out] normalized_line_eq_trim trim_id [OF trimmed_quoted]
      decode_quoted plain_token_def Let_def split: option.split)
qed

section \<open>Printing command blocks\<close>

definition block_text :: "str list \<Rightarrow> str" where
  "block_text args = concat (map (\<lambda>a. quote_token a @ [10]) args) @ [10]"

definition response_text :: "str list list \<Rightarrow> str" where
  "response_text blocks = concat (map block_text blocks)"

text \<open>Commands that can be written: none empty, plain tokens of scalar values, within the line limit.\<close>

definition commands_ok :: "str list list \<Rightarrow> bool" where
  "commands_ok blocks \<longleftrightarrow> blocks \<noteq> [] \<and> (\<forall>b\<in>set blocks. b \<noteq> [] \<and> (\<forall>a\<in>set b. plain_token a \<and> wf_str a)) \<and>
     sum_list (map (\<lambda>b. length b + 1) blocks) \<le> 4096"

lemma block_lines_block:
  assumes "\<forall>a\<in>set b. plain_token a" "n + length b + 1 \<le> 4096" "cur @ b \<noteq> []"
  shows "block_lines F (lines (block_text b @ rest)) n bs cur
       = block_lines F (lines rest) (n + length b + 1) (bs @ [cur @ b]) []"
  using assms
proof (induction b arbitrary: n cur)
  case Nil
  then show ?case
    by (simp add: block_text_def blank_line MAX_RESPONSE_LINES_def normalized_line_eq_trim trim_id trimmed_def)
next
  case (Cons a b)
  have a: "plain_token a" "10 \<notin> set a" using Cons.prems by (simp_all add: plain_token_def)
  have "quote_token a \<noteq> []" by (simp add: quote_token_def)
  then have "block_lines F (quote_token a # ls) n bs cur = block_lines F ls (n + 1) bs (cur @ [a])" for ls
    using Cons.prems(2) a(1)
    by (simp add: MAX_RESPONSE_LINES_def normalized_line_eq_trim trim_id [OF trimmed_quoted] append_quoted)
  moreover have "block_text (a # b) @ rest = quote_token a @ 10 # block_text b @ rest"
    by (simp add: block_text_def)
  ultimately show ?case using Cons.IH [of "n + 1" "cur @ [a]"] Cons.prems quoted_line [OF a(2)] by simp
qed

lemma block_lines_text:
  assumes "\<forall>b\<in>set blocks. b \<noteq> [] \<and> (\<forall>a\<in>set b. plain_token a)" "bs @ blocks \<noteq> []"
    "n + sum_list (map (\<lambda>b. length b + 1) blocks) \<le> 4096"
  shows "block_lines F (lines (response_text blocks)) n bs [] = Inr (bs @ blocks)"
  using assms
proof (induction blocks arbitrary: n bs)
  case Nil
  then show ?case by (simp add: response_text_def)
next
  case (Cons b blocks)
  then show ?case
    using block_lines_block [of b n "[]" F "response_text blocks" bs] Cons.IH [of "bs @ [b]" "n + length b + 1"]
    by (simp add: response_text_def)
qed

lemma wf_double_quotes [simp]: "wf_str (double_quotes s) = wf_str s"
  by (induction s) (auto simp: is_scalar_def)

lemma wf_concat: "wf_str (concat xs) \<longleftrightarrow> (\<forall>x\<in>set xs. wf_str x)"
  by (induction xs) auto

lemma wf_response_text:
  assumes "commands_ok blocks"
  shows "wf_str (response_text blocks)"
proof -
  have "wf_str (quote_token a @ [10])" if "wf_str a" for a
    using that by (simp add: quote_token_def is_scalar_def)
  then have "wf_str (block_text b)" if "\<forall>a\<in>set b. wf_str a" for b
    using that by (simp add: block_text_def wf_concat is_scalar_def)
  then show ?thesis using assms by (simp add: response_text_def wf_concat commands_ok_def)
qed

lemma response_text_head: "commands_ok blocks \<Longrightarrow> response_text blocks \<noteq> [] \<and> hd (response_text blocks) = 34"
  by (cases blocks) (auto simp: commands_ok_def response_text_def block_text_def quote_token_def neq_Nil_conv)

text \<open>A file in any of the encodings reads as its text without a byte-order mark.\<close>

lemma read_response_file:
  assumes "wf_str s" "F path = Some (script_file form s)"
  shows "read_response_text F path = Inr (fst (decoded_form form s))"
proof (cases form)
  case Utf8
  show ?thesis
  proof (cases "\<exists>t. s = 0xFEFF # t")
    case True
    then show ?thesis using Utf8 assms by (auto simp: read_response_text_def utf8_bom from_utf8_utf8)
  next
    case False
    then have "\<not> (s \<noteq> [] \<and> hd s = 0xFEFF)" by (metis list.collapse)
    moreover have "take 2 bs = [bs ! 0, bs ! 1]" if "2 \<le> length bs" for bs :: "u8 list"
      using that by (cases bs; cases "tl bs") auto
    ultimately show ?thesis
      using Utf8 assms False utf8_bom_iff [OF assms(1)] utf8_no_mark [OF assms(1)]
      by (auto simp: read_response_text_def from_utf8_utf8)
  qed
next
  case Utf16Le
  then show ?thesis
    using assms by (simp add: read_response_text_def utf16_bytes_to_string_def units_le_inverse from_utf16_encode)
      (simp add: utf16_bytes_eq)
next
  case Utf16Be
  then show ?thesis
    using assms by (simp add: read_response_text_def utf16_bytes_to_string_def units_be_inverse from_utf16_encode)
qed

lemma expand_response_file:
  assumes "commands_ok blocks" "F path = Some (script_file form (response_text blocks))"
    and "path \<noteq> []" "hd path \<noteq> 64"
  shows "expand_invocations F exe [64 # path] = Inr (map ((#) exe) blocks)"
proof -
  have "is_response_path_arg (64 # path) = Some path"
    using assms(3,4) by (cases path) (simp_all add: is_response_path_arg_def starts_with_def)
  moreover have "read_response_text F path = Inr (response_text blocks)"
    using read_response_file [where form = form and F = F and path = path, OF wf_response_text [OF assms(1)] assms(2)] response_text_head [OF assms(1)]
    by (cases form) simp_all
  moreover have "parse_multi_command_blocks F (response_text blocks) = Inr blocks"
    using block_lines_text [of blocks "[]" 0 F] assms(1)
    by (simp add: parse_multi_command_blocks_def commands_ok_def)
  ultimately show ?thesis by (simp add: expand_invocations_def prepend_executable_def)
qed

text \<open>C12: a response file holds commands faithfully. Writing any command lines (one quoted argument
  per line, a blank line after each command, at most 4096 lines, in UTF-8 or in either UTF-16 with its
  mark) to a file and starting the program with that file alone yields exactly these command lines,
  each behind the program's own name; arguments may hold spaces, quotes and any character but a line
  feed, and only the ones that would be inclusions are excluded.\<close>

theorem response_file_round_trip:
  assumes "commands_ok blocks" "F path = Some (script_file form (response_text blocks))"
    and "path \<noteq> []" "hd path \<noteq> 64"
  shows "expand_invocations F exe [64 # path] = Inr (map ((#) exe) blocks)"
  using assms by (rule expand_response_file)

theorem response_file_round_trip_witness:
  "expand_invocations (\<lambda>p. if p = [97] then Some (script_file Utf16Be (response_text [[[118], [32, 34]], [[115]]])) else None)
     [112] [[64, 97]] = Inr [[[112], [118], [32, 34]], [[112], [115]]]"
  by (subst response_file_round_trip [of "[[[118], [32, 34]], [[115]]]" _ "[97]" Utf16Be])
    (simp_all add: commands_ok_def plain_token_def wf_str_def is_scalar_def)

section \<open>Splicing on the command line\<close>

definition escape_arg :: "str \<Rightarrow> str" where
  "escape_arg a = (if starts_with [64] a then 64 # a else a)"

lemma escape_no_include: "is_response_path_arg (escape_arg a) = None"
  by (cases a; cases "tl a") (auto simp: escape_arg_def is_response_path_arg_def starts_with_def)

lemma utf8_length_pos: "s \<noteq> [] \<Longrightarrow> 0 < length (utf8 s)"
  by (cases s) auto

lemma splice_escaped_step: "splice_args F (escape_arg a # args) out = splice_args F args (out @ [a])"
proof (cases "starts_with [64] a")
  case True
  then obtain t where t: "a = 64 # t" by (auto simp: starts_with_iff)
  have "length (utf8 (escape_arg a)) = 2 \<longleftrightarrow> t = []"
    using True t utf8_length_pos [of t] by (cases t) (auto simp: escape_arg_def utf8_char_def)
  then show ?thesis using True t by (auto simp: escape_arg_def starts_with_def)
next
  case False
  then have "\<not> starts_with [64, 64] a" by (auto simp: starts_with_iff)
  then show ?thesis using False escape_no_include [of a] by (simp add: escape_arg_def)
qed

lemma splice_escaped: "splice_args F (map escape_arg args) out = Inr (out @ args)"
  by (induction args arbitrary: out) (simp_all add: splice_escaped_step del: splice_args.simps(2))

lemma expand_escaped:
  "expand_invocations F exe (map escape_arg args) = Inr [exe # args]"
  unfolding expand_invocations_def Let_def splice_escaped
  by (cases args; cases "tl args") (simp_all add: escape_no_include)

text \<open>The escape of the command line is complete. Doubling the at sign in front of every argument
  that starts with one makes any argument list reach the program unchanged, as one invocation and
  without reading a file.\<close>

theorem argv_escape_round_trip:
  "expand_invocations F exe (map escape_arg args) = Inr [exe # args]"
  by (rule expand_escaped)

section \<open>Inclusions\<close>

text \<open>\<open>file_includes F p q\<close>: some line of the file at \<open>p\<close> asks for the file at \<open>q\<close>.\<close>

definition file_includes :: "file_store \<Rightarrow> str \<Rightarrow> str \<Rightarrow> bool" where
  "file_includes F p q \<longleftrightarrow> (\<exists>text line. read_response_text F p = Inr text \<and> line \<in> set (lines text) \<and>
     decode_response_arg_token (normalized_line line) = 64 # q \<and> q \<noteq> [])"

lemma decode_Nil: "decode_response_arg_token [] = []"
  by (simp add: decode_response_arg_token_def trim_id trimmed_def starts_with_def)

lemma append_include:
  assumes "append_response_line F out line depth = Inr out'"
    "decode_response_arg_token (normalized_line line) = 64 # q" "q \<noteq> []"
  shows "\<exists>args. read_flat_args_from_file F q (depth + 1) = Inr args \<and> out' = out @ args"
  using assms by (cases "normalized_line line = []")
    (auto simp: append_response_line.simps [of F out] Let_def res_simps decode_Nil)

lemma read_lines_each:
  "read_lines F ls depth n out = Inr out' \<Longrightarrow> line \<in> set ls \<Longrightarrow>
   \<exists>o1 o2. append_response_line F o1 line depth = Inr o2"
  by (induction ls arbitrary: n out) (auto simp: res_simps)

lemma block_lines_each:
  "block_lines F ls n blocks cur = Inr r \<Longrightarrow> line \<in> set ls \<Longrightarrow> normalized_line line \<noteq> [] \<Longrightarrow>
   \<exists>o1 o2. append_response_line F o1 line 0 = Inr o2"
  by (induction ls arbitrary: n blocks cur) (auto simp: res_simps split: if_splits)

lemma read_flat_Inr:
  "read_flat_args_from_file F p depth = Inr xs \<longleftrightarrow>
   depth \<le> 8 \<and> (\<exists>text. read_response_text F p = Inr text \<and> read_lines F (lines text) depth 0 [] = Inr xs)"
  by (auto simp: read_flat_args_from_file.simps [of F p depth] MAX_RESPONSE_DEPTH_def res_simps)

lemma endless_inclusion:
  assumes "\<And>q. q \<in> S \<Longrightarrow> \<exists>r\<in>S. file_includes F q r" "p \<in> S"
  shows "read_flat_args_from_file F p depth \<noteq> Inr xs"
  using assms(2)
proof (induction "9 - depth" arbitrary: p depth xs)
  case 0
  then show ?case by (simp add: read_flat_Inr)
next
  case (Suc k)
  obtain r where r: "r \<in> S" "file_includes F p r" using assms(1) Suc.prems by blast
  have "k = 9 - (depth + 1)" using Suc.hyps(2) by simp
  then have "read_flat_args_from_file F r (depth + 1) \<noteq> Inr ys" for ys using Suc.hyps(1) r(1) by blast
  then show ?case
    using r(2) append_include read_lines_each unfolding file_includes_def read_flat_Inr by (metis Inr_inject)
qed

lemma splice_each:
  "splice_args F args out = Inr r \<Longrightarrow> arg \<in> set args \<Longrightarrow> is_response_path_arg arg = Some path \<Longrightarrow>
   \<exists>flat. read_flat_args_from_file F path 0 = Inr flat"
proof (induction args arbitrary: out)
  case (Cons a args)
  have "\<not> starts_with [64, 64] arg" using Cons.prems(3) by (auto simp: is_response_path_arg_def split: option.splits if_splits)
  then show ?case using Cons by (auto simp: res_simps split: if_splits option.splits)
qed simp

text \<open>C13: inclusions end. If a response file file_includes itself, directly or through any chain of other
  files, a command line that mentions it is rejected with an error, whatever else the files and the
  command line hold; the expansion neither runs forever nor starts a command.\<close>

theorem include_cycle_rejected:
  assumes "(file_includes F)\<^sup>+\<^sup>+ p p" "64 # p \<in> set args" "p \<noteq> []" "hd p \<noteq> 64"
  shows "\<exists>e. expand_invocations F exe args = Inl e"
proof (rule ccontr)
  assume "\<not> (\<exists>e. expand_invocations F exe args = Inl e)"
  then obtain r where r: "expand_invocations F exe args = Inr r" by (cases "expand_invocations F exe args") auto
  define S where "S = {q. (file_includes F)\<^sup>+\<^sup>+ q p}"
  have step: "\<exists>r\<in>S. file_includes F q r" if "q \<in> S" for q
    using that tranclpD [of "file_includes F" q p] rtranclp_tranclp_tranclp [OF _ assms(1)]
    by (auto simp: S_def)
  then have no: "read_flat_args_from_file F q d \<noteq> Inr xs" if "q \<in> S" for q d xs
    using endless_inclusion step that by metis
  have "p \<in> S" using assms(1) by (simp add: S_def)
  have path: "is_response_path_arg (64 # p) = Some p"
    using assms(3,4) by (cases p) (simp_all add: is_response_path_arg_def starts_with_def)
  show False
  proof (cases "args = [64 # p]")
    case True
    then obtain body where t: "read_response_text F p = Inr body" "\<exists>b. block_lines F (lines body) 0 [] [] = Inr b"
      using r path by (auto simp: expand_invocations_def res_simps parse_multi_command_blocks_def)
    obtain q where q: "q \<in> S" "file_includes F p q" using \<open>p \<in> S\<close> step by blast
    then obtain line where l: "line \<in> set (lines body)"
      "decode_response_arg_token (normalized_line line) = 64 # q" "q \<noteq> []"
      using t(1) by (auto simp: file_includes_def)
    moreover have "normalized_line line \<noteq> []" using l(2) by (auto simp: decode_Nil)
    ultimately show False using t(2) block_lines_each append_include no [OF q(1)] by metis
  next
    case False
    then have "\<exists>x. splice_args F args [exe] = Inr x"
      using r assms(2)
      by (auto simp: expand_invocations_def Let_def res_simps simp del: splice_args.simps split: list.splits)
    then show False using splice_each [OF _ assms(2) path] no [OF \<open>p \<in> S\<close>] by blast
  qed
qed

theorem include_cycle_rejected_witness:
  "\<exists>e. expand_invocations (\<lambda>p. Some [64, 97]) [112] [[118], [64, 97]] = Inl e"
proof (rule include_cycle_rejected)
  have "lines [64, 97] = [[64, 97]]" by (simp add: lines_single)
  moreover have "from_utf8 [64, 97] = Some [64, 97]" by code_simp
  ultimately have "file_includes (\<lambda>p. Some [64, 97]) [97] [97]"
    by (simp add: file_includes_def read_response_text_def normalized_line_eq_trim trim_id trimmed_def is_whitespace_def
      decode_response_arg_token_def starts_with_def)
  then show "(file_includes (\<lambda>p. Some [64, 97]))\<^sup>+\<^sup>+ [97] [97]" by blast
qed simp_all

text \<open>In a file a doubled at sign is no escape: the line asks for a file whose name begins with one.\<close>

lemma doubled_at_includes:
  assumes "trimmed (64 # 64 # s)"
  shows "append_response_line F out (64 # 64 # s) depth
       = rbind (read_flat_args_from_file F (64 # s) (depth + 1)) (\<lambda>args. Inr (out @ args))"
  using assms
  by (simp add: append_response_line.simps [of F out] normalized_line_eq_trim trim_id Let_def
    decode_response_arg_token_def starts_with_def)

end
