(* ===== verification/Native_Argv.thy ===== *)
theory Native_Argv
  imports Text
begin

text \<open>
  Model of \<^verbatim>\<open>src/native_argv.rs\<close>: rewriting a \<^verbatim>\<open>signtool.exe\<close> command line with slash switches
  into the long options the argument parser knows. Arguments are strings (an \<^verbatim>\<open>OsString\<close> that is
  Unicode, on which \<^verbatim>\<open>lossy\<close> is the identity). The match over the switch names of a verb is an
  association list from the name to the shape of its arm, looked up in order.
\<close>

datatype Verb = CertStore | Verify | Sign | Timestamp | Catdb | Remove | RdpVerb | Unknown

definition is_verb :: "str \<Rightarrow> Verb option" where
  "is_verb s =
     map_of [(lit ''verify'', Verify), (lit ''cert-store'', CertStore), (lit ''certstore'', CertStore),
       (lit ''sign'', Sign), (lit ''timestamp'', Timestamp), (lit ''catdb'', Catdb),
       (lit ''remove'', Remove), (lit ''rdp'', RdpVerb)] (to_ascii_lowercase s)"

definition is_windows_slash_switch :: "str \<Rightarrow> bool" where
  "is_windows_slash_switch s \<longleftrightarrow> 2 \<le> length s \<and> starts_with (lit ''/'') s \<and> \<not> starts_with (lit ''//'') s"

definition strip_leading_slash :: "str \<Rightarrow> str" where
  "strip_leading_slash s = to_ascii_lowercase (dropWhile (\<lambda>c. c = 47) s)"

section \<open>The switches of each verb\<close>

text \<open>
  An arm writes fixed pieces; \<open>Takes\<close> consumes one further token, which is trimmed, with a default
  where the line ends (\<open>Takes_lower\<close> writes it in lower case); \<open>Sign_auth\<close> consumes two, and is no
  arm at all when one of them is missing or blank.
\<close>

datatype arm = Flag "string list" | Takes "string list" string | Takes_lower "string list" string | Sign_auth

fun arm_pieces :: "arm \<Rightarrow> str option \<Rightarrow> str option \<Rightarrow> str list \<times> nat" where
  "arm_pieces (Flag ps) n n2 = (map lit ps, 0)"
| "arm_pieces (Takes ps d) n n2 = (map lit ps @ [case n of None \<Rightarrow> lit d | Some v \<Rightarrow> v], 1)"
| "arm_pieces (Takes_lower ps d) n n2 =
     (map lit ps @ [to_ascii_lowercase (case n of None \<Rightarrow> lit d | Some v \<Rightarrow> v)], 1)"
| "arm_pieces Sign_auth n n2 =
     (let oid = (case n of None \<Rightarrow> [] | Some v \<Rightarrow> v); val = (case n2 of None \<Rightarrow> [] | Some v \<Rightarrow> v) in
      if oid = [] \<or> val = [] then ([], 0) else ([lit ''--sign-auth'', oid, val], 2))"

definition verify_switches :: "(string \<times> arm) list" where
  "verify_switches =
    [(''pa'', Flag [''--policy'', ''pa'']),
     (''kp'', Flag [''--kp'']),
     (''all'', Flag [''--all'']),
     (''tw'', Flag [''--tw'']),
     (''ms'', Flag [''--ms'']),
     (''p7'', Flag [''--p7'']),
     (''d'', Flag [''--d'']),
     (''ph'', Flag [''--ph'']),
     (''vr'', Flag [''--vr'']),
     (''testroot'', Flag [''--testroot'']),
     (''w2010pca'', Flag [''--w2010pca'']),
     (''now2010pca'', Flag [''--now2010pca'']),
     (''sl'', Flag [''--sl'']),
     (''bp'', Flag [''--bp'']),
     (''enclave'', Flag [''--enclave'']),
     (''a'', Flag [''--catalog-search'', ''all'']),
     (''ad'', Flag [''--catalog-search'', ''default-db'']),
     (''as'', Flag [''--catalog-search'', ''system'']),
     (''pg'', Takes [''--policy'', ''pg'', ''--policy-guid''] ''''),
     (''ag'', Takes [''--ag''] ''''),
     (''c'', Takes [''--c''] ''''),
     (''hash'', Takes_lower [''--hash''] ''sha256''),
     (''o'', Takes [''--os-version-check''] ''''),
     (''r'', Takes [''--r''] ''''),
     (''sha1'', Takes [''--sha1''] ''''),
     (''ca'', Takes [''--ca''] ''''),
     (''u'', Takes [''--u''] ''''),
     (''ds'', Takes [''--ds''] ''0''),
     (''p7content'', Takes [''--p7content''] ''''),
     (''p7s'', Takes [''--p7s''] ''''),
     (''rust-sip-pe-digest-check'', Flag [''--rust-sip-pe-digest-check'']),
     (''rust-sip-script-digest-check'', Flag [''--rust-sip-script-digest-check'']),
     (''rust-sip-msi-digest-check'', Flag [''--rust-sip-msi-digest-check'']),
     (''rust-sip-esd-digest-check'', Flag [''--rust-sip-esd-digest-check'']),
     (''rust-sip-msix-digest-check'', Flag [''--rust-sip-msix-digest-check'']),
     (''rust-sip-cab-digest-check'', Flag [''--rust-sip-cab-digest-check'']),
     (''rust-sip-catalog-digest-check'', Flag [''--rust-sip-catalog-digest-check'']),
     (''rust-sip-all-digest-checks'', Flag [''--rust-sip-all-digest-checks''])]"

definition certstore_switches :: "(string \<times> arm) list" where
  "certstore_switches =
    [(''sm'', Flag [''--sm'']),
     (''p'', Takes [''--p''] ''''),
     (''s'', Takes [''--s''] ''MY''),
     (''sha1'', Takes [''--sha1''] '''')]"

definition sign_switches :: "(string \<times> arm) list" where
  "sign_switches =
    [(''a'', Flag [''--a'']),
     (''sm'', Flag [''--sm'']),
     (''as'', Flag [''--as'']),
     (''ph'', Flag [''--ph'']),
     (''nph'', Flag [''--nph'']),
     (''uw'', Flag [''--uw'']),
     (''dxml'', Flag [''--dxml'']),
     (''ds'', Flag [''--ds'']),
     (''f'', Takes [''--f''] ''''),
     (''p'', Takes [''--p''] ''''),
     (''n'', Takes [''--n''] ''''),
     (''i'', Takes [''--i''] ''''),
     (''sha1'', Takes [''--sha1''] ''''),
     (''csp'', Takes [''--csp''] ''''),
     (''kc'', Takes [''--kc''] ''''),
     (''s'', Takes [''--s''] ''MY''),
     (''fd'', Takes_lower [''--fd''] ''sha256''),
     (''tr'', Takes [''--tr''] ''''),
     (''tseal'', Takes [''--tseal''] ''''),
     (''t'', Takes [''--t''] ''''),
     (''td'', Takes_lower [''--td''] ''sha256''),
     (''d'', Takes [''--d''] ''''),
     (''du'', Takes [''--du''] ''''),
     (''ac'', Takes [''--ac''] ''''),
     (''r'', Takes [''--r''] ''''),
     (''u'', Takes [''--u''] ''''),
     (''dlib'', Takes [''--dlib''] ''''),
     (''dmdf'', Takes [''--dmdf''] ''''),
     (''dg'', Takes [''--dg''] ''''),
     (''di'', Takes [''--di''] ''''),
     (''p7'', Takes [''--p7''] ''''),
     (''p7co'', Takes [''--p7co''] ''''),
     (''p7ce'', Takes [''--p7ce''] ''''),
     (''c'', Takes [''--certificate-template''] ''''),
     (''sa'', Sign_auth),
     (''fdchw'', Flag [''--fdchw'']),
     (''tdchw'', Flag [''--tdchw'']),
     (''rmc'', Flag [''--rmc'']),
     (''seal'', Flag [''--seal'']),
     (''itos'', Flag [''--itos'']),
     (''force'', Flag [''--force'']),
     (''nosealwarn'', Flag [''--nosealwarn'']),
     (''noenclavewarn'', Flag [''--noenclavewarn'']),
     (''rust-sip'', Takes_lower [''--rust-sip''] ''pe'')]"

definition timestamp_switches :: "(string \<times> arm) list" where
  "timestamp_switches =
    [(''tr'', Takes [''--tr''] ''''),
     (''tseal'', Takes [''--tseal''] ''''),
     (''t'', Takes [''--t''] ''''),
     (''td'', Takes_lower [''--td''] ''sha256''),
     (''tp'', Takes [''--tp''] ''0''),
     (''p7'', Flag [''--p7'']),
     (''force'', Flag [''--force'']),
     (''nosealwarn'', Flag [''--nosealwarn''])]"

definition catdb_switches :: "(string \<times> arm) list" where
  "catdb_switches =
    [(''d'', Flag [''--d'']),
     (''g'', Takes [''--g''] ''''),
     (''r'', Flag [''--r'']),
     (''u'', Flag [''--u''])]"

definition remove_switches :: "(string \<times> arm) list" where
  "remove_switches =
    [(''s'', Flag [''--s'']),
     (''c'', Flag [''--c'']),
     (''u'', Flag [''--u''])]"

definition rdp_switches :: "(string \<times> arm) list" where
  "rdp_switches =
    [(''sha1'', Takes [''--sha1''] ''''),
     (''sha256'', Takes [''--sha256''] ''''),
     (''l'', Flag [''--dry-run''])]"

fun verb_switches :: "Verb \<Rightarrow> (string \<times> arm) list" where
  "verb_switches Verify = verify_switches"
| "verb_switches CertStore = certstore_switches"
| "verb_switches Sign = sign_switches"
| "verb_switches Timestamp = timestamp_switches"
| "verb_switches Catdb = catdb_switches"
| "verb_switches Remove = remove_switches"
| "verb_switches RdpVerb = rdp_switches"
| "verb_switches Unknown = []"

definition translate_slash_switch ::
  "Verb \<Rightarrow> str \<Rightarrow> str option \<Rightarrow> str option \<Rightarrow> str list \<times> nat" where
  "translate_slash_switch verb key next_arg next_arg2 =
     (let n = map_option trim next_arg; n2 = map_option trim next_arg2 in
      case map_of (map (\<lambda>(k, a). (lit k, a)) (verb_switches verb)) key of
        None \<Rightarrow> ([], 0)
      | Some a \<Rightarrow> arm_pieces a n n2)"

section \<open>Normalisation\<close>

definition try_global_slash :: "str \<Rightarrow> str list option" where
  "try_global_slash arg =
     (if \<not> is_windows_slash_switch arg then None
      else map_of [(lit ''q'', [lit ''-q'']), (lit ''v'', [lit ''-v'']), (lit ''debug'', [lit ''--debug''])]
             (strip_leading_slash arg))"

text \<open>\<open>args.get(i)\<close> seen from the rest of the line.\<close>

definition get_arg :: "'a list \<Rightarrow> nat \<Rightarrow> 'a option" where
  "get_arg xs i = (if i < length xs then Some (xs ! i) else None)"

function rewrite_switches :: "Verb \<Rightarrow> str list \<Rightarrow> str list" where
  "rewrite_switches verb [] = []"
| "rewrite_switches verb (arg # rest) =
     (case try_global_slash arg of
        Some g \<Rightarrow> g @ rewrite_switches verb rest
      | None \<Rightarrow>
          if \<not> is_windows_slash_switch arg then arg # rewrite_switches verb rest
          else case translate_slash_switch verb (strip_leading_slash arg) (get_arg rest 0) (get_arg rest 1) of
            (pieces, eat) \<Rightarrow>
              if pieces = [] then arg # rewrite_switches verb rest
              else pieces @ rewrite_switches verb (drop eat rest))"
  by pat_completeness auto
termination by (relation "measure (\<lambda>(verb, args). length args)") auto

declare rewrite_switches.simps(2) [simp del]

text \<open>The first verb behind the program name, with its index.\<close>

fun find_verb :: "nat \<Rightarrow> str list \<Rightarrow> (nat \<times> Verb) option" where
  "find_verb i [] = None"
| "find_verb i (arg # args) =
     (case is_verb (trim arg) of Some v \<Rightarrow> Some (i, v) | None \<Rightarrow> find_verb (i + 1) args)"

definition rewrite_global :: "str \<Rightarrow> str list" where
  "rewrite_global arg = (case try_global_slash arg of Some g \<Rightarrow> g | None \<Rightarrow> [arg])"

definition normalize_native_signtool_argv :: "str list \<Rightarrow> str list" where
  "normalize_native_signtool_argv args =
     (if length args < 2 then args
      else case find_verb 1 (drop 1 args) of
          None \<Rightarrow> args
        | Some (vi, verb) \<Rightarrow>
            [args ! 0] @ concat (map rewrite_global (take (vi - 1) (drop 1 args))) @
            [to_ascii_lowercase (args ! vi)] @ rewrite_switches verb (drop (vi + 1) args))"

section \<open>Command lines as items\<close>

text \<open>
  The reference: behind its verb a command line is a list of items, each a token that stands for
  itself, a global switch, or a switch of the verb with the values it takes. \<open>native\<close> is how
  \<^verbatim>\<open>signtool\<close> spells an item, \<open>gnu\<close> how the argument parser does.
\<close>

datatype item = Plain str | Global str | Switch str "str list"

definition switch_arm :: "Verb \<Rightarrow> str \<Rightarrow> arm option" where
  "switch_arm verb tok = map_of (map (\<lambda>(k, a). (lit k, a)) (verb_switches verb)) (strip_leading_slash tok)"

fun values_ok :: "arm \<Rightarrow> str list \<Rightarrow> bool" where
  "values_ok (Flag ps) vs \<longleftrightarrow> vs = []"
| "values_ok (Takes ps d) vs \<longleftrightarrow> length vs = 1"
| "values_ok (Takes_lower ps d) vs \<longleftrightarrow> length vs = 1"
| "values_ok Sign_auth vs \<longleftrightarrow> length vs = 2 \<and> (\<forall>v\<in>set vs. trim v \<noteq> [])"

fun item_ok :: "Verb \<Rightarrow> item \<Rightarrow> bool" where
  "item_ok verb (Plain a) \<longleftrightarrow>
     try_global_slash a = None \<and> (is_windows_slash_switch a \<longrightarrow> switch_arm verb a = None)"
| "item_ok verb (Global a) \<longleftrightarrow> try_global_slash a \<noteq> None"
| "item_ok verb (Switch a vs) \<longleftrightarrow> is_windows_slash_switch a \<and> try_global_slash a = None \<and>
     (case switch_arm verb a of None \<Rightarrow> False | Some arm \<Rightarrow> values_ok arm vs)"

fun native :: "item \<Rightarrow> str list" where
  "native (Plain a) = [a]"
| "native (Global a) = [a]"
| "native (Switch a vs) = a # vs"

fun arm_gnu :: "arm \<Rightarrow> str list \<Rightarrow> str list" where
  "arm_gnu (Flag ps) vs = map lit ps"
| "arm_gnu (Takes ps d) vs = map lit ps @ map trim vs"
| "arm_gnu (Takes_lower ps d) vs = map lit ps @ map (\<lambda>v. to_ascii_lowercase (trim v)) vs"
| "arm_gnu Sign_auth vs = lit ''--sign-auth'' # map trim vs"

fun gnu :: "Verb \<Rightarrow> item \<Rightarrow> str list" where
  "gnu verb (Plain a) = [a]"
| "gnu verb (Global a) = rewrite_global a"
| "gnu verb (Switch a vs) = (case switch_arm verb a of None \<Rightarrow> [a] | Some arm \<Rightarrow> arm_gnu arm vs)"

text \<open>No arm writes nothing: only a switch that is not known has no pieces.\<close>

fun arm_writes :: "arm \<Rightarrow> bool" where
  "arm_writes (Flag ps) \<longleftrightarrow> ps \<noteq> []"
| "arm_writes _ \<longleftrightarrow> True"

lemma switches_write: "switch_arm verb tok = Some a \<Longrightarrow> arm_writes a"
proof -
  assume "switch_arm verb tok = Some a"
  then have "a \<in> snd ` set (verb_switches verb)"
    unfolding switch_arm_def by (auto dest!: map_of_SomeD simp: image_iff split: prod.splits) force
  moreover have "\<forall>x\<in>set (verb_switches verb). arm_writes (snd x)"
    by (cases verb) (simp_all add: verify_switches_def certstore_switches_def sign_switches_def
      timestamp_switches_def catdb_switches_def remove_switches_def rdp_switches_def)
  ultimately show ?thesis by auto
qed

lemma translate_eq:
  "translate_slash_switch verb (strip_leading_slash tok) n n2 =
   (case switch_arm verb tok of None \<Rightarrow> ([], 0) | Some a \<Rightarrow> arm_pieces a (map_option trim n) (map_option trim n2))"
  by (simp add: translate_slash_switch_def switch_arm_def Let_def)

lemma get_arg_simps [simp]: "get_arg [] i = None" "get_arg (x # xs) 0 = Some x"
  "get_arg (x # xs) (Suc i) = get_arg xs i" "get_arg (x # y # xs) 1 = Some y"
  by (simp_all add: get_arg_def)

lemma rewrite_item:
  assumes "item_ok verb it"
  shows "rewrite_switches verb (native it @ rest) = gnu verb it @ rewrite_switches verb rest"
proof (cases it)
  case (Plain a)
  then show ?thesis using assms by (auto simp: rewrite_switches.simps(2) translate_eq)
next
  case (Global a)
  then show ?thesis using assms by (auto simp: rewrite_switches.simps(2) rewrite_global_def)
next
  case (Switch a vs)
  then obtain arm where arm: "switch_arm verb a = Some arm" "values_ok arm vs"
    using assms by (auto split: option.splits)
  have "translate_slash_switch verb (strip_leading_slash a) (get_arg (vs @ rest) 0) (get_arg (vs @ rest) 1)
      = (arm_gnu arm vs, length vs)"
    using arm(2) by (cases arm; cases vs; cases "tl vs") (auto simp: translate_eq arm(1) Let_def)
  moreover have "arm_gnu arm vs \<noteq> []" using switches_write [OF arm(1)] arm(2) by (cases arm; cases vs) auto
  ultimately show ?thesis using Switch assms arm(1) by (simp add: rewrite_switches.simps(2))
qed

lemma rewrite_items:
  "\<forall>it\<in>set items. item_ok verb it \<Longrightarrow>
   rewrite_switches verb (concat (map native items)) = concat (map (gnu verb) items)"
  by (induction items) (simp_all add: rewrite_item)

lemma find_verb_at:
  "\<forall>p\<in>set pre. is_verb (trim p) = None \<Longrightarrow> is_verb (trim v) = Some verb \<Longrightarrow>
   find_verb i (pre @ v # rest) = Some (i + length pre, verb)"
  by (induction pre arbitrary: i) auto

lemma normalize_at_verb:
  assumes "\<forall>p\<in>set pre. is_verb (trim p) = None" "is_verb (trim v) = Some verb"
  shows "normalize_native_signtool_argv (exe # pre @ v # rest)
       = exe # concat (map rewrite_global pre) @ to_ascii_lowercase v # rewrite_switches verb rest"
  using find_verb_at [OF assms, of 1 rest]
  by (simp add: normalize_native_signtool_argv_def nth_append)

text \<open>C14: the rewriting refines the item grammar. For a command line made of a program name, tokens
  without a verb, a verb in any case, and items of this verb (plain tokens, global switches, switches
  with all the values they take), the result is the program name, the global tokens rewritten, the
  verb in lower case, and item by item the long options of the argument parser.\<close>

theorem normalize_refines_items:
  assumes "\<forall>p\<in>set pre. is_verb (trim p) = None" "is_verb (trim v) = Some verb"
    and "\<forall>it\<in>set items. item_ok verb it"
  shows "normalize_native_signtool_argv (exe # pre @ v # concat (map native items))
       = exe # concat (map rewrite_global pre) @ to_ascii_lowercase v # concat (map (gnu verb) items)"
  using normalize_at_verb [OF assms(1,2)] rewrite_items [OF assms(3)] by simp

theorem normalize_refines_items_witness:
  "normalize_native_signtool_argv (map lit [''signtool'', ''/v'', ''SIGN'', ''/fd'', ''SHA256'', ''a.exe''])
   = map lit [''signtool'', ''-v'', ''sign'', ''--fd'', ''sha256'', ''a.exe'']"
proof -
  let ?items = "[Switch (lit ''/fd'') [lit ''SHA256''], Plain (lit ''a.exe'')]"
  have "is_verb (trim (lit ''/v'')) = None" "is_verb (trim (lit ''SIGN'')) = Some Sign"
    "item_ok Sign (hd ?items)" "item_ok Sign (hd (tl ?items))"
    "concat (map (gnu Sign) ?items) = map lit [''--fd'', ''sha256'', ''a.exe'']"
    "rewrite_global (lit ''/v'') = [lit ''-v'']" "to_ascii_lowercase (lit ''SIGN'') = lit ''sign''"
    by code_simp+
  then show ?thesis
    using normalize_refines_items [of "[lit ''/v'']" "lit ''SIGN''" Sign ?items "lit ''signtool''"]
    by (simp del: lit_simps item_ok.simps gnu.simps)
qed

text \<open>Command lines in the parser's own style pass unchanged. Without a verb nothing changes,
  whatever the tokens are; with one, and no token that is a slash switch (a single slash and at least
  one more character), nothing but the case of the verb changes.\<close>

theorem gnu_argv_unchanged:
  assumes "\<forall>p\<in>set pre. is_verb (trim p) = None" "is_verb (trim v) \<noteq> None"
    and "\<forall>a\<in>set free \<union> set rest. \<not> is_windows_slash_switch a" "\<forall>p\<in>set free. is_verb (trim p) = None"
  shows "normalize_native_signtool_argv (exe # pre) = exe # pre \<and>
    normalize_native_signtool_argv (exe # free @ v # rest) = exe # free @ to_ascii_lowercase v # rest"
proof
  have "find_verb i pre = None" for i using assms(1) by (induction pre arbitrary: i) auto
  then show "normalize_native_signtool_argv (exe # pre) = exe # pre"
    by (simp add: normalize_native_signtool_argv_def)
  obtain verb where v: "is_verb (trim v) = Some verb" using assms(2) by blast
  have "concat (map rewrite_global xs) = xs" if "\<forall>a\<in>set xs. \<not> is_windows_slash_switch a" for xs
    using that by (induction xs) (simp_all add: rewrite_global_def try_global_slash_def)
  moreover have "rewrite_switches verb xs = xs" if "\<forall>a\<in>set xs. \<not> is_windows_slash_switch a" for xs
    using that by (induction xs) (simp_all add: rewrite_switches.simps(2) try_global_slash_def)
  ultimately show "normalize_native_signtool_argv (exe # free @ v # rest) = exe # free @ to_ascii_lowercase v # rest"
    using normalize_at_verb [OF assms(4) v, of exe rest] assms(3) by simp
qed

theorem gnu_argv_unchanged_witness:
  "normalize_native_signtool_argv (map lit [''psign-tool'', ''/v'']) = map lit [''psign-tool'', ''/v''] \<and>
   normalize_native_signtool_argv (map lit [''psign-tool'', ''-v'', ''verify'', ''--all'', ''a.exe''])
   = map lit [''psign-tool'', ''-v'', ''verify'', ''--all'', ''a.exe'']"
proof -
  have "is_verb (trim (lit ''/v'')) = None" "is_verb (trim (lit ''-v'')) = None"
    "is_verb (trim (lit ''verify'')) \<noteq> None" "to_ascii_lowercase (lit ''verify'') = lit ''verify''"
    "\<not> is_windows_slash_switch (lit ''-v'')" "\<not> is_windows_slash_switch (lit ''--all'')"
    "\<not> is_windows_slash_switch (lit ''a.exe'')"
    by code_simp+
  then show ?thesis
    using gnu_argv_unchanged [of "[lit ''/v'']" "lit ''verify''" "[lit ''-v'']" "[lit ''--all'', lit ''a.exe'']"
      "lit ''psign-tool''"]
    by (simp del: lit_simps)
qed

text \<open>The value of a switch loses its outer blanks, also where they belong to it: a password.\<close>

lemma password_is_trimmed:
  "normalize_native_signtool_argv (map lit [''signtool'', ''sign'', ''/p'', '' secret ''])
   = map lit [''signtool'', ''sign'', ''--p'', ''secret'']"
  by code_simp

end
