(* ===== verification/Effects.thy ===== *)
theory Effects
  imports Prelude
begin

text \<open>
  Commands with effects: a state is threaded, and a command ends with a value or an error. \<open>ran\<close>
  relates the states before and after a list of commands all of which succeeded; it is what
  an invocation that reports success is measured against.
\<close>

type_synonym ('s, 'a) eff = "'s \<Rightarrow> 's \<times> 'a res"

definition ret :: "'a \<Rightarrow> ('s, 'a) eff" where "ret x s = (s, Inr x)"
definition throw :: "string \<Rightarrow> ('s, 'a) eff" where "throw m s = (s, bail m)"
definition pure :: "'a res \<Rightarrow> ('s, 'a) eff" where "pure r s = (s, r)"

definition andthen :: "('s, 'a) eff \<Rightarrow> ('a \<Rightarrow> ('s, 'b) eff) \<Rightarrow> ('s, 'b) eff" where
  "andthen m f s = (case m s of (s', Inl e) \<Rightarrow> (s', Inl e) | (s', Inr x) \<Rightarrow> f x s')"

named_theorems eff_simps \<open>successful runs of commands\<close>

lemma ret_Inr [eff_simps]: "ret x s = (s', Inr y) \<longleftrightarrow> s' = s \<and> y = x"
  by (auto simp: ret_def)

lemma throw_Inr [eff_simps]: "throw m s \<noteq> (s', Inr y)"
  by (simp add: throw_def)

lemma pure_Inr [eff_simps]: "pure r s = (s', Inr y) \<longleftrightarrow> s' = s \<and> r = Inr y"
  by (auto simp: pure_def)

lemma andthen_Inr [eff_simps]:
  "andthen m f s = (s', Inr y) \<longleftrightarrow> (\<exists>s1 x. m s = (s1, Inr x) \<and> f x s1 = (s', Inr y))"
  by (auto simp: andthen_def split: prod.splits sum.splits)

lemma if_eff [eff_simps]:
  "(if c then m else n) s = (s', Inr y) \<longleftrightarrow> (if c then m s = (s', Inr y) else n s = (s', Inr y))"
  by auto

fun run_each :: "('c \<Rightarrow> ('s, unit) eff) \<Rightarrow> 'c list \<Rightarrow> ('s, unit) eff" where
  "run_each run [] = ret ()"
| "run_each run (c # cs) = andthen (run c) (\<lambda>_. run_each run cs)"

inductive ran :: "('c \<Rightarrow> ('s, unit) eff) \<Rightarrow> 'c list \<Rightarrow> 's \<Rightarrow> 's \<Rightarrow> bool" for run where
  ran_none: "ran run [] s s"
| ran_step: "run c s = (s1, Inr ()) \<Longrightarrow> ran run cs s1 s2 \<Longrightarrow> ran run (c # cs) s s2"

inductive_simps ran_Nil_iff [simp]: "ran run [] s s'"
inductive_simps ran_Cons_iff: "ran run (c # cs) s s'"

lemma run_each_ran: "run_each run cs s = (s', Inr ()) \<longleftrightarrow> ran run cs s s'"
  by (induction cs arbitrary: s) (auto simp: eff_simps ran_Cons_iff)

lemma ran_append: "ran run (cs @ ds) s s' \<longleftrightarrow> (\<exists>t. ran run cs s t \<and> ran run ds t s')"
  by (induction cs arbitrary: s) (auto simp: ran_Cons_iff)

lemma ran_deterministic: "ran run cs s t \<Longrightarrow> ran run cs s u \<Longrightarrow> t = u"
  by (induction arbitrary: u rule: ran.induct) (auto simp: ran_Cons_iff)

section \<open>Commands that may not return\<close>

text \<open>\<open>None\<close> is a command that never returns; an error keeps the state it was met in.\<close>

type_synonym ('s, 'a) run = "'s \<Rightarrow> ('s \<times> 'a res) option"

definition run_res :: "'a res \<Rightarrow> ('s, 'a) run" where "run_res r s = Some (s, r)"

definition run_then :: "('s, 'a) run \<Rightarrow> ('a \<Rightarrow> ('s, 'b) run) \<Rightarrow> ('s, 'b) run" where
  "run_then m f s = obind (m s) (\<lambda>(s1, r). case r of Inl e \<Rightarrow> Some (s1, Inl e) | Inr x \<Rightarrow> f x s1)"

named_theorems run_simps \<open>successful runs\<close>

lemma run_res_Some [run_simps]: "run_res r s = Some (s', Inr y) \<longleftrightarrow> s' = s \<and> r = Inr y"
  by (auto simp: run_res_def)

lemma run_then_Some [run_simps]:
  "run_then m f s = Some (s', Inr y) \<longleftrightarrow> (\<exists>s1 x. m s = Some (s1, Inr x) \<and> f x s1 = Some (s', Inr y))"
proof (cases "m s")
  case (Some p)
  obtain s1 r where "p = (s1, r)" by (cases p)
  with Some show ?thesis by (cases r) (auto simp: run_then_def)
qed (simp add: run_then_def)

lemma run_then_cong [fundef_cong]:
  "m = m' \<Longrightarrow> s = t \<Longrightarrow> (\<And>s1 x. m' t = Some (s1, Inr x) \<Longrightarrow> f x s1 = f' x s1) \<Longrightarrow> run_then m f s = run_then m' f' t"
  by (cases "m' t") (auto simp: run_then_def split: sum.splits)

lemma if_run [run_simps]: "(if c then m else n) s = (if c then m s else n s)" by simp

end
