(* ===== verification/Trust_Options.thy ===== *)
theory Trust_Options
  imports Text
begin

text \<open>
  Model of \<^verbatim>\<open>policy.rs\<close> of the trust crate and of the options of \<^verbatim>\<open>trust_verify_pe.rs\<close>: the knobs of a
  trust verification, with their defaults.
  A duration is its whole seconds.
\<close>

datatype RevocationMode = Rev_Off | Rev_BestEffort | Rev_Require

record AuthenticodeTrustPolicy =
  strict_code_signing_eku :: bool
  policy_prefer_timestamp :: bool
  policy_require_timestamp :: bool

definition default_trust_policy :: AuthenticodeTrustPolicy where
  "default_trust_policy =
     \<lparr>strict_code_signing_eku = True, policy_prefer_timestamp = False, policy_require_timestamp = False\<rparr>"

record OnlineTrustOptions =
  enable_aia :: bool
  opt_aia_url_override :: "str option"
  enable_ocsp :: bool
  opt_ocsp_url_override :: "str option"
  opt_revocation_mode :: RevocationMode
  opt_crl_url_override :: "str option"
  timeout_secs :: nat
  max_download_bytes :: nat

definition default_online_options :: OnlineTrustOptions where
  "default_online_options =
     \<lparr>enable_aia = False, opt_aia_url_override = None, enable_ocsp = False, opt_ocsp_url_override = None,
      opt_revocation_mode = Rev_Off, opt_crl_url_override = None, timeout_secs = 5,
      max_download_bytes = 1024 * 1024\<rparr>"

text \<open>The Artifact Signing policy, and everything a trust verification is given.\<close>

record ArtifactSigningPolicy =
  expected_publisher_ids :: "str list"
  private_trust_root_files :: "str list"
  require_timestamp :: bool

record 'i TrustVerifyPeOptions =
  opt_anchor_dir :: "str option"
  trusted_ca_files :: "str list"
  opt_authroot_cab :: "str option"
  opt_expect_authroot_cab_sha256 :: "8 word list option"
  verification_instant_override :: "'i option"
  opt_verbose_chain :: bool
  opt_online :: OnlineTrustOptions
  opt_policy :: AuthenticodeTrustPolicy
  artifact_signing_policy :: "ArtifactSigningPolicy option"

definition default_trust_verify_options :: "'i TrustVerifyPeOptions" where
  "default_trust_verify_options =
     \<lparr>opt_anchor_dir = None, trusted_ca_files = [], opt_authroot_cab = None, opt_expect_authroot_cab_sha256 = None,
      verification_instant_override = None, opt_verbose_chain = False, opt_online = default_online_options,
      opt_policy = default_trust_policy, artifact_signing_policy = None\<rparr>"

end
