(* ===== verification/Verify_Dispatch.thy ===== *)
theory Verify_Dispatch
  imports Utf Effects Trust_Options
begin

text \<open>
  Model of the verify command: its options (\<^verbatim>\<open>VerifyArgs\<close> of \<^verbatim>\<open>src/cli.rs\<close>), the choice and the arguments
  of the portable checks (\<^verbatim>\<open>src/lib.rs\<close>) and the Artifact Signing policy
  (\<^verbatim>\<open>src/artifact_signing_verify.rs\<close>). Paths are strings. The portable command line program that is
  run for each check, the reading of files and the trust evaluation are parameters.
\<close>

section \<open>Options\<close>

datatype VerifyPolicy = Default | Pa | Pg
datatype CatalogSearchMode = All_catalogs | DefaultDb | System
datatype CatalogHashAlgorithm = Cat_Sha1 | Cat_Sha256
datatype PortableRevocationMode = Off | BestEffort | Require

fun as_arg :: "PortableRevocationMode \<Rightarrow> str" where
  "as_arg Off = lit ''off''"
| "as_arg BestEffort = lit ''best-effort''"
| "as_arg Require = lit ''require''"

record VerifyArgs =
  policy :: VerifyPolicy
  policy_guid :: "str option"
  revocation_check :: bool
  detached_pkcs7 :: "str option"
  catalog :: "str option"
  catalog_search :: "CatalogSearchMode option"
  catalog_database_guid :: "str option"
  catalog_hash_algorithm :: CatalogHashAlgorithm
  os_version_check :: "str option"
  kernel_policy :: bool
  all_signatures :: bool
  allow_test_root :: bool
  warn_if_not_timestamped :: bool
  signature_index :: "u32 option"
  multiple_semantics :: bool
  verify_pkcs7_file :: bool
  print_description :: bool
  verify_page_hashes :: bool
  chain_root_subject :: "str option"
  signer_thumbprint_sha1 :: "str list"
  intermediate_ca_sha1 :: "str list"
  warn_if_missing_eku :: "str list"
  detached_pkcs7_content :: "str option"
  warn_pca_2010 :: bool
  no_warn_pca_2010 :: bool
  verify_sealing_signatures :: bool
  rust_sip_pe_digest_check :: bool
  rust_sip_script_digest_check :: bool
  rust_sip_msi_digest_check :: bool
  rust_sip_esd_digest_check :: bool
  rust_sip_msix_digest_check :: bool
  rust_sip_cab_digest_check :: bool
  rust_sip_catalog_digest_check :: bool
  rust_sip_all_digest_checks :: bool
  biometric_policy :: bool
  enclave_policy :: bool
  anchor_dir :: "str option"
  trusted_ca :: "str list"
  additional_trusted_ca :: "str list"
  online_aia :: bool
  aia_url_override :: "str option"
  online_ocsp :: bool
  ocsp_url_override :: "str option"
  revocation_mode :: "PortableRevocationMode option"
  crl_url_override :: "str option"
  as_of :: "str option"
  authroot_cab :: "str option"
  expect_authroot_cab_sha256 :: "str option"
  verbose_chain :: bool
  allow_loose_signing_cert :: bool
  prefer_timestamp_signing_time :: bool
  require_valid_timestamp :: bool
  online_timeout_secs :: nat
  online_max_download_bytes :: nat
  artifact_signing :: bool
  artifact_signing_publisher_id :: "str list"
  artifact_signing_private_trust_root :: "str list"
  artifact_signing_allow_missing_timestamp :: bool
  files :: "str list"

section \<open>Files without a Windows provider\<close>

definition is_package_without_windows_sip :: "str \<Rightarrow> bool" where
  "is_package_without_windows_sip path =
     (case extension path of
        None \<Rightarrow> False
      | Some e \<Rightarrow> to_ascii_lowercase e \<in> {lit ''nupkg'', lit ''snupkg'', lit ''vsix''})"

definition portable_command_for_path :: "str \<Rightarrow> str res" where
  "portable_command_for_path path =
     (let ext = (case extension path of None \<Rightarrow> [] | Some e \<Rightarrow> to_ascii_lowercase e) in
      if ext \<in> set (map lit [''exe'', ''dll'', ''sys'', ''ocx'', ''efi'', ''winmd'']) then Inr (lit ''verify-pe'')
      else if ext = lit ''cab'' then Inr (lit ''verify-cab'')
      else if ext \<in> set (map lit [''msi'', ''msp'']) then Inr (lit ''verify-msi'')
      else if ext \<in> set (map lit [''wim'', ''esd'']) then Inr (lit ''verify-esd'')
      else if ext \<in> set (map lit [''msix'', ''appx'', ''msixbundle'', ''appxbundle'']) then Inr (lit ''verify-msix'')
      else if ext \<in> set (map lit [''eappx'', ''eappxbundle'', ''emsix'', ''emsixbundle'']) then
        bail ''encrypted MSIX/AppX packages require Windows AppxSip OS delegation''
      else if ext \<in> set (map lit [''appxupload'', ''msixupload'']) then
        bail ''MSIX/AppX upload bundles are packaging containers, not AppX SIP verify subjects''
      else if ext = lit ''zip'' then Inr (lit ''verify-zip'')
      else if ext = lit ''cat'' then Inr (lit ''verify-catalog'')
      else if ext \<in> set (map lit [''ps1'', ''psd1'', ''psm1'', ''ps1xml'', ''psc1'', ''cdxml'', ''mof'', ''js'',
        ''jse'', ''vbs'', ''vbe'', ''wsf'']) then Inr (lit ''verify-script'')
      else if ext \<in> set (map lit [''nupkg'', ''snupkg'']) then Inr (lit ''trust-verify-nupkg'')
      else if ext = lit ''vsix'' then Inr (lit ''trust-verify-vsix'')
      else bail ''portable verify cannot infer a supported SIP format'')"

section \<open>The choice of the check\<close>

definition portable_trust_command_for_verify_command :: "str \<Rightarrow> str option" where
  "portable_trust_command_for_verify_command command =
     map_of (map (\<lambda>(v, t). (lit v, lit t))
       [(''verify-pe'', ''trust-verify-pe''), (''verify-cab'', ''trust-verify-cab''),
        (''verify-msi'', ''trust-verify-msi''), (''verify-esd'', ''trust-verify-esd''),
        (''verify-catalog'', ''trust-verify-catalog''), (''verify-zip'', ''trust-verify-zip'')]) command"

definition portable_explicit_trust_command :: "str \<Rightarrow> str option" where
  "portable_explicit_trust_command command =
     (case portable_trust_command_for_verify_command command of
        Some t \<Rightarrow> Some t
      | None \<Rightarrow> map_of (map (\<lambda>(v, t). (lit v, lit t))
          [(''verify-script'', ''trust-verify-script''), (''verify-msix'', ''trust-verify-msix''),
           (''trust-verify-nupkg'', ''trust-verify-nupkg''), (''trust-verify-vsix'', ''trust-verify-vsix'')]) command)"

definition artifact_signing_requested :: "VerifyArgs \<Rightarrow> bool" where
  "artifact_signing_requested args \<longleftrightarrow>
     artifact_signing args \<or> artifact_signing_publisher_id args \<noteq> [] \<or>
     artifact_signing_private_trust_root args \<noteq> [] \<or> artifact_signing_allow_missing_timestamp args"

definition portable_verify_unsupported :: "VerifyArgs \<Rightarrow> bool" where
  "portable_verify_unsupported args \<longleftrightarrow>
     (let pa_with_artifact_signing = (policy args = Pa \<and> artifact_signing_requested args) in
      policy args \<noteq> Default \<and> \<not> pa_with_artifact_signing
      \<or> policy_guid args \<noteq> None
      \<or> revocation_check args
      \<or> catalog_search args \<noteq> None
      \<or> catalog_database_guid args \<noteq> None
      \<or> os_version_check args \<noteq> None
      \<or> kernel_policy args
      \<or> all_signatures args
      \<or> allow_test_root args
      \<or> warn_if_not_timestamped args
      \<or> signature_index args \<noteq> None
      \<or> multiple_semantics args
      \<or> verify_pkcs7_file args
      \<or> print_description args
      \<or> verify_page_hashes args
      \<or> chain_root_subject args \<noteq> None
      \<or> signer_thumbprint_sha1 args \<noteq> []
      \<or> intermediate_ca_sha1 args \<noteq> []
      \<or> warn_if_missing_eku args \<noteq> []
      \<or> detached_pkcs7_content args \<noteq> None \<and> detached_pkcs7 args = None
      \<or> warn_pca_2010 args
      \<or> no_warn_pca_2010 args
      \<or> verify_sealing_signatures args
      \<or> rust_sip_pe_digest_check args
      \<or> rust_sip_script_digest_check args
      \<or> rust_sip_msi_digest_check args
      \<or> rust_sip_esd_digest_check args
      \<or> rust_sip_msix_digest_check args
      \<or> rust_sip_cab_digest_check args
      \<or> rust_sip_catalog_digest_check args
      \<or> rust_sip_all_digest_checks args
      \<or> biometric_policy args
      \<or> enclave_policy args)"

section \<open>Trust options\<close>

text \<open>The options in the order they are appended.\<close>

definition opt_arg :: "string \<Rightarrow> str option \<Rightarrow> str list" where
  "opt_arg flag v = (case v of None \<Rightarrow> [] | Some x \<Rightarrow> [lit flag, x])"

definition each_arg :: "string \<Rightarrow> str list \<Rightarrow> str list" where
  "each_arg flag vs = concat (map (\<lambda>v. [lit flag, v]) vs)"

definition flag_arg :: "string \<Rightarrow> bool \<Rightarrow> str list" where
  "flag_arg flag b = (if b then [lit flag] else [])"

definition append_portable_trust_args :: "VerifyArgs \<Rightarrow> str list \<Rightarrow> str list" where
  "append_portable_trust_args args argv = argv @
     opt_arg ''--anchor-dir'' (anchor_dir args) @
     each_arg ''--trusted-ca'' (trusted_ca args) @
     each_arg ''--additional-trusted-ca'' (additional_trusted_ca args) @
     opt_arg ''--authroot-cab'' (authroot_cab args) @
     opt_arg ''--expect-authroot-cab-sha256'' (expect_authroot_cab_sha256 args) @
     flag_arg ''--verbose-chain'' (verbose_chain args) @
     flag_arg ''--allow-loose-signing-cert'' (allow_loose_signing_cert args) @
     flag_arg ''--prefer-timestamp-signing-time'' (prefer_timestamp_signing_time args) @
     flag_arg ''--require-valid-timestamp'' (require_valid_timestamp args) @
     flag_arg ''--online-aia'' (online_aia args) @
     opt_arg ''--aia-url-override'' (aia_url_override args) @
     flag_arg ''--online-ocsp'' (online_ocsp args) @
     opt_arg ''--ocsp-url-override'' (ocsp_url_override args) @
     opt_arg ''--revocation-mode'' (map_option as_arg (revocation_mode args)) @
     opt_arg ''--crl-url-override'' (crl_url_override args) @
     opt_arg ''--as-of'' (as_of args) @
     opt_arg ''--online-timeout-secs''
       (if online_timeout_secs args \<noteq> 5 then Some (decimal (online_timeout_secs args)) else None) @
     opt_arg ''--online-max-download-bytes''
       (if online_max_download_bytes args \<noteq> 1024 * 1024
        then Some (decimal (online_max_download_bytes args)) else None)"

definition portable_verify_explicit_trust_requested :: "VerifyArgs \<Rightarrow> bool" where
  "portable_verify_explicit_trust_requested args \<longleftrightarrow>
     anchor_dir args \<noteq> None
     \<or> trusted_ca args \<noteq> []
     \<or> additional_trusted_ca args \<noteq> []
     \<or> authroot_cab args \<noteq> None
     \<or> expect_authroot_cab_sha256 args \<noteq> None
     \<or> verbose_chain args
     \<or> allow_loose_signing_cert args
     \<or> prefer_timestamp_signing_time args
     \<or> require_valid_timestamp args
     \<or> online_aia args
     \<or> aia_url_override args \<noteq> None
     \<or> online_ocsp args
     \<or> ocsp_url_override args \<noteq> None
     \<or> revocation_mode args \<noteq> None
     \<or> crl_url_override args \<noteq> None
     \<or> as_of args \<noteq> None
     \<or> online_timeout_secs args \<noteq> 5
     \<or> online_max_download_bytes args \<noteq> 1024 * 1024"

section \<open>Artifact Signing\<close>

text \<open>
  What the policy calls: reading files, the date parser, and the three entry points of the trust
  crate, which answer with the signatures of the report in their printed form.
\<close>

record 'd trust_env =
  read_file :: "str \<Rightarrow> u8 list res"
  parse_verification_date_ymd :: "str \<Rightarrow> 'd res"
  trust_verify_detached_bytes :: "u8 list \<Rightarrow> u8 list \<Rightarrow> 'd TrustVerifyPeOptions \<Rightarrow> str list res"
  trust_verify_catalog_bytes :: "u8 list \<Rightarrow> 'd TrustVerifyPeOptions \<Rightarrow> str list res"
  trust_verify_path :: "str \<Rightarrow> 'd TrustVerifyPeOptions \<Rightarrow> str list res"

definition artifact_conflicts :: "VerifyArgs \<Rightarrow> (bool \<times> string) list" where
  "artifact_conflicts args =
     [(anchor_dir args \<noteq> None, ''--anchor-dir''),
      (trusted_ca args \<noteq> [], ''--trusted-ca''),
      (additional_trusted_ca args \<noteq> [], ''--additional-trusted-ca''),
      (authroot_cab args \<noteq> None, ''--authroot-cab''),
      (expect_authroot_cab_sha256 args \<noteq> None, ''--expect-authroot-cab-sha256''),
      (allow_loose_signing_cert args, ''--allow-loose-signing-cert''),
      (catalog_search args \<noteq> None, ''--catalog-search''),
      (catalog_database_guid args \<noteq> None, ''--catalog-database-guid''),
      (kernel_policy args, ''--kernel-policy'')]"

definition artifact_validate :: "VerifyArgs \<Rightarrow> unit res" where
  "artifact_validate args =
     (case List.find fst (artifact_conflicts args) of
        Some (_, flag) \<Rightarrow> bail ''cannot be combined with --artifact-signing''
      | None \<Rightarrow> Inr ())"

definition trust_options :: "'d trust_env \<Rightarrow> VerifyArgs \<Rightarrow> 'd TrustVerifyPeOptions res" where
  "trust_options E args =
     rbind (case as_of args of
              None \<Rightarrow> Inr None
            | Some d \<Rightarrow> rbind (parse_verification_date_ymd E d) (\<lambda>x. Inr (Some x))) (\<lambda>instant.
     Inr (default_trust_verify_options\<lparr>verification_instant_override := instant,
       opt_verbose_chain := verbose_chain args,
       opt_online := \<lparr>enable_aia = online_aia args,
         opt_aia_url_override = aia_url_override args,
         enable_ocsp = online_ocsp args,
         opt_ocsp_url_override = ocsp_url_override args,
         opt_revocation_mode = (case revocation_mode args of
             None \<Rightarrow> Rev_Off | Some Off \<Rightarrow> Rev_Off
           | Some BestEffort \<Rightarrow> Rev_BestEffort | Some Require \<Rightarrow> Rev_Require),
         opt_crl_url_override = crl_url_override args,
         timeout_secs = online_timeout_secs args,
         max_download_bytes = online_max_download_bytes args\<rparr>,
       artifact_signing_policy := Some \<lparr>expected_publisher_ids = artifact_signing_publisher_id args,
         private_trust_root_files = artifact_signing_private_trust_root args,
         require_timestamp = (\<not> artifact_signing_allow_missing_timestamp args)\<rparr>\<rparr>))"

definition append_report :: "str \<Rightarrow> str \<Rightarrow> str list \<Rightarrow> str" where
  "append_report out path report =
     out @ lit ''Artifact Signing verified: '' @ path @ [10] @ concat (map (\<lambda>sig. lit ''  '' @ sig @ [10]) report)"

fun verify_each_path :: "'d trust_env \<Rightarrow> 'd TrustVerifyPeOptions \<Rightarrow> str list \<Rightarrow> str \<Rightarrow> str res" where
  "verify_each_path E opts [] out = Inr out"
| "verify_each_path E opts (path # paths) out =
     rbind (trust_verify_path E path opts) (\<lambda>report.
     verify_each_path E opts paths (append_report out path report))"

definition verify_targets :: "'d trust_env \<Rightarrow> VerifyArgs \<Rightarrow> str res" where
  "verify_targets E args =
     rbind (artifact_validate args) (\<lambda>_.
     rbind (trust_options E args) (\<lambda>opts.
     case detached_pkcs7 args of
       Some signature \<Rightarrow>
         rbind (ok_or (case detached_pkcs7_content args of
                         Some c \<Rightarrow> Some c
                       | None \<Rightarrow> (case files args of [] \<Rightarrow> None | f # _ \<Rightarrow> Some f))
                 ''--detached-pkcs7 requires a content file'') (\<lambda>content_path.
         rbind (read_file E content_path) (\<lambda>content.
         rbind (read_file E signature) (\<lambda>pkcs7.
         rbind (trust_verify_detached_bytes E content pkcs7 opts) (\<lambda>report.
         Inr (append_report [] signature report)))))
     | None \<Rightarrow>
         (case catalog args of
            Some cat \<Rightarrow>
              rbind (read_file E cat) (\<lambda>bytes.
              rbind (trust_verify_catalog_bytes E bytes opts) (\<lambda>report.
              Inr (append_report [] cat report)))
          | None \<Rightarrow> verify_each_path E opts (files args) [])))"

section \<open>Running the checks\<close>

record CommandOutput =
  stdout :: str
  exit_code :: i32

definition ok_output :: "str \<Rightarrow> CommandOutput" where
  "ok_output out = \<lparr>stdout = out, exit_code = 0\<rparr>"

text \<open>\<open>run_from\<close> is the portable command line program: it succeeds, or fails with an error.\<close>

definition run_portable_args :: "(str list \<Rightarrow> ('s, unit) eff) \<Rightarrow> str list \<Rightarrow> ('s, CommandOutput) eff" where
  "run_portable_args run_from args =
     andthen (run_from (lit ''psign-tool'' # (if args = [] then [lit ''--help''] else args)))
       (\<lambda>_. ret (ok_output []))"

definition run_portable :: "(str list \<Rightarrow> ('s, unit) eff) \<Rightarrow> str list \<Rightarrow> ('s, unit) eff" where
  "run_portable run_from args = andthen (run_portable_args run_from args) (\<lambda>_. ret ())"

definition catalog_member_args :: "str \<Rightarrow> str \<Rightarrow> str list" where
  "catalog_member_args cat subject = [lit ''verify-catalog-member'', lit ''--catalog'', cat, subject]"

definition portable_verify_command :: "bool \<Rightarrow> VerifyArgs \<Rightarrow> str \<Rightarrow> str res" where
  "portable_verify_command auto_trust args inferred_command =
     (if portable_verify_explicit_trust_requested args then
        ok_or (portable_explicit_trust_command inferred_command)
          ''portable verify trust options are not supported for inferred command''
      else if auto_trust then
        Inr (case portable_trust_command_for_verify_command inferred_command of
               Some t \<Rightarrow> t | None \<Rightarrow> inferred_command)
      else Inr inferred_command)"

fun verify_files :: "(str list \<Rightarrow> ('s, unit) eff) \<Rightarrow> bool \<Rightarrow> VerifyArgs \<Rightarrow> str list \<Rightarrow> ('s, unit) eff" where
  "verify_files run_from auto_trust args [] = ret ()"
| "verify_files run_from auto_trust args (path # paths) =
     andthen (pure (portable_command_for_path path)) (\<lambda>inferred_command.
     andthen (pure (portable_verify_command auto_trust args inferred_command)) (\<lambda>command.
     andthen (run_portable run_from (append_portable_trust_args args [command] @ [path])) (\<lambda>_.
     verify_files run_from auto_trust args paths)))"

text \<open>
  \<open>auto_trust\<close> is \<^verbatim>\<open>portable_auto_trust_enabled\<close>; the trust environment may depend on the state.
\<close>

definition execute_portable_verify ::
  "(str list \<Rightarrow> ('s, unit) eff) \<Rightarrow> ('s \<Rightarrow> 'd trust_env) \<Rightarrow> bool \<Rightarrow> VerifyArgs \<Rightarrow> ('s, CommandOutput) eff" where
  "execute_portable_verify run_from E auto_trust args =
     (if portable_verify_unsupported args then
        throw ''--mode portable verify supports file verification and portable trust inputs''
      else if artifact_signing_requested args then
        andthen (\<lambda>s. pure (verify_targets (E s) args) s) (\<lambda>out.
        andthen (case catalog args of
                   None \<Rightarrow> ret ()
                 | Some cat \<Rightarrow> run_each (run_portable run_from) (map (catalog_member_args cat) (files args))) (\<lambda>_.
        ret (ok_output out)))
      else case detached_pkcs7 args of
        Some signature \<Rightarrow>
          if length (files args) \<noteq> 1 then
            throw ''--mode portable verify --detached-pkcs7 requires exactly one verify target''
          else
            let content = (case detached_pkcs7_content args of Some c \<Rightarrow> c | None \<Rightarrow> files args ! 0) in
            andthen (run_portable run_from
              (append_portable_trust_args args [lit ''trust-verify-detached''] @ [content, signature]))
              (\<lambda>_. ret (ok_output []))
      | None \<Rightarrow>
          (case catalog args of
             Some cat \<Rightarrow>
               if catalog_hash_algorithm args \<noteq> Cat_Sha256 then
                 throw ''--catalog-hash-algorithm must be sha256''
               else
                 andthen (run_portable run_from
                   (append_portable_trust_args args [lit ''trust-verify-catalog''] @ [cat])) (\<lambda>_.
                 andthen (run_each (run_portable run_from) (map (catalog_member_args cat) (files args))) (\<lambda>_.
                 ret (ok_output [])))
           | None \<Rightarrow>
               andthen (verify_files run_from auto_trust args (files args)) (\<lambda>_. ret (ok_output []))))"

section \<open>The commands behind a verdict\<close>

text \<open>
  The reference: the list of portable commands a verify without Artifact Signing consists of, where
  the options admit one. Running them in order until one fails is all that the command does.
\<close>

definition file_command :: "bool \<Rightarrow> VerifyArgs \<Rightarrow> str \<Rightarrow> str list option" where
  "file_command auto_trust args path =
     (case portable_command_for_path path of
        Inl _ \<Rightarrow> None
      | Inr inferred \<Rightarrow>
          (case portable_verify_command auto_trust args inferred of
             Inl _ \<Rightarrow> None
           | Inr command \<Rightarrow> Some (append_portable_trust_args args [command] @ [path])))"

definition verify_plan :: "bool \<Rightarrow> VerifyArgs \<Rightarrow> str list list option" where
  "verify_plan auto_trust args =
     (if portable_verify_unsupported args then None
      else case detached_pkcs7 args of
        Some signature \<Rightarrow>
          if length (files args) \<noteq> 1 then None
          else Some [append_portable_trust_args args [lit ''trust-verify-detached''] @
            [case detached_pkcs7_content args of Some c \<Rightarrow> c | None \<Rightarrow> files args ! 0, signature]]
      | None \<Rightarrow>
          (case catalog args of
             Some cat \<Rightarrow>
               if catalog_hash_algorithm args \<noteq> Cat_Sha256 then None
               else Some ((append_portable_trust_args args [lit ''trust-verify-catalog''] @ [cat]) #
                 map (catalog_member_args cat) (files args))
           | None \<Rightarrow>
               if \<exists>f\<in>set (files args). file_command auto_trust args f = None then None
               else Some (map (\<lambda>f. the (file_command auto_trust args f)) (files args))))"

abbreviation ran_portable :: "(str list \<Rightarrow> ('s, unit) eff) \<Rightarrow> str list list \<Rightarrow> 's \<Rightarrow> 's \<Rightarrow> bool" where
  "ran_portable run_from cmds \<equiv> ran run_from (map (\<lambda>c. lit ''psign-tool'' # c) cmds)"

lemma run_portable_Inr:
  "c \<noteq> [] \<Longrightarrow> run_portable run_from c s = (s', Inr ()) \<longleftrightarrow> run_from (lit ''psign-tool'' # c) s = (s', Inr ())"
  by (simp add: run_portable_def run_portable_args_def eff_simps)

lemma run_each_portable:
  "\<forall>c\<in>set cmds. c \<noteq> [] \<Longrightarrow>
   run_each (run_portable run_from) cmds s = (s', Inr ()) \<longleftrightarrow> ran_portable run_from cmds s s'"
  by (induction cmds arbitrary: s) (auto simp: eff_simps ran_Cons_iff run_portable_Inr)

lemma verify_files_Inr:
  "verify_files run_from auto_trust args fs s = (s', Inr ()) \<longleftrightarrow>
   (\<forall>f\<in>set fs. file_command auto_trust args f \<noteq> None) \<and>
   ran_portable run_from (map (\<lambda>f. the (file_command auto_trust args f)) fs) s s'"
proof (induction fs arbitrary: s)
  case (Cons f fs)
  show ?case
  proof (cases "file_command auto_trust args f")
    case None
    then show ?thesis by (auto simp: file_command_def eff_simps split: sum.splits)
  next
    case (Some c)
    then obtain inferred command where c: "portable_command_for_path f = Inr inferred"
      "portable_verify_command auto_trust args inferred = Inr command"
      "c = append_portable_trust_args args [command] @ [f]"
      by (auto simp: file_command_def split: sum.splits)
    have "c \<noteq> []" using c(3) by simp
    with Some c Cons show ?thesis
      by (auto simp: eff_simps ran_Cons_iff run_portable_Inr)
  qed
qed (auto simp: eff_simps)


text \<open>The command line \<^verbatim>\<open>verify fs\<close>: every option at the default the argument parser gives it.\<close>

definition verify_only :: "str list \<Rightarrow> VerifyArgs" where
  "verify_only fs =
    \<lparr>policy = Default, policy_guid = None, revocation_check = False,
     detached_pkcs7 = None, catalog = None, catalog_search = None,
     catalog_database_guid = None, catalog_hash_algorithm = Cat_Sha256, os_version_check = None,
     kernel_policy = False, all_signatures = False, allow_test_root = False,
     warn_if_not_timestamped = False, signature_index = None, multiple_semantics = False,
     verify_pkcs7_file = False, print_description = False, verify_page_hashes = False,
     chain_root_subject = None, signer_thumbprint_sha1 = [], intermediate_ca_sha1 = [],
     warn_if_missing_eku = [], detached_pkcs7_content = None, warn_pca_2010 = False,
     no_warn_pca_2010 = False, verify_sealing_signatures = False, rust_sip_pe_digest_check = False,
     rust_sip_script_digest_check = False, rust_sip_msi_digest_check = False, rust_sip_esd_digest_check = False,
     rust_sip_msix_digest_check = False, rust_sip_cab_digest_check = False, rust_sip_catalog_digest_check = False,
     rust_sip_all_digest_checks = False, biometric_policy = False, enclave_policy = False,
     anchor_dir = None, trusted_ca = [], additional_trusted_ca = [],
     online_aia = False, aia_url_override = None, online_ocsp = False,
     ocsp_url_override = None, revocation_mode = None, crl_url_override = None,
     as_of = None, authroot_cab = None, expect_authroot_cab_sha256 = None,
     verbose_chain = False, allow_loose_signing_cert = False, prefer_timestamp_signing_time = False,
     require_valid_timestamp = False, online_timeout_secs = 5, online_max_download_bytes = 1024 * 1024,
     artifact_signing = False, artifact_signing_publisher_id = [], artifact_signing_private_trust_root = [],
     artifact_signing_allow_missing_timestamp = False,
     files = fs\<rparr>"


section \<open>Trust options\<close>

lemma opt_arg_Nil [simp]: "opt_arg flag v = [] \<longleftrightarrow> v = None"
  by (cases v) (simp_all add: opt_arg_def)

lemma each_arg_Nil [simp]: "each_arg flag vs = [] \<longleftrightarrow> vs = []"
  by (cases vs) (simp_all add: each_arg_def)

lemma flag_arg_Nil [simp]: "flag_arg flag b = [] \<longleftrightarrow> \<not> b"
  by (simp add: flag_arg_def)

text \<open>C16: the two lists of trust options agree. The options count as an explicit request for trust
  exactly when at least one of them is forwarded to the portable command, so no forwarded option is
  taken for automatic trust and no request is dropped on the way.\<close>

theorem trust_options_consistent:
  "append_portable_trust_args args argv = argv \<longleftrightarrow> \<not> portable_verify_explicit_trust_requested args"
  unfolding append_portable_trust_args_def portable_verify_explicit_trust_requested_def
  by (simp only: append_self_conv append_is_Nil_conv opt_arg_Nil each_arg_Nil flag_arg_Nil
    option.map_disc_iff if_splits option.distinct) auto

lemma inferred_commands:
  "portable_command_for_path path = Inr c \<Longrightarrow> c \<in> set (map lit [''verify-pe'', ''verify-cab'', ''verify-msi'',
     ''verify-esd'', ''verify-msix'', ''verify-zip'', ''verify-catalog'', ''verify-script'',
     ''trust-verify-nupkg'', ''trust-verify-vsix''])"
  by (simp add: portable_command_for_path_def Let_def del: lit_simps split: if_splits)

lemma explicit_trust_commands:
  "\<forall>c\<in>set (map lit [''verify-pe'', ''verify-cab'', ''verify-msi'', ''verify-esd'', ''verify-msix'',
     ''verify-zip'', ''verify-catalog'', ''verify-script'', ''trust-verify-nupkg'', ''trust-verify-vsix'']).
     case portable_explicit_trust_command c of None \<Rightarrow> False | Some t \<Rightarrow> starts_with (lit ''trust-verify-'') t"
  by code_simp

text \<open>trust inputs are never dropped for a digest check. Whenever the user gives a trust option, the
  check chosen for a file of any format the command can infer is a trust verification (the branch that
  refuses trust options is never reached), and every option is among its arguments.\<close>

theorem explicit_trust_checks_trust:
  assumes "portable_verify_explicit_trust_requested args" "portable_command_for_path path = Inr inferred"
  shows "\<exists>t. starts_with (lit ''trust-verify-'') t \<and>
    file_command auto_trust args path = Some (t # append_portable_trust_args args [] @ [path])"
proof -
  obtain t where "portable_explicit_trust_command inferred = Some t" "starts_with (lit ''trust-verify-'') t"
    using inferred_commands [OF assms(2)] explicit_trust_commands
    by (cases "portable_explicit_trust_command inferred") (auto simp del: lit_simps set_simps)
  then show ?thesis using assms
    by (auto simp: file_command_def portable_verify_command_def append_portable_trust_args_def
      simp del: lit_simps)
qed

theorem explicit_trust_checks_trust_witness:
  "\<exists>t. starts_with (lit ''trust-verify-'') t \<and>
     file_command True (verify_only [lit ''a.ps1''] \<lparr>online_aia := True\<rparr>) (lit ''a.ps1'')
     = Some (t # append_portable_trust_args (verify_only [lit ''a.ps1''] \<lparr>online_aia := True\<rparr>) [] @ [lit ''a.ps1''])"
proof (rule explicit_trust_checks_trust)
  show "portable_verify_explicit_trust_requested (verify_only [lit ''a.ps1''] \<lparr>online_aia := True\<rparr>)"
    by (simp add: portable_verify_explicit_trust_requested_def)
  show "portable_command_for_path (lit ''a.ps1'') = Inr (lit ''verify-script'')" by code_simp
qed

section \<open>Targets that no check reads\<close>

text \<open>with the Artifact Signing policy and a detached signature only the first target is looked at.
  The other targets have no influence on the verdict or on the report, although success is reported
  for the command as a whole; without the policy the same command line is an error.\<close>

theorem artifact_detached_ignores_targets:
  assumes "artifact_signing_requested args" "detached_pkcs7 args = Some sig" "catalog args = None"
  shows "execute_portable_verify run_from E auto_trust (args\<lparr>files := f # fs\<rparr>)
       = execute_portable_verify run_from E auto_trust (args\<lparr>files := [f]\<rparr>)"
proof -
  have "verify_targets (E s) (args\<lparr>files := f # fs\<rparr>) = verify_targets (E s) (args\<lparr>files := [f]\<rparr>)" for s
    using assms(2) by (cases "detached_pkcs7_content args") (simp_all add: verify_targets_def trust_options_def artifact_validate_def artifact_conflicts_def)
  moreover have "portable_verify_unsupported (args\<lparr>files := gs\<rparr>) = portable_verify_unsupported args"
    "artifact_signing_requested (args\<lparr>files := gs\<rparr>)" for gs
    using assms(1) by (simp_all add: portable_verify_unsupported_def artifact_signing_requested_def)
  ultimately show ?thesis using assms(3) by (simp add: execute_portable_verify_def)
qed

theorem artifact_detached_ignores_targets_witness:
  "\<forall>run_from E. execute_portable_verify run_from E True
     (verify_only [] \<lparr>artifact_signing := True, detached_pkcs7 := Some [115], files := [[97], [98]]\<rparr>)
   = execute_portable_verify run_from E True
     (verify_only [] \<lparr>artifact_signing := True, detached_pkcs7 := Some [115], files := [[97]]\<rparr>)"
proof (intro allI)
  fix run_from E
  show "execute_portable_verify run_from E True
     (verify_only [] \<lparr>artifact_signing := True, detached_pkcs7 := Some [115], files := [[97], [98]]\<rparr>)
   = execute_portable_verify run_from E True
     (verify_only [] \<lparr>artifact_signing := True, detached_pkcs7 := Some [115], files := [[97]]\<rparr>)"
    using artifact_detached_ignores_targets
      [of "verify_only [] \<lparr>artifact_signing := True, detached_pkcs7 := Some [115]\<rparr>" "[115]" run_from E True "[97]" "[[98]]"]
    by (simp add: artifact_signing_requested_def verify_only_def)
qed

end
