(* ===== verification/Tool_Main.thy ===== *)
theory Tool_Main
  imports Response_Argv Native_Argv Verify_Dispatch
begin

text \<open>
  Model of the main program (\<^verbatim>\<open>src/lib.rs\<close>): the backend mode, the portable inspect and timestamp
  commands, the dispatch over the commands, and the loop of \<^verbatim>\<open>run_tool_cli\<close> over the invocations of
  one command line. The argument parser, the backends that are not modelled, the portable command
  line program and printing are parameters.
\<close>

section \<open>Modes\<close>

datatype ToolMode = Auto | Windows | Portable

record GlobalOpts =
  quiet :: bool
  verbose :: bool
  debug :: bool
  mode :: "ToolMode option"

definition parse_tool_mode :: "str \<Rightarrow> ToolMode res" where
  "parse_tool_mode value =
     (let t = trim value in
      if eq_ignore_ascii_case t (lit ''auto'') then Inr Auto
      else if eq_ignore_ascii_case t (lit ''windows'') \<or> eq_ignore_ascii_case t (lit ''win32'') then Inr Windows
      else if eq_ignore_ascii_case t (lit ''portable'') then Inr Portable
      else bail ''PSIGN_TOOL_MODE must be one of: auto, windows, portable'')"

text \<open>\<open>env\<close> is the environment; a variable that is not Unicode counts as absent.\<close>

definition resolved_tool_mode :: "(string \<Rightarrow> str option) \<Rightarrow> GlobalOpts \<Rightarrow> ToolMode res" where
  "resolved_tool_mode env global =
     (case mode global of
        Some m \<Rightarrow> Inr m
      | None \<Rightarrow> (case env ''PSIGN_TOOL_MODE'' of Some value \<Rightarrow> parse_tool_mode value | None \<Rightarrow> Inr Auto))"

fun effective_tool_mode :: "bool \<Rightarrow> ToolMode \<Rightarrow> ToolMode" where
  "effective_tool_mode cfg_windows Auto = (if cfg_windows then Windows else Portable)"
| "effective_tool_mode cfg_windows explicit = explicit"

section \<open>Commands\<close>

datatype InspectSignatureInput = Inspect_Pe | Inspect_Pkcs7

datatype DigestAlgorithm = Sha1 | Sha256 | Sha384 | Sha512 | CertHash

record TimestampArgs =
  rfc3161_url :: "str option"
  legacy_url :: "str option"
  seal_timestamp_url :: "str option"
  timestamp_digest :: "DigestAlgorithm option"
  timestamp_index :: "u32 option"
  timestamp_pkcs7_files :: bool
  remove_seal :: bool
  no_seal_warn :: bool
  timestamp_files :: "str list"

text \<open>The options of the commands that are not modelled are of type \<open>'x\<close>.\<close>

datatype 'x Command =
    CertStoreCmd 'x | PortableCmd "str list" | CodeCmd 'x | VerifyCmd VerifyArgs | SignCmd 'x
  | TimestampCmd TimestampArgs | CatdbCmd 'x | RemoveCmd 'x | InspectSignature str InspectSignatureInput
  | RdpCmd 'x | ArtifactSigningSubmit 'x

record 'x Cli =
  global :: GlobalOpts
  command :: "'x Command"

record ('s, 'x, 'd) backends =
  run_from :: "str list \<Rightarrow> ('s, unit) eff"
  code_command :: "'x \<Rightarrow> ('s, CommandOutput) eff"
  cert_store_command :: "'x \<Rightarrow> ('s, CommandOutput) eff"
  sign_file :: "'x \<Rightarrow> GlobalOpts \<Rightarrow> ('s, CommandOutput) eff"
  remove_command :: "'x \<Rightarrow> GlobalOpts \<Rightarrow> ('s, CommandOutput) eff"
  windows_backend :: "'x Cli \<Rightarrow> ('s, CommandOutput) eff"
  trust_of :: "'s \<Rightarrow> 'd trust_env"
  auto_trust_enabled :: bool
  primary_signature :: "u8 list \<Rightarrow> unit res"
  env_var :: "string \<Rightarrow> str option"
  cfg_windows :: bool

definition execute_portable_inspect ::
  "('s, 'x, 'd) backends \<Rightarrow> str \<Rightarrow> InspectSignatureInput \<Rightarrow> ('s, CommandOutput) eff" where
  "execute_portable_inspect B path input_kind =
     run_portable_args (run_from B)
       [lit ''inspect-authenticode'', path, lit ''--input'',
        (case input_kind of Inspect_Pe \<Rightarrow> lit ''pe'' | Inspect_Pkcs7 \<Rightarrow> lit ''pkcs7'')]"

definition timestamp_digest_name :: "DigestAlgorithm option \<Rightarrow> str res" where
  "timestamp_digest_name d =
     (case d of
        Some Sha1 \<Rightarrow> Inr (lit ''sha1'')
      | Some Sha256 \<Rightarrow> Inr (lit ''sha256'')
      | Some Sha384 \<Rightarrow> Inr (lit ''sha384'')
      | Some Sha512 \<Rightarrow> Inr (lit ''sha512'')
      | Some CertHash \<Rightarrow> bail ''--mode portable timestamp does not support --digest certHash''
      | None \<Rightarrow> bail ''--mode portable timestamp requires --digest (/td) with --rfc3161-url (/tr)'')"

definition timestamp_args :: "str \<Rightarrow> str \<Rightarrow> str \<Rightarrow> str list" where
  "timestamp_args url digest path =
     [lit ''timestamp-pe-rfc3161'', path, lit ''--rfc3161-url'', url, lit ''--digest'', digest, lit ''--output'', path]"

fun timestamp_each :: "('s, 'x, 'd) backends \<Rightarrow> str \<Rightarrow> str \<Rightarrow> str list \<Rightarrow> ('s, unit) eff" where
  "timestamp_each B url digest [] = ret ()"
| "timestamp_each B url digest (path # paths) =
     andthen (\<lambda>s. pure (read_file (trust_of B s) path) s) (\<lambda>image.
     andthen (pure (primary_signature B image)) (\<lambda>_.
     andthen (run_portable (run_from B) (timestamp_args url digest path)) (\<lambda>_.
     timestamp_each B url digest paths)))"

definition execute_portable_timestamp ::
  "('s, 'x, 'd) backends \<Rightarrow> TimestampArgs \<Rightarrow> ('s, CommandOutput) eff" where
  "execute_portable_timestamp B args =
     (if legacy_url args \<noteq> None then throw ''--mode portable timestamp does not support legacy --legacy-url (/t)''
      else if seal_timestamp_url args \<noteq> None \<or> remove_seal args \<or> no_seal_warn args then
        throw ''--mode portable timestamp does not support sealing''
      else if timestamp_pkcs7_files args then
        throw ''--mode portable timestamp does not support --timestamp-pkcs7-files (/p7)''
      else if timestamp_index args \<noteq> None then
        throw ''--mode portable timestamp does not support --signature-index (/tp)''
      else
        andthen (pure (ok_or (rfc3161_url args)
          ''--mode portable timestamp requires RFC3161 --rfc3161-url (/tr) and --digest (/td)'')) (\<lambda>url.
        andthen (pure (timestamp_digest_name (timestamp_digest args))) (\<lambda>digest.
        andthen (timestamp_each B url digest (timestamp_files args)) (\<lambda>_.
        ret (ok_output [])))))"

fun execute_portable :: "('s, 'x, 'd) backends \<Rightarrow> GlobalOpts \<Rightarrow> 'x Command \<Rightarrow> ('s, CommandOutput) eff" where
  "execute_portable B g (CodeCmd args) = code_command B args"
| "execute_portable B g (CertStoreCmd args) = cert_store_command B args"
| "execute_portable B g (PortableCmd args) = run_portable_args (run_from B) args"
| "execute_portable B g (VerifyCmd args) =
     execute_portable_verify (run_from B) (trust_of B) (auto_trust_enabled B) args"
| "execute_portable B g (InspectSignature path i) = execute_portable_inspect B path i"
| "execute_portable B g (SignCmd args) = sign_file B args g"
| "execute_portable B g (TimestampCmd args) = execute_portable_timestamp B args"
| "execute_portable B g (CatdbCmd args) = throw ''--mode portable catdb is unsupported''"
| "execute_portable B g (RemoveCmd args) = remove_command B args g"
| "execute_portable B g (RdpCmd args) =
     throw ''--mode portable rdp is available as `psign-tool portable rdp ...`''"
| "execute_portable B g (ArtifactSigningSubmit args) =
     throw ''--mode portable artifact-signing-submit is available as `psign-tool portable artifact-signing-submit ...`''"

definition execute_windows :: "('s, 'x, 'd) backends \<Rightarrow> 'x Cli \<Rightarrow> ('s, CommandOutput) eff" where
  "execute_windows B cli =
     (if cfg_windows B then windows_backend B cli else throw ''--mode windows requires Microsoft Windows'')"

definition execute :: "('s, 'x, 'd) backends \<Rightarrow> 'x Cli \<Rightarrow> ('s, CommandOutput) eff" where
  "execute B cli =
     (case command cli of
        CertStoreCmd args \<Rightarrow> cert_store_command B args
      | PortableCmd args \<Rightarrow> run_portable_args (run_from B) args
      | CodeCmd args \<Rightarrow> code_command B args
      | _ \<Rightarrow>
          andthen (pure (resolved_tool_mode (env_var B) (global cli))) (\<lambda>m.
          case effective_tool_mode (cfg_windows B) m of
            Windows \<Rightarrow> execute_windows B cli
          | Portable \<Rightarrow> execute_portable B (global cli) (command cli)
          | Auto \<Rightarrow> pure (Inl Panic)))"

section \<open>The main program\<close>

text \<open>\<open>emit\<close> prints to the standard output; diagnostics on the standard error are left out.\<close>

definition print_output :: "(str \<Rightarrow> 's \<Rightarrow> 's) \<Rightarrow> GlobalOpts \<Rightarrow> CommandOutput \<Rightarrow> 's \<Rightarrow> 's" where
  "print_output emit g out s = (if \<not> quiet g \<or> exit_code out \<noteq> 0 then emit (stdout out) s else s)"

text \<open>
  \<open>parse\<close> is the argument parser: a command line, or the code it exits with (zero for a help text).
  The result is the state and the exit code of the process.
\<close>

definition run_invocation :: "(str \<Rightarrow> 's \<Rightarrow> 's) \<Rightarrow> ('s, 'x, 'd) backends \<Rightarrow> 'x Cli \<Rightarrow> 's \<Rightarrow> 's \<times> i32" where
  "run_invocation emit B cli s =
     (case execute B cli s of
        (s', Inr out) \<Rightarrow> (print_output emit (global cli) out s', exit_code out)
      | (s', Inl e) \<Rightarrow> (s', 1))"

fun run_batch :: "(str list \<Rightarrow> i32 + 'x Cli) \<Rightarrow> (str \<Rightarrow> 's \<Rightarrow> 's) \<Rightarrow> ('s, 'x, 'd) backends \<Rightarrow>
    str list list \<Rightarrow> 's \<Rightarrow> i32 \<Rightarrow> 's \<times> i32" where
  "run_batch parse emit B [] s batch_exit = (s, batch_exit)"
| "run_batch parse emit B (argv # invs) s batch_exit =
     (case parse (normalize_native_signtool_argv argv) of
        Inl code \<Rightarrow> (s, code)
      | Inr cli \<Rightarrow>
          (case run_invocation emit B cli s of
             (s', code) \<Rightarrow> run_batch parse emit B invs s' (combine_batch_exit_codes batch_exit code)))"

definition run_tool_cli :: "file_store \<Rightarrow> (str list \<Rightarrow> i32 + 'x Cli) \<Rightarrow> (str \<Rightarrow> 's \<Rightarrow> 's) \<Rightarrow>
    ('s, 'x, 'd) backends \<Rightarrow> str list \<Rightarrow> 's \<Rightarrow> 's \<times> i32" where
  "run_tool_cli F parse emit B argv s =
     (case argv of
        [] \<Rightarrow> (s, 0)
      | executable # tail \<Rightarrow>
          (case expand_invocations F executable tail of
             Inl e \<Rightarrow> (s, 1)
           | Inr invocations \<Rightarrow> run_batch parse emit B invocations s 0))"

section \<open>The outcome of a batch\<close>

text \<open>The exit codes of the program as outcomes, ordered by how bad they are.\<close>

datatype batch_outcome = Clean | Warned | Partial | All_failed | Failed

fun severity :: "batch_outcome \<Rightarrow> nat" where
  "severity Clean = 0"
| "severity Warned = 1"
| "severity Partial = 2"
| "severity All_failed = 3"
| "severity Failed = 4"

lemma severity_inject: "severity a = severity b \<longleftrightarrow> a = b"
  by (cases a; cases b) auto

instantiation batch_outcome :: linorder
begin

definition less_eq_batch_outcome :: "batch_outcome \<Rightarrow> batch_outcome \<Rightarrow> bool" where
  "less_eq_batch_outcome a b \<longleftrightarrow> severity a \<le> severity b"

definition less_batch_outcome :: "batch_outcome \<Rightarrow> batch_outcome \<Rightarrow> bool" where
  "less_batch_outcome a b \<longleftrightarrow> severity a < severity b"

instance
  by standard (auto simp: less_eq_batch_outcome_def less_batch_outcome_def severity_inject)

end

definition outcome_of :: "i32 \<Rightarrow> batch_outcome" where
  "outcome_of c =
     (if c = 1 then Failed else if c = AZURE_SIGN_EXIT_ALL_FAILED then All_failed
      else if c = AZURE_SIGN_EXIT_PARTIAL_SUCCESS then Partial else if c = 2 then Warned else Clean)"

fun outcome_code :: "batch_outcome \<Rightarrow> i32" where
  "outcome_code Clean = 0"
| "outcome_code Warned = 2"
| "outcome_code Partial = AZURE_SIGN_EXIT_PARTIAL_SUCCESS"
| "outcome_code All_failed = AZURE_SIGN_EXIT_ALL_FAILED"
| "outcome_code Failed = 1"

lemma outcome_of_code [simp]: "outcome_of (outcome_code x) = x"
  by (cases x) (simp_all add: outcome_of_def AZURE_SIGN_EXIT_ALL_FAILED_def AZURE_SIGN_EXIT_PARTIAL_SUCCESS_def)

lemma combine_is_max: "combine_batch_exit_codes a b = outcome_code (max (outcome_of a) (outcome_of b))"
  by (simp add: combine_batch_exit_codes_def outcome_of_def max_def less_eq_batch_outcome_def)

text \<open>The codes the invocations of a batch end with, one after the other on the state the one before left.\<close>

fun batch_codes :: "(str \<Rightarrow> 's \<Rightarrow> 's) \<Rightarrow> ('s, 'x, 'd) backends \<Rightarrow> 'x Cli list \<Rightarrow> 's \<Rightarrow> 's \<times> i32 list" where
  "batch_codes emit B [] s = (s, [])"
| "batch_codes emit B (cli # clis) s =
     (case run_invocation emit B cli s of
        (s', c) \<Rightarrow> (case batch_codes emit B clis s' of (s'', cs) \<Rightarrow> (s'', c # cs)))"

lemma run_batch_codes:
  assumes "map (\<lambda>i. parse (normalize_native_signtool_argv i)) invs = map Inr clis"
  shows "run_batch parse emit B invs s (outcome_code acc)
       = (fst (batch_codes emit B clis s),
          outcome_code (Max (insert acc (outcome_of ` set (snd (batch_codes emit B clis s))))))"
  using assms
proof (induction invs arbitrary: clis s acc)
  case (Cons i invs)
  then obtain cli rest where c: "clis = cli # rest" "parse (normalize_native_signtool_argv i) = Inr cli"
    "map (\<lambda>i. parse (normalize_native_signtool_argv i)) invs = map Inr rest"
    by (cases clis) auto
  obtain s' code where r: "run_invocation emit B cli s = (s', code)" by fastforce
  obtain s'' cs where b: "batch_codes emit B rest s' = (s'', cs)" by fastforce
  have "Max (insert (max acc (outcome_of code)) (outcome_of ` set cs))
      = Max (insert acc (insert (outcome_of code) (outcome_of ` set cs)))"
    by (cases "cs = []") (simp_all add: max.assoc)
  then show ?case
    using Cons.IH [OF c(3), of s' "max acc (outcome_of code)"] c r b by (simp add: combine_is_max)
qed simp

text \<open>C17: the process reports the worst outcome. When every invocation of the command line parses, all of
  them are run in order, each on the state the one before left and whether or not an earlier one failed,
  and the exit code is that of the most severe of their outcomes: error, then all failed, then partial
  success, then warning, and zero only if all were clean.\<close>

theorem batch_reports_worst:
  assumes "expand_invocations F executable tail = Inr invs"
    and "map (\<lambda>i. parse (normalize_native_signtool_argv i)) invs = map Inr clis"
  shows "run_tool_cli F parse emit B (executable # tail) s
       = (fst (batch_codes emit B clis s),
          outcome_code (Max (insert Clean (outcome_of ` set (snd (batch_codes emit B clis s))))))"
  using run_batch_codes [OF assms(2), where acc = Clean] assms(1) by (simp add: run_tool_cli_def)

text \<open>A backend whose code command counts its calls and fails where it is told to.\<close>

definition counting_backends :: "(nat, bool, unit) backends" where
  "counting_backends =
     \<lparr>run_from = (\<lambda>c n. (n, Inr ())),
      code_command = (\<lambda>fails n. (n + 1, if fails then bail ''failed'' else Inr \<lparr>stdout = [], exit_code = 2\<rparr>)),
      cert_store_command = (\<lambda>_. throw ''none''), sign_file = (\<lambda>_ _. throw ''none''),
      remove_command = (\<lambda>_ _. throw ''none''), windows_backend = (\<lambda>_. throw ''none''),
      trust_of = (\<lambda>_. \<lparr>read_file = (\<lambda>_. bail ''none''), parse_verification_date_ymd = (\<lambda>_. bail ''none''),
        trust_verify_detached_bytes = (\<lambda>_ _ _. bail ''none''), trust_verify_catalog_bytes = (\<lambda>_ _. bail ''none''),
        trust_verify_path = (\<lambda>_ _. bail ''none'')\<rparr>),
      auto_trust_enabled = True, primary_signature = (\<lambda>_. Inr ()), env_var = (\<lambda>_. None), cfg_windows = False\<rparr>"

definition counting_cli :: "bool \<Rightarrow> bool Cli" where
  "counting_cli fails =
     \<lparr>global = \<lparr>quiet = True, verbose = False, debug = False, mode = None\<rparr>, command = CodeCmd fails\<rparr>"

lemma run_counting:
  "run_invocation (\<lambda>_ s. s) counting_backends (counting_cli fails) n = (n + 1, if fails then 1 else 2)"
  by (simp add: run_invocation_def execute_def counting_cli_def counting_backends_def print_output_def)

theorem batch_reports_worst_witness:
  "run_tool_cli (\<lambda>p. if p = [97] then Some (script_file Utf8 (response_text [[[120]], [[121]], [[120]]])) else None)
     (\<lambda>a. Inr (counting_cli (List.last a = [121]))) (\<lambda>_ s. s) counting_backends [[112], [64, 97]] 0 = (3, 1)"
proof -
  let ?F = "\<lambda>p. if p = [97] then Some (script_file Utf8 (response_text [[[120]], [[121]], [[120]]])) else None"
  have "expand_invocations ?F [112] [[64, 97]] = Inr (map ((#) [112]) [[[120]], [[121]], [[120]]])"
    by (rule expand_response_file [where form = Utf8])
      (simp_all add: commands_ok_def plain_token_def wf_str_def is_scalar_def)
  moreover have "normalize_native_signtool_argv [[112], [120]] = [[112], [120]]"
    "normalize_native_signtool_argv [[112], [121]] = [[112], [121]]"
    by code_simp+
  ultimately show ?thesis
    by (subst batch_reports_worst [where invs = "map ((#) [112]) [[[120]], [[121]], [[120]]]"
        and clis = "[counting_cli False, counting_cli True, counting_cli False]"])
      (simp_all add: run_counting outcome_of_def AZURE_SIGN_EXIT_ALL_FAILED_def
        AZURE_SIGN_EXIT_PARTIAL_SUCCESS_def max_def less_eq_batch_outcome_def)
qed

section \<open>Response files as batches\<close>

text \<open>One process per command line: the states are threaded, the exit codes combined.\<close>

fun run_separately :: "(str list \<Rightarrow> 's \<Rightarrow> 's \<times> i32) \<Rightarrow> str list list \<Rightarrow> 's \<Rightarrow> i32 \<Rightarrow> 's \<times> i32" where
  "run_separately process [] s acc = (s, acc)"
| "run_separately process (argv # argvs) s acc =
     (case process argv s of (s', c) \<Rightarrow> run_separately process argvs s' (combine_batch_exit_codes acc c))"

lemma combine_zero_code: "combine_batch_exit_codes acc (combine_batch_exit_codes 0 c) = combine_batch_exit_codes acc c"
  using outcome_of_code [of Clean] by (simp add: combine_is_max less_eq_batch_outcome_def max_def del: outcome_of_code)
    (simp add: less_eq_batch_outcome_def)

lemma run_one:
  assumes "parse (normalize_native_signtool_argv (executable # args)) = Inr cli"
  shows "run_tool_cli F parse emit B (executable # map escape_arg args) s
       = (fst (run_invocation emit B cli s), combine_batch_exit_codes 0 (snd (run_invocation emit B cli s)))"
  using assms by (simp add: run_tool_cli_def expand_escaped split: prod.split)

text \<open>C18: a response file is a batch. Starting the program with a file that holds command lines does what
  starting it once for each of these command lines does (each with its leading at signs doubled): the same
  effects in the same order, and an exit code that combines theirs. The command lines have to parse.\<close>

theorem response_file_is_batch:
  assumes "commands_ok blocks" "F path = Some (script_file form (response_text blocks))"
    and "path \<noteq> []" "hd path \<noteq> 64"
    and "\<forall>b\<in>set blocks. \<exists>cli. parse (normalize_native_signtool_argv (exe # b)) = Inr cli"
  shows "run_tool_cli F parse emit B [exe, 64 # path] s
       = run_separately (run_tool_cli F parse emit B) (map (\<lambda>b. exe # map escape_arg b) blocks) s 0"
proof -
  have "run_batch parse emit B (map ((#) exe) bs) s acc
      = run_separately (run_tool_cli F parse emit B) (map (\<lambda>b. exe # map escape_arg b) bs) s acc"
    if "\<forall>b\<in>set bs. \<exists>cli. parse (normalize_native_signtool_argv (exe # b)) = Inr cli" for bs s acc
    using that
  proof (induction bs arbitrary: s acc)
    case (Cons b bs)
    then obtain cli where "parse (normalize_native_signtool_argv (exe # b)) = Inr cli" by auto
    with Cons show ?case by (simp add: run_one combine_zero_code split: prod.split)
  qed simp
  then show ?thesis
    using assms(5) expand_response_file [OF assms(1) _ assms(3,4), where F = F and form = form] assms(2)
    by (simp add: run_tool_cli_def)
qed

theorem response_file_is_batch_witness:
  "run_tool_cli (\<lambda>p. if p = [97] then Some (script_file Utf8 (response_text [[[120]], [[121]]])) else None)
     (\<lambda>a. Inr (counting_cli (List.last a = [121]))) (\<lambda>_ s. s) counting_backends [[112], [64, 97]] 0
   = run_separately (run_tool_cli
       (\<lambda>p. if p = [97] then Some (script_file Utf8 (response_text [[[120]], [[121]]])) else None)
       (\<lambda>a. Inr (counting_cli (List.last a = [121]))) (\<lambda>_ s. s) counting_backends)
     (map (\<lambda>b. [112] # map escape_arg b) [[[120]], [[121]]]) 0 0"
  by (rule response_file_is_batch [where form = Utf8])
    (simp_all add: commands_ok_def plain_token_def wf_str_def is_scalar_def)

end
