(* ===== verification/Portable_Sign.thy ===== *)
theory Portable_Sign
  imports Response_Argv Verify_Dispatch "HOL-Library.Multiset"
begin

text \<open>
  Model of the batch half of \<^verbatim>\<open>src/portable_sign.rs\<close>: which targets a sign command has, how they are
  run one after the other or by a pool of threads, and what the command reports. Signing one
  target is a parameter, as are glob matching and canonical paths. The pool is a schedule: the
  order in which the targets are taken, any permutation of them.
\<close>

section \<open>Targets\<close>

text \<open>\<open>canonical\<close> is \<^verbatim>\<open>std::fs::canonicalize\<close>, \<open>None\<close> where it fails.\<close>

definition target_identity :: "(str \<Rightarrow> str option) \<Rightarrow> str \<Rightarrow> str" where
  "target_identity canonical path = (case canonical path of None \<Rightarrow> path | Some c \<Rightarrow> c)"

definition insert_sign_target ::
  "(str \<Rightarrow> str option) \<Rightarrow> str \<Rightarrow> str list \<times> str set \<Rightarrow> str list \<times> str set" where
  "insert_sign_target canonical path acc =
     (case acc of (out, seen) \<Rightarrow>
        let identity = target_identity canonical path in
        if identity \<notin> seen then (out @ [path], insert identity seen) else (out, seen))"

text \<open>\<open>glob\<close> is the pattern matcher: an error of the pattern, or its entries, each a path or an error.\<close>

type_synonym glob = "str \<Rightarrow> str res list res"

fun insert_entries ::
  "(str \<Rightarrow> str option) \<Rightarrow> str res list \<Rightarrow> str list \<times> str set \<Rightarrow> (str list \<times> str set) res" where
  "insert_entries canonical [] acc = Inr acc"
| "insert_entries canonical (entry # entries) acc =
     rbind entry (\<lambda>p. insert_entries canonical entries (insert_sign_target canonical p acc))"

definition is_pattern :: "str \<Rightarrow> bool" where
  "is_pattern p \<longleftrightarrow> 42 \<in> set p \<or> 63 \<in> set p"

definition expand_glob_pattern ::
  "glob \<Rightarrow> (str \<Rightarrow> str option) \<Rightarrow> str \<Rightarrow> str list \<times> str set \<Rightarrow> (str list \<times> str set) res" where
  "expand_glob_pattern G canonical raw acc =
     (let pattern = trim raw in
      if pattern = [] then Inr acc
      else if is_pattern pattern then rbind (G pattern) (\<lambda>entries. insert_entries canonical entries acc)
      else Inr (insert_sign_target canonical pattern acc))"

fun expand_list_lines ::
  "glob \<Rightarrow> (str \<Rightarrow> str option) \<Rightarrow> str list \<Rightarrow> str list \<times> str set \<Rightarrow> (str list \<times> str set) res" where
  "expand_list_lines G canonical [] acc = Inr acc"
| "expand_list_lines G canonical (line # ls) acc =
     (let t = trim line in
      if t = [] \<or> starts_with [35] t then expand_list_lines G canonical ls acc
      else rbind (expand_glob_pattern G canonical t acc) (expand_list_lines G canonical ls))"

fun expand_files ::
  "glob \<Rightarrow> (str \<Rightarrow> str option) \<Rightarrow> str list \<Rightarrow> str list \<times> str set \<Rightarrow> (str list \<times> str set) res" where
  "expand_files G canonical [] acc = Inr acc"
| "expand_files G canonical (p # ps) acc =
     (if is_pattern p then rbind (expand_glob_pattern G canonical p acc) (expand_files G canonical ps)
      else case acc of (out, seen) \<Rightarrow> expand_files G canonical ps (out @ [p], seen))"

text \<open>\<open>list_text\<close> is the content of the input file list, where the option is given.\<close>

definition expand_sign_targets ::
  "glob \<Rightarrow> (str \<Rightarrow> str option) \<Rightarrow> str res option \<Rightarrow> str list \<Rightarrow> str list res" where
  "expand_sign_targets G canonical list_text paths =
     rbind (case list_text of
              None \<Rightarrow> Inr ([], {})
            | Some txt \<Rightarrow> rbind txt (\<lambda>t. expand_list_lines G canonical (lines t) ([], {}))) (\<lambda>acc.
     rbind (expand_files G canonical paths acc) (\<lambda>(out, seen). Inr out))"

fun duplicate_from :: "(str \<Rightarrow> str option) \<Rightarrow> str list \<Rightarrow> str set \<Rightarrow> bool" where
  "duplicate_from canonical [] seen = False"
| "duplicate_from canonical (t # ts) seen =
     (target_identity canonical t \<in> seen \<or>
      duplicate_from canonical ts (insert (target_identity canonical t) seen))"

definition has_duplicate_target_identities :: "(str \<Rightarrow> str option) \<Rightarrow> str list \<Rightarrow> bool" where
  "has_duplicate_target_identities canonical targets = duplicate_from canonical targets {}"

section \<open>Exit codes\<close>

datatype SignExitCodes = Signtool | Azuresigntool

definition env_var_with_legacy :: "(string \<Rightarrow> str option) \<Rightarrow> string \<Rightarrow> string \<Rightarrow> str option" where
  "env_var_with_legacy env name legacy_name = (case env name of Some v \<Rightarrow> Some v | None \<Rightarrow> env legacy_name)"

definition resolved_sign_exit_codes :: "(string \<Rightarrow> str option) \<Rightarrow> SignExitCodes option \<Rightarrow> SignExitCodes" where
  "resolved_sign_exit_codes env option_value =
     (case option_value of
        Some x \<Rightarrow> x
      | None \<Rightarrow>
          (case env_var_with_legacy env ''PSIGN_EXIT_CODES'' ''SIGNTOOL_RS_EXIT_CODES'' of
             Some v \<Rightarrow>
               (let t = trim v in
                if eq_ignore_ascii_case t (lit ''azure'') \<or> eq_ignore_ascii_case t (lit ''azuresigntool'')
                then Azuresigntool else Signtool)
           | None \<Rightarrow> Signtool))"

fun batch_exit_code :: "SignExitCodes \<Rightarrow> nat \<Rightarrow> nat \<Rightarrow> i32" where
  "batch_exit_code Signtool successes failures = (if 0 < failures then 1 else 0)"
| "batch_exit_code Azuresigntool successes failures =
     (if 0 < successes \<and> failures = 0 then 0
      else if 0 < successes \<and> 0 < failures then AZURE_SIGN_EXIT_PARTIAL_SUCCESS
      else if successes = 0 \<and> 0 < failures then AZURE_SIGN_EXIT_ALL_FAILED
      else 0)"

section \<open>The batch\<close>

type_synonym 's job = "str \<Rightarrow> 's \<Rightarrow> 's \<times> str res"

text \<open>The rows in the order the targets are taken; each is signed on the state the ones before left.\<close>

fun run_schedule :: "'s job \<Rightarrow> str list \<Rightarrow> nat list \<Rightarrow> 's \<Rightarrow> 's \<times> (nat \<times> str res) list" where
  "run_schedule job targets [] s = (s, [])"
| "run_schedule job targets (idx # rest) s =
     (case job (targets ! idx) s of
        (s1, r) \<Rightarrow> (case run_schedule job targets rest s1 of (s2, rows) \<Rightarrow> (s2, (idx, r) # rows)))"

text \<open>\<open>show_error\<close> formats an error with its causes.\<close>

fun collect_rows :: "(error \<Rightarrow> str) \<Rightarrow> bool \<Rightarrow> str list \<Rightarrow> bool \<Rightarrow> str \<Rightarrow> nat \<Rightarrow> nat \<Rightarrow> (nat \<times> str res) list \<Rightarrow>
    (str \<times> nat \<times> nat) res" where
  "collect_rows show_error continue_on_error targets at_start combined successes failures [] =
     Inr (combined, successes, failures)"
| "collect_rows show_error continue_on_error targets at_start combined successes failures ((idx, r) # rows) =
     (let combined' = (if at_start then combined else combined @ [10]) in
      case r of
        Inr block \<Rightarrow>
          collect_rows show_error continue_on_error targets False (combined' @ block) (successes + 1) failures rows
      | Inl e \<Rightarrow>
          if continue_on_error then
            collect_rows show_error continue_on_error targets False
              (combined' @ lit ''Failed: '' @ targets ! idx @ lit '': '' @ show_error e @ [10])
              successes (failures + 1) rows
          else Inl e)"

definition execute_sign_batch :: "(error \<Rightarrow> str) \<Rightarrow> (str \<Rightarrow> str option) \<Rightarrow> SignExitCodes \<Rightarrow> bool \<Rightarrow> nat option \<Rightarrow>
    's job \<Rightarrow> str list \<Rightarrow> nat list \<Rightarrow> ('s, CommandOutput) eff" where
  "execute_sign_batch show_error canonical exit_style continue_on_error max_degree_parallelism sign_one
       targets pool_schedule s =
     (let parallel = (max_degree_parallelism \<noteq> Some 1 \<and> 1 < length targets \<and>
            \<not> has_duplicate_target_identities canonical targets);
          schedule = (if parallel then pool_schedule else [0..<length targets]) in
      case run_schedule sign_one targets schedule s of
        (s', rows) \<Rightarrow>
          (s', rbind (collect_rows show_error continue_on_error targets True [] 0 0 (sort_key fst rows))
             (\<lambda>(combined, successes, failures).
               Inr \<lparr>stdout = combined, exit_code = batch_exit_code exit_style successes failures\<rparr>)))"

section \<open>Independent jobs\<close>

text \<open>The contract that makes the order irrelevant: jobs on different identities commute.\<close>

locale independent_jobs =
  fixes ident :: "str \<Rightarrow> 'i" and job :: "'s job"
  assumes commute: "ident p \<noteq> ident q \<Longrightarrow>
    (case job p s of (s1, a) \<Rightarrow> case job q s1 of (s2, b) \<Rightarrow> (s2, a, b)) =
    (case job q s of (t1, b) \<Rightarrow> case job p t1 of (t2, a) \<Rightarrow> (t2, a, b))"
begin

definition same_run :: "'s \<times> (nat \<times> str res) list \<Rightarrow> 's \<times> (nat \<times> str res) list \<Rightarrow> bool" where
  "same_run x y \<longleftrightarrow> fst x = fst y \<and> mset (snd x) = mset (snd y)"

lemma same_run_trans: "same_run x y \<Longrightarrow> same_run y z \<Longrightarrow> same_run x z"
  by (simp add: same_run_def)

lemma same_run_Cons:
  assumes "\<And>s. same_run (run_schedule job ts is s) (run_schedule job ts js s)"
  shows "same_run (run_schedule job ts (i # is) s) (run_schedule job ts (i # js) s)"
proof -
  obtain s1 r where r: "job (ts ! i) s = (s1, r)" by fastforce
  show ?thesis using assms [of s1] by (auto simp: same_run_def r split: prod.splits)
qed

lemma swap_front:
  assumes "ident (ts ! i) \<noteq> ident (ts ! j)"
  shows "same_run (run_schedule job ts (i # j # is) s) (run_schedule job ts (j # i # is) s)"
  using commute [OF assms, of s] by (auto simp: same_run_def split: prod.splits)

lemma move_front:
  assumes "\<forall>j\<in>set a. ident (ts ! j) \<noteq> ident (ts ! i)"
  shows "same_run (run_schedule job ts (a @ i # b) s) (run_schedule job ts (i # a @ b) s)"
  using assms
proof (induction a arbitrary: s)
  case Nil
  show ?case by (simp add: same_run_def)
next
  case (Cons j a)
  then have "same_run (run_schedule job ts (j # a @ i # b) s) (run_schedule job ts (j # i # a @ b) s)"
    by (intro same_run_Cons) simp
  moreover have "same_run (run_schedule job ts (j # i # a @ b) s) (run_schedule job ts (i # j # a @ b) s)"
    using Cons.prems by (intro swap_front) simp
  ultimately show ?case using same_run_trans by simp
qed

lemma schedule_irrelevant:
  "mset is = mset js \<Longrightarrow> distinct (map (\<lambda>i. ident (ts ! i)) is) \<Longrightarrow>
   same_run (run_schedule job ts js s) (run_schedule job ts is s)"
proof (induction "is" arbitrary: js s)
  case (Cons i rest)
  then have "i \<in> set js" by (metis list.set_intros(1) set_mset_mset)
  then obtain a b where js: "js = a @ i # b" by (meson split_list)
  with Cons.prems(1) have ab: "mset rest = mset (a @ b)" by simp
  have "\<forall>j\<in>set a. ident (ts ! j) \<noteq> ident (ts ! i)"
  proof
    fix j assume "j \<in> set a"
    then have "j \<in> set rest" using ab by (metis Un_iff set_append set_mset_mset)
    then show "ident (ts ! j) \<noteq> ident (ts ! i)" using Cons.prems(2) by (force simp: image_iff)
  qed
  then have "same_run (run_schedule job ts js s) (run_schedule job ts (i # a @ b) s)"
    unfolding js by (rule move_front)
  moreover have "same_run (run_schedule job ts (i # a @ b) s) (run_schedule job ts (i # rest) s)"
    using Cons.IH [OF ab] Cons.prems(2) by (intro same_run_Cons) simp
  ultimately show ?case by (rule same_run_trans)
qed (simp add: same_run_def)

end

text \<open>
  Signing in place: the file a target names, by its identity, is read and written; nothing else is.
  \<open>sign_bytes\<close> is the format's signer with the skip of signed files: new content and report.
\<close>

definition sign_in_place :: "(str \<Rightarrow> str option) \<Rightarrow> (str \<Rightarrow> u8 list option \<Rightarrow> u8 list option \<times> str res) \<Rightarrow>
    file_store job" where
  "sign_in_place canonical sign_bytes target fs =
     (let k = target_identity canonical target in
      case sign_bytes target (fs k) of (content, r) \<Rightarrow> (fs(k := content), r))"

interpretation in_place: independent_jobs "target_identity canonical" "sign_in_place canonical sign_bytes"
  for canonical sign_bytes
  by unfold_locales (auto simp: sign_in_place_def Let_def split: prod.splits)

section \<open>Properties\<close>

lemma duplicate_from_iff:
  "duplicate_from canonical ts seen \<longleftrightarrow>
   \<not> (distinct (map (target_identity canonical) ts) \<and> set (map (target_identity canonical) ts) \<inter> seen = {})"
  by (induction ts arbitrary: seen) auto

lemma duplicates_iff:
  "has_duplicate_target_identities canonical ts \<longleftrightarrow> \<not> distinct (map (target_identity canonical) ts)"
  by (simp add: has_duplicate_target_identities_def duplicate_from_iff)

lemma schedule_rows: "map fst (snd (run_schedule job ts is s)) = is"
  by (induction "is" arbitrary: s) (simp_all add: case_prod_beta)

lemma sort_rows_unique:
  fixes xs ys :: "(nat \<times> 'b) list"
  assumes "mset xs = mset ys" "distinct (map fst xs)"
  shows "sort_key fst xs = sort_key fst ys"
  using assms by (intro sort_key_inj_key_eq) (simp_all add: distinct_map)



text \<open>The counts of a complete report.\<close>

lemma collect_counts:
  "collect_rows show_error coe ts at_start out m n rows = Inr (out', m', n') \<Longrightarrow>
   m' = m + length (filter (\<lambda>x. is_ok (snd x)) rows) \<and> n' = n + length (filter (\<lambda>x. \<not> is_ok (snd x)) rows)"
  by (induction show_error coe ts at_start out m n rows rule: collect_rows.induct)
    (auto simp: Let_def simp del: lit_simps split: sum.splits if_splits)

lemma exit_code_zero: "batch_exit_code style m n = 0 \<longleftrightarrow> n = 0"
  by (cases style) (auto simp: AZURE_SIGN_EXIT_PARTIAL_SUCCESS_def AZURE_SIGN_EXIT_ALL_FAILED_def)

text \<open>success means that everything was signed. Whatever the exit code style, the schedule and the
  setting for errors, a sign command that ends with exit code zero has signed (or skipped as signed)
  every target without an error.\<close>

theorem sign_batch_zero_exit:
  assumes "execute_sign_batch show_error canonical style coe degree sign_one targets schedule s = (s', Inr out)"
    and "exit_code out = 0" "mset schedule = mset [0..<length targets]"
  shows "\<exists>order rows. run_schedule sign_one targets order s = (s', rows) \<and>
    set order = {..<length targets} \<and> (\<forall>row\<in>set rows. is_ok (snd row))"
proof -
  define order where "order = (if degree \<noteq> Some 1 \<and> 1 < length targets \<and>
    \<not> has_duplicate_target_identities canonical targets then schedule else [0..<length targets])"
  then have order: "order = schedule \<or> order = [0..<length targets]" by (simp split: if_split)
  obtain s1 rows where rows: "run_schedule sign_one targets order s = (s1, rows)" by fastforce
  have "(s1, rbind (collect_rows show_error coe targets True [] 0 0 (sort_key fst rows))
         (\<lambda>(combined, successes, failures).
           Inr \<lparr>stdout = combined, exit_code = batch_exit_code style successes failures\<rparr>)) = (s', Inr out)"
    using assms(1) rows unfolding execute_sign_batch_def Let_def order_def by simp
  then obtain report m n where c: "collect_rows show_error coe targets True [] 0 0 (sort_key fst rows) = Inr (report, m, n)"
    "exit_code out = batch_exit_code style m n" "s1 = s'"
    by (auto simp: res_simps)
  have "n = 0" using c(2) assms(2) by (simp add: exit_code_zero)
  with collect_counts [OF c(1)] have "\<forall>row\<in>set (sort_key fst rows). is_ok (snd row)"
    by (auto simp: filter_empty_conv)
  moreover have "set order = {..<length targets}"
    using order mset_eq_setD [OF assms(3)] by (elim disjE) (simp_all add: lessThan_atLeast0)
  ultimately show ?thesis using rows c(3) by auto
qed

theorem sign_batch_zero_exit_witness:
  "\<exists>order rows. run_schedule (sign_in_place Some (\<lambda>p c. (Some [1], Inr p))) [[97], [98]] order (\<lambda>_. None)
       = (((\<lambda>_. None)([98] := Some [1]))([97] := Some [1]), rows) \<and>
     set order = {..<length [[97], [98 :: nat]]} \<and> (\<forall>row\<in>set rows. is_ok (snd row))"
  by (rule sign_batch_zero_exit [where show_error = "\<lambda>_. []" and canonical = Some and style = Signtool
        and coe = False and degree = None and schedule = "[1, 0]" and
        out = "\<lparr>stdout = [97, 10, 98], exit_code = 0\<rparr>"])
    (simp_all add: execute_sign_batch_def duplicates_iff target_identity_def sign_in_place_def Let_def upt_rec
      add_mset_commute)

text \<open>Without the option to continue after errors the remaining targets are signed all the same: the
  setting only decides what is reported.\<close>

lemma sign_batch_never_stops:
  "fst (execute_sign_batch show_error canonical style True degree sign_one targets schedule s)
   = fst (execute_sign_batch show_error canonical style False degree sign_one targets schedule s)"
  by (simp add: execute_sign_batch_def Let_def case_prod_beta)

section \<open>Targets of patterns\<close>

text \<open>What was collected from patterns is free of duplicates, and \<open>seen\<close> is what it names.\<close>

definition targets_ok :: "(str \<Rightarrow> str option) \<Rightarrow> str list \<times> str set \<Rightarrow> bool" where
  "targets_ok canonical acc \<longleftrightarrow> distinct (map (target_identity canonical) (fst acc)) \<and>
     snd acc = target_identity canonical ` set (fst acc)"

lemma insert_target_ok: "targets_ok canonical acc \<Longrightarrow> targets_ok canonical (insert_sign_target canonical p acc)"
  by (cases acc) (auto simp: targets_ok_def insert_sign_target_def Let_def)

lemma insert_entries_ok:
  "insert_entries canonical es acc = Inr acc' \<Longrightarrow> targets_ok canonical acc \<Longrightarrow> targets_ok canonical acc'"
proof (induction es arbitrary: acc)
  case (Cons e es)
  then show ?case by (cases e) (simp_all, metis insert_target_ok)
qed simp

lemma expand_glob_ok:
  assumes "expand_glob_pattern G canonical p acc = Inr acc'" "targets_ok canonical acc"
  shows "targets_ok canonical acc'"
proof (cases "G (trim p)")
  case (Inl e)
  then show ?thesis using assms insert_target_ok
    by (simp add: expand_glob_pattern_def Let_def split: if_splits) metis+
next
  case (Inr entries)
  then show ?thesis using assms insert_target_ok insert_entries_ok
    by (simp add: expand_glob_pattern_def Let_def split: if_splits) metis+
qed

lemma expand_list_ok:
  "expand_list_lines G canonical ls acc = Inr acc' \<Longrightarrow> targets_ok canonical acc \<Longrightarrow> targets_ok canonical acc'"
proof (induction ls arbitrary: acc)
  case (Cons l ls)
  show ?case
  proof (cases "trim l = [] \<or> starts_with [35] (trim l)")
    case True
    then show ?thesis using Cons by (simp add: Let_def)
  next
    case False
    then obtain acc1 where "expand_glob_pattern G canonical (trim l) acc = Inr acc1"
      "expand_list_lines G canonical ls acc1 = Inr acc'"
      using Cons.prems(1) by (simp add: Let_def res_simps) metis
    then show ?thesis using Cons.IH expand_glob_ok Cons.prems(2) by metis
  qed
qed simp

lemma expand_patterns_ok:
  "expand_files G canonical ps acc = Inr acc' \<Longrightarrow> \<forall>p\<in>set ps. is_pattern p \<Longrightarrow> targets_ok canonical acc \<Longrightarrow>
   targets_ok canonical acc'"
proof (induction ps arbitrary: acc)
  case (Cons p ps)
  then obtain acc1 where "expand_glob_pattern G canonical p acc = Inr acc1"
    "expand_files G canonical ps acc1 = Inr acc'"
    by (simp add: res_simps) metis
  then show ?case using Cons expand_glob_ok by (metis list.set_intros(2))
qed simp

text \<open>Patterns name every file once. The targets collected from an input file list and from patterns
  on the command line have pairwise different identities, so a file that several of them match is signed
  once and the batch may run in parallel.\<close>

theorem pattern_targets_distinct:
  assumes "expand_sign_targets G canonical list_text paths = Inr targets" "\<forall>p\<in>set paths. is_pattern p"
  shows "\<not> has_duplicate_target_identities canonical targets"
proof -
  have "targets_ok canonical ([], {})" by (simp add: targets_ok_def)
  then obtain acc seen where "targets_ok canonical acc" "expand_files G canonical paths acc = Inr (targets, seen)"
    using assms(1) expand_list_ok
    by (auto simp: expand_sign_targets_def res_simps split: option.splits) blast+
  then have "targets_ok canonical (targets, seen)" using expand_patterns_ok assms(2) by blast
  then show ?thesis by (simp add: targets_ok_def duplicates_iff)
qed

theorem pattern_targets_distinct_witness:
  "\<not> has_duplicate_target_identities Some [[97], [98]]"
proof (rule pattern_targets_distinct)
  show "expand_sign_targets (\<lambda>_. Inr [Inr [97], Inr [98], Inr [97]]) Some None [[42]] = Inr [[97], [98]]"
    by (simp add: expand_sign_targets_def is_pattern_def expand_glob_pattern_def trim_id trimmed_def
      is_whitespace_def insert_sign_target_def target_identity_def)
qed (simp add: is_pattern_def)

end
