(* ===== verification/Online_Der.thy ===== *)
theory Online_Der
  imports Der_Length Utf
begin

text \<open>
  Model of the DER half of \<^verbatim>\<open>online.rs\<close> of the trust crate: the length and element readers on a slice
  with a position, the writers, and what they are used for: certificate revocation lists, OCSP responses
  and requests, and the addresses in certificate extensions. The DER time decoder and the certificate
  library are parameters.
\<close>

section \<open>Elements\<close>

text \<open>An error under a context prints as the context.\<close>

definition with_context :: "'a res \<Rightarrow> string \<Rightarrow> 'a res" where
  "with_context r ctx = (case r of Inl (Anyhow _) \<Rightarrow> bail ctx | _ \<Rightarrow> r)"

lemma with_context_Inr [simp]: "with_context (Inr x) ctx = Inr x"
  by (simp add: with_context_def)

lemma with_context_Inr_iff [res_simps]: "with_context r ctx = Inr x \<longleftrightarrow> r = Inr x"
  by (cases r) (auto simp: with_context_def split: error.splits)

definition byte_at :: "u8 list \<Rightarrow> nat \<Rightarrow> u8 option" where
  "byte_at input pos = (if pos < length input then Some (input ! pos) else None)"

fun read_len_octets :: "u8 list \<Rightarrow> nat \<Rightarrow> nat \<Rightarrow> nat \<Rightarrow> (nat \<times> nat) res" where
  "read_len_octets input 0 pos len = Inr (pos, len)"
| "read_len_octets input (Suc n) pos len =
     rbind (ok_or (byte_at input pos) ''truncated length'') (\<lambda>b.
     read_len_octets input n (pos + 1) (256 * len + unat b))"

definition read_len :: "u8 list \<Rightarrow> nat \<Rightarrow> (nat \<times> nat) res" where
  "read_len input pos =
     rbind (ok_or (byte_at input pos) ''missing length'') (\<lambda>first.
     if unat first < 0x80 then Inr (pos + 1, unat first)
     else
       let n = unat first - 0x80 in
       if n = 0 \<or> 3 < n then bail ''unsupported DER length form''
       else read_len_octets input n (pos + 1) 0)"

definition read_tlv :: "u8 list \<Rightarrow> nat \<Rightarrow> (u8 list \<times> nat) res" where
  "read_tlv input pos =
     (if length input \<le> pos then bail ''missing TLV tag''
      else
        rbind (read_len input (pos + 1)) (\<lambda>(body_start, len).
        rbind (ok_or (checked_add_usize body_start len) ''TLV length overflow'') (\<lambda>end_pos.
        if length input < end_pos then bail ''TLV length exceeds input''
        else Inr (sub input pos (end_pos - pos), end_pos))))"

definition expect_tlv :: "u8 list \<Rightarrow> u8 \<Rightarrow> u8 list res" where
  "expect_tlv input tag =
     (if byte_at input 0 \<noteq> Some tag then bail ''unexpected tag''
      else
        rbind (read_len input 1) (\<lambda>(body_start, len).
        rbind (ok_or (checked_add_usize body_start len) ''TLV length overflow'') (\<lambda>end_pos.
        if end_pos \<noteq> length input then bail ''TLV trailing bytes''
        else slice_idx input body_start end_pos)))"

definition push_der_len :: "nat \<Rightarrow> u8 list" where
  "push_der_len len =
     (if len < 0x80 then [word_of_nat len]
      else if len \<le> 0xff then [0x81, word_of_nat len]
      else [0x82, word_of_nat (len div 256), word_of_nat len])"

definition push_der_tlv :: "u8 \<Rightarrow> u8 list \<Rightarrow> u8 list" where
  "push_der_tlv tag body = tag # push_der_len (length body) @ body"

definition push_der_sequence :: "u8 list \<Rightarrow> u8 list" where
  "push_der_sequence body = push_der_tlv 0x30 body"

section \<open>Bounds and round trip of the readers\<close>

text \<open>A slice is at most \<^verbatim>\<open>isize::MAX\<close> bytes, and a length of three octets cannot overflow.\<close>

definition in_memory :: "'a list \<Rightarrow> bool" where "in_memory xs \<longleftrightarrow> length xs < 2 ^ 63"

lemma read_len_octets_bounds:
  "read_len_octets input n pos len = Inr (p, l) \<Longrightarrow> pos \<le> length input \<Longrightarrow> p = pos + n \<and> p \<le> length input"
  by (induction input n pos len rule: read_len_octets.induct)
    (auto simp: res_simps byte_at_def split: if_splits)

lemma read_len_octets_value:
  "read_len_octets input n pos len = Inr (p, l) \<Longrightarrow> l < 256 ^ n * (len + 1)"
proof (induction input n pos len rule: read_len_octets.induct)
  case (2 input n pos len)
  then obtain b where "read_len_octets input n (pos + 1) (256 * len + unat b) = Inr (p, l)"
    "byte_at input pos = Some b" by (auto simp: res_simps)
  with 2 have "l < 256 ^ n * (256 * len + unat b + 1)" by simp
  also have "\<dots> \<le> 256 ^ n * (256 * (len + 1))" using u8_bound [of b] by (intro mult_le_mono2) simp
  finally show ?case by (simp add: algebra_simps)
qed simp

lemma read_len_bounds:
  assumes "read_len input pos = Inr (p, l)"
  shows "pos < p" "p \<le> pos + 4" "p \<le> length input" "l < 2 ^ 24"
proof -
  obtain b where b: "byte_at input pos = Some b"
    "(if unat b < 128 then Inr (pos + 1, unat b)
     else if unat b - 128 = 0 \<or> 3 < unat b - 128 then bail ''unsupported DER length form''
     else read_len_octets input (unat b - 128) (pos + 1) 0) = Inr (p, l)"
    using assms unfolding read_len_def Let_def by (cases "byte_at input pos") auto
  have pos: "pos < length input" using b(1) by (simp add: byte_at_def split: if_splits)
  have "pos < p \<and> p \<le> pos + 4 \<and> p \<le> length input \<and> l < 2 ^ 24"
  proof (cases "unat b < 128")
    case True
    then show ?thesis using b(2) pos by auto
  next
    case False
    then have n: "unat b - 128 \<le> 3" "unat b - 128 \<noteq> 0"
      and r: "read_len_octets input (unat b - 128) (pos + 1) 0 = Inr (p, l)"
      using b(2) by (auto split: if_splits)
    have "l < 256 ^ (unat b - 128)" using read_len_octets_value [OF r] by simp
    also have "\<dots> \<le> 256 ^ 3" using n(1) by (rule power_increasing) simp
    finally have "l < 2 ^ 24" by simp
    then show ?thesis using read_len_octets_bounds [OF r] pos n by auto
  qed
  then show "pos < p" "p \<le> pos + 4" "p \<le> length input" "l < 2 ^ 24" by simp_all
qed


lemma read_tlv_grows: "read_tlv input pos = Inr (element, pos') \<Longrightarrow> pos < pos' \<and> pos' \<le> length input"
proof -
  assume "read_tlv input pos = Inr (element, pos')"
  then obtain b l where "read_len input (pos + 1) = Inr (b, l)" "pos' = b + l" "pos' \<le> length input"
    by (auto simp: read_tlv_def res_simps checked_add_usize_def split: if_splits)
  moreover from read_len_bounds [OF this(1)] have "pos + 2 \<le> b" by simp
  ultimately show ?thesis by simp
qed

lemma read_len_octets_shift:
  "read_len_octets input n (p + pos) len =
   (case read_len_octets (drop p input) n pos len of Inl e \<Rightarrow> Inl e | Inr (q, l) \<Rightarrow> Inr (p + q, l))"
proof (induction n arbitrary: pos len)
  case (Suc n)
  have b: "byte_at (drop p input) pos = byte_at input (p + pos)" by (auto simp: byte_at_def)
  show ?case using Suc.IH [of "Suc pos"] by (cases "byte_at input (p + pos)") (simp_all add: b)
qed simp

lemma read_len_shift:
  "read_len input (p + pos) =
   (case read_len (drop p input) pos of Inl e \<Rightarrow> Inl e | Inr (q, l) \<Rightarrow> Inr (p + q, l))"
proof -
  have b: "byte_at (drop p input) pos = byte_at input (p + pos)" by (auto simp: byte_at_def)
  show ?thesis
    using read_len_octets_shift [of input _ p "Suc pos" 0]
    by (cases "byte_at input (p + pos)") (simp_all add: read_len_def b Let_def)
qed

lemma read_len_push:
  assumes "len < 65536"
  shows "read_len (push_der_len len @ rest) 0 = Inr (length (push_der_len len), len)"
proof -
  consider "len < 0x80" | "0x80 \<le> len" "len \<le> 0xff" | "0xff < len" by linarith
  then show ?thesis
  proof cases
    case 1
    then show ?thesis by (simp add: read_len_def push_der_len_def byte_at_def)
  next
    case 2
    then show ?thesis by (simp add: read_len_def push_der_len_def byte_at_def)
  next
    case 3
    have two: "read_len_octets input 2 1 0 = rbind (ok_or (byte_at input 1) ''truncated length'') (\<lambda>a.
      rbind (ok_or (byte_at input 2) ''truncated length'') (\<lambda>b. Inr (3, 256 * unat a + unat b)))" for input
      by (simp add: numeral_eq_Suc)
    from 3 assms two show ?thesis
      unfolding read_len_def Let_def by (simp add: push_der_len_def byte_at_def unat_of_nat)
  qed
qed

interpretation online_len: der_length 65536 push_der_len
  "\<lambda>bs. case read_len bs 0 of Inl _ \<Rightarrow> None | Inr (p, l) \<Rightarrow> Some (l, p)"
  by unfold_locales (simp add: read_len_push, simp add: push_der_len_def)

lemma push_der_tlv_tlv: "push_der_tlv tag body = online_len.tlv tag body"
  by (simp add: push_der_tlv_def online_len.tlv_def)

section \<open>Signature algorithms\<close>

datatype RsaPkcs1v15Hash = Rsa_Sha256 | Rsa_Sha384 | Rsa_Sha512

definition PKCS1_OID_PREFIX :: "u8 list" where
  "PKCS1_OID_PREFIX = [0x2a, 0x86, 0x48, 0x86, 0xf7, 0x0d, 0x01, 0x01]"

definition res_ok :: "'a res \<Rightarrow> 'a option" where
  "res_ok r = (case r of Inl _ \<Rightarrow> None | Inr x \<Rightarrow> Some x)"

lemma res_ok_simps [simp]: "res_ok (Inr x) = Some x" "res_ok (Inl e) = None"
  by (simp_all add: res_ok_def)

definition from_algorithm_identifier_tlv :: "u8 list \<Rightarrow> RsaPkcs1v15Hash option" where
  "from_algorithm_identifier_tlv tlv =
     obind (res_ok (expect_tlv tlv 0x30)) (\<lambda>body.
     obind (res_ok (read_tlv body 0)) (\<lambda>(element, pos).
     obind (res_ok (expect_tlv element 0x06)) (\<lambda>oid.
     if pos \<noteq> length body \<and> drop pos body \<noteq> [0x05, 0x00] then None
     else if take 8 oid \<noteq> PKCS1_OID_PREFIX then None
     else if drop 8 oid = [0x0b] then Some Rsa_Sha256
     else if drop 8 oid = [0x0c] then Some Rsa_Sha384
     else if drop 8 oid = [0x0d] then Some Rsa_Sha512
     else None)))"

section \<open>Revocation lists\<close>

type_synonym utc_date = "nat \<times> nat \<times> nat"

record ParsedCrl =
  crl_tbs_tlv :: "u8 list"
  crl_signature_hash :: RsaPkcs1v15Hash
  crl_signature :: "u8 list"
  crl_this_update :: utc_date
  crl_next_update :: utc_date
  revoked_serial_tlvs :: "u8 list list"

text \<open>\<open>time\<close> is \<^verbatim>\<open>parse_der_time_tlv\<close>: the time decoder of the DER library, cut to a date.\<close>

function revoked_loop :: "u8 list \<Rightarrow> nat \<Rightarrow> u8 list list \<Rightarrow> u8 list list res" where
  "revoked_loop revoked rpos serials =
     (if rpos < length revoked then
        rbind (read_tlv revoked rpos) (\<lambda>(element, rpos').
        rbind (with_context (expect_tlv element 0x30) ''RevokedCertificate'') (\<lambda>entry.
        rbind (with_context (read_tlv entry 0) ''RevokedCertificate.userCertificate'') (\<lambda>(serial, _).
        revoked_loop revoked rpos' (serials @ [serial]))))
      else Inr serials)"
  by pat_completeness auto
termination
  by (relation "measure (\<lambda>(revoked, rpos, _). length revoked - rpos)")
    (auto dest!: read_tlv_grows)

declare revoked_loop.simps [simp del]

definition parse_tbs_cert_list ::
  "(u8 list \<Rightarrow> utc_date res) \<Rightarrow> u8 list \<Rightarrow> u8 list \<Rightarrow> (utc_date \<times> utc_date \<times> u8 list list) res" where
  "parse_tbs_cert_list time signature_algorithm_tlv tbs_tlv =
     rbind (with_context (expect_tlv tbs_tlv 0x30) ''TBSCertList'') (\<lambda>tbs.
     rbind (if byte_at tbs 0 = Some 0x02 then
              rbind (with_context (read_tlv tbs 0) ''TBSCertList.version'') (\<lambda>(_, pos). Inr pos)
            else Inr 0) (\<lambda>pos.
     rbind (with_context (read_tlv tbs pos) ''TBSCertList.signature'') (\<lambda>(alg, pos).
     if alg \<noteq> signature_algorithm_tlv then bail ''CRL signatureAlgorithm does not match TBSCertList.signature''
     else
       rbind (with_context (read_tlv tbs pos) ''TBSCertList.issuer'') (\<lambda>(_, pos).
       rbind (with_context (read_tlv tbs pos) ''TBSCertList.thisUpdate'') (\<lambda>(t, pos).
       rbind (with_context (time t) ''TBSCertList.thisUpdate'') (\<lambda>this_upd.
       if byte_at tbs pos = Some 0x17 \<or> byte_at tbs pos = Some 0x18 then
         rbind (with_context (read_tlv tbs pos) ''TBSCertList.nextUpdate'') (\<lambda>(t, pos).
         rbind (with_context (time t) ''TBSCertList.nextUpdate'') (\<lambda>next_upd.
         rbind (if byte_at tbs pos = Some 0x30 then
                  rbind (read_tlv tbs pos) (\<lambda>(r, _).
                  rbind (with_context (expect_tlv r 0x30) ''TBSCertList.revokedCertificates'') (\<lambda>revoked.
                  revoked_loop revoked 0 []))
                else Inr []) (\<lambda>serials.
         Inr (this_upd, next_upd, serials))))
       else bail ''TBSCertList.nextUpdate is required for revocation freshness''))))))"

definition parse_certificate_list_der :: "(u8 list \<Rightarrow> utc_date res) \<Rightarrow> u8 list \<Rightarrow> ParsedCrl res" where
  "parse_certificate_list_der time input =
     rbind (with_context (expect_tlv input 0x30) ''CertificateList'') (\<lambda>outer.
     rbind (with_context (read_tlv outer 0) ''CertificateList.tbsCertList'') (\<lambda>(tbs_tlv, pos).
     rbind (with_context (read_tlv outer pos) ''CertificateList.signatureAlgorithm'') (\<lambda>(signature_algorithm_tlv, pos).
     rbind (with_context (read_tlv outer pos) ''CertificateList.signatureValue'') (\<lambda>(signature_tlv, pos).
     if pos \<noteq> length outer then bail ''CertificateList has trailing fields''
     else
       rbind (ok_or (from_algorithm_identifier_tlv signature_algorithm_tlv)
         ''unsupported CRL signature algorithm'') (\<lambda>signature_hash.
       rbind (with_context (expect_tlv signature_tlv 0x03) ''CRL signature BIT STRING'') (\<lambda>signature_body.
       if byte_at signature_body 0 \<noteq> Some 0 then bail ''CRL signature BIT STRING has unused bits''
       else
         rbind (parse_tbs_cert_list time signature_algorithm_tlv tbs_tlv) (\<lambda>(this_upd, next_upd, serials).
         Inr \<lparr>crl_tbs_tlv = tbs_tlv, crl_signature_hash = signature_hash, crl_signature = drop 1 signature_body,
           crl_this_update = this_upd, crl_next_update = next_upd, revoked_serial_tlvs = serials\<rparr>)))))))"

section \<open>Reading what was written\<close>

text \<open>An element that the writers can produce, and the cursor over a concatenation of elements.\<close>

definition element :: "u8 list \<Rightarrow> bool" where
  "element e \<longleftrightarrow> (\<exists>t c. e = push_der_tlv t c \<and> length c < 65536)"

lemma elementI [intro]: "length c < 65536 \<Longrightarrow> element (push_der_tlv t c)"
  by (auto simp: element_def)

lemma length_push_der_tlv: "length (push_der_tlv t c) = 1 + length (push_der_len (length c)) + length c"
  by (simp add: push_der_tlv_def)

lemma push_der_len_nonempty [simp]: "push_der_len n \<noteq> []"
  by (simp add: push_der_len_def)

lemma push_der_tlv_Cons: "\<exists>r. push_der_tlv t c = t # r" by (simp add: push_der_tlv_def)

lemma length_push_der_len: "length (push_der_len n) \<le> 3"
  by (simp add: push_der_len_def)

lemma expect_tlv_push:
  assumes "length c < 65536"
  shows "expect_tlv (push_der_tlv t c) t = Inr c"
proof -
  have "read_len (push_der_tlv t c) (1 + 0) = Inr (1 + length (push_der_len (length c)), length c)"
    using read_len_push [OF assms, of c] by (subst read_len_shift) (simp add: push_der_tlv_def)
  moreover have "byte_at (push_der_tlv t c) 0 = Some t" by (simp add: byte_at_def push_der_tlv_def)
  ultimately show ?thesis using assms length_push_der_len [of "length c"]
    by (simp add: expect_tlv_def checked_add_usize_def length_push_der_tlv slice_simps)
      (simp add: push_der_tlv_def sub_def)
qed

lemma expect_sequence: "length c < 65536 \<Longrightarrow> expect_tlv (push_der_sequence c) 0x30 = Inr c"
  by (simp add: push_der_sequence_def expect_tlv_push)

lemma read_at:
  assumes "drop pos input = e @ rest" "element e" "in_memory input"
  shows "read_tlv input pos = Inr (e, pos + length e)"
proof -
  obtain t c where e: "e = push_der_tlv t c" "length c < 65536" using assms(2) by (auto simp: element_def)
  let ?l = "length (push_der_len (length c))"
  have pos: "pos < length input" using assms(1) e(1) by (cases "pos < length input") (auto simp: push_der_tlv_def)
  have d: "drop (pos + 1) input = push_der_len (length c) @ c @ rest"
    using arg_cong [OF assms(1), of "drop 1"] e(1) by (simp add: push_der_tlv_def)
  have "read_len input (pos + 1 + 0) = Inr (pos + 1 + ?l, length c)"
    using read_len_push [OF e(2), of "c @ rest"] by (simp only: read_len_shift d) simp
  moreover have "length input = pos + length e + length rest"
    using arg_cong [OF assms(1), of length] pos by simp
  moreover have "sub input pos (length e) = e" by (simp add: sub_def assms(1))
  ultimately show ?thesis using assms(3) e(1) pos
    by (simp add: read_tlv_def checked_add_usize_def in_memory_def length_push_der_tlv add.assoc)
qed

lemma cursor_step: "drop pos xs = a @ b \<Longrightarrow> drop (pos + length a) xs = b"
  by (metis append_eq_conv_conj add.commute drop_drop)

lemma byte_cursor: "drop pos xs = b # r \<Longrightarrow> byte_at xs pos = Some b"
  by (auto simp: byte_at_def nth_via_drop) (metis drop_all list.distinct(1) not_le)

lemma byte_element: "drop pos xs = push_der_tlv t c @ r \<Longrightarrow> byte_at xs pos = Some t"
  by (rule byte_cursor) (simp add: push_der_tlv_def)

lemma byte_sequence: "drop pos xs = push_der_sequence c @ r \<Longrightarrow> byte_at xs pos = Some 0x30"
  unfolding push_der_sequence_def by (rule byte_element)

lemma byte_end: "drop pos xs = [] \<Longrightarrow> byte_at xs pos = None"
  by (simp add: byte_at_def)

lemma in_memory_small: "length xs < 65536 \<Longrightarrow> in_memory xs" by (simp add: in_memory_def)

section \<open>A revocation list reads back\<close>

text \<open>A version 2 list as a certificate authority writes it; \<open>entries\<close> are serial numbers, each with the
  fields that follow it.\<close>

definition crl_entries :: "(u8 list \<times> u8 list) list \<Rightarrow> u8 list" where
  "crl_entries entries = concat (map (\<lambda>(serial, rest). push_der_sequence (serial @ rest)) entries)"

definition tbs_cert_list ::
  "u8 list \<Rightarrow> u8 list \<Rightarrow> u8 list \<Rightarrow> u8 list \<Rightarrow> (u8 list \<times> u8 list) list \<Rightarrow> u8 list \<Rightarrow> u8 list" where
  "tbs_cert_list alg issuer this_t next_t entries ext =
     push_der_sequence (push_der_tlv 0x02 [1] @ alg @ issuer @ this_t @ next_t @
       push_der_sequence (crl_entries entries) @ ext)"

definition certificate_list :: "u8 list \<Rightarrow> u8 list \<Rightarrow> u8 list \<Rightarrow> u8 list" where
  "certificate_list tbs alg signature =
     push_der_sequence (tbs @ alg @ push_der_tlv 0x03 (0 # signature))"

lemma length_push_der_sequence: "length c \<le> length (push_der_sequence c)"
  by (simp add: push_der_sequence_def push_der_tlv_def)

lemma element_sequence [intro]: "length c < 65536 \<Longrightarrow> element (push_der_sequence c)"
  by (auto simp: push_der_sequence_def)

lemma revoked_loop_entries:
  assumes "drop pos revoked = crl_entries entries" "in_memory revoked"
    and "\<forall>(serial, rest)\<in>set entries. element serial \<and> length serial + length rest < 65536"
  shows "revoked_loop revoked pos acc = Inr (acc @ map fst entries)"
  using assms
proof (induction entries arbitrary: pos acc)
  case Nil
  then have "length revoked \<le> pos" by (simp add: crl_entries_def)
  then show ?case by (simp add: revoked_loop.simps)
next
  case (Cons e entries)
  obtain serial rest where e: "e = (serial, rest)" by (cases e)
  have ok: "element serial" "length (serial @ rest) < 65536" using Cons.prems(3) e by auto
  let ?x = "push_der_sequence (serial @ rest)"
  have d: "drop pos revoked = ?x @ crl_entries entries"
    using Cons.prems(1) e by (simp add: crl_entries_def)
  have pos: "pos < length revoked"
    using d by (cases "pos < length revoked") (auto simp: push_der_sequence_def push_der_tlv_def)
  have r: "read_tlv revoked pos = Inr (?x, pos + length ?x)"
    by (rule read_at [OF d element_sequence [OF ok(2)] Cons.prems(2)])
  have s: "read_tlv (serial @ rest) 0 = Inr (serial, 0 + length serial)"
    by (rule read_at [OF _ ok(1) in_memory_small [OF ok(2)]]) simp
  have "revoked_loop revoked (pos + length ?x) (acc @ [serial]) = Inr ((acc @ [serial]) @ map fst entries)"
    by (rule Cons.IH [OF cursor_step [OF d] Cons.prems(2)]) (use Cons.prems(3) in auto)
  then show ?case using pos r s expect_sequence [OF ok(2)] e
    by (subst revoked_loop.simps) simp
qed

lemma crl_entries_member:
  "(serial, rest) \<in> set entries \<Longrightarrow> length serial + length rest \<le> length (crl_entries entries)"
  by (induction entries) (auto simp: crl_entries_def push_der_sequence_def push_der_tlv_def)

lemma parse_tbs_cert_list_round_trip:
  assumes len: "length (tbs_cert_list alg issuer this_t next_t entries ext) < 65536"
    and "element alg" "element issuer" "element this_t" "time this_t = Inr d1" "time next_t = Inr d2"
    and next_t: "next_t = push_der_tlv tag c" "tag = 0x17 \<or> tag = 0x18"
    and entries: "\<forall>(serial, rest)\<in>set entries. element serial"
  shows "parse_tbs_cert_list time alg (tbs_cert_list alg issuer this_t next_t entries ext)
    = Inr (d1, d2, map fst entries)"
proof -
  let ?r = "crl_entries entries"
  let ?v = "push_der_tlv 0x02 [1]" and ?s = "push_der_sequence ?r"
  let ?tbs = "?v @ alg @ issuer @ this_t @ next_t @ ?s @ ext"
  have tl: "length ?tbs < 65536"
    using len length_push_der_sequence [of ?tbs] by (simp add: tbs_cert_list_def)
  note mem = in_memory_small [OF tl]
  have rl: "length ?r < 65536" and nl: "length c < 65536"
    using tl length_push_der_sequence [of ?r] next_t(1) by (auto simp: length_push_der_tlv)
  have small: "length serial + length rest < 65536" if "(serial, rest) \<in> set entries" for serial rest
    using crl_entries_member [OF that] rl by simp
  have d0: "drop 0 ?tbs = ?tbs" by simp
  note d1 = cursor_step [OF d0]
  note d2 = cursor_step [OF d1]
  note d3 = cursor_step [OF d2]
  note d4 = cursor_step [OF d3]
  note d5 = cursor_step [OF d4]
  have e: "element ?v" "element next_t" "element ?s" using rl nl next_t(1) by auto
  note steps = read_at [OF d0 e(1) mem] read_at [OF d1 assms(2) mem] read_at [OF d2 assms(3) mem]
    read_at [OF d3 assms(4) mem] read_at [OF d4 e(2) mem] read_at [OF d5 e(3) mem]
  have tags: "byte_at ?tbs 0 = Some 2"
    "byte_at ?tbs (0 + length ?v + length alg + length issuer + length this_t) = Some tag"
    "byte_at ?tbs (0 + length ?v + length alg + length issuer + length this_t + length next_t) = Some 0x30"
    by (rule byte_element [OF d0], rule byte_element [OF d4 [unfolded next_t(1)], folded next_t(1)],
        rule byte_sequence [OF d5])
  have loop: "revoked_loop ?r 0 [] = Inr (map fst entries)"
    using revoked_loop_entries [of 0 ?r entries "[]"] in_memory_small [OF rl] entries small by fastforce
  show ?thesis
    unfolding parse_tbs_cert_list_def tbs_cert_list_def
    using expect_sequence [OF tl] expect_sequence [OF rl] steps tags loop assms(5,6) next_t(2)
    by simp
qed

text \<open>A revocation list reads back. What a certificate authority writes as a version 2 list of less than
  64 KiB, in any supported algorithm, is parsed into the bytes that are signed, the signature, the two
  dates and exactly the serial numbers it lists, in order, whatever the other fields hold.\<close>

theorem crl_round_trip:
  assumes "length (certificate_list tbs alg signature) < 65536"
    and "tbs = tbs_cert_list alg issuer this_t next_t entries ext" "element alg"
    and "from_algorithm_identifier_tlv alg = Some hash"
    and "element issuer" "element this_t" "time this_t = Inr d1" "time next_t = Inr d2"
    and "next_t = push_der_tlv tag c" "tag = 0x17 \<or> tag = 0x18"
    and "\<forall>(serial, rest)\<in>set entries. element serial"
  shows "parse_certificate_list_der time (certificate_list tbs alg signature) =
    Inr \<lparr>crl_tbs_tlv = tbs, crl_signature_hash = hash, crl_signature = signature, crl_this_update = d1,
      crl_next_update = d2, revoked_serial_tlvs = map fst entries\<rparr>"
proof -
  let ?s = "push_der_tlv 0x03 (0 # signature)"
  let ?o = "tbs @ alg @ ?s"
  have ol: "length ?o < 65536"
    using assms(1) length_push_der_sequence [of ?o] by (simp add: certificate_list_def)
  note mem = in_memory_small [OF ol]
  have tl: "length tbs < 65536" and sl: "length (0 # signature) < 65536"
    using ol by (auto simp: length_push_der_tlv)
  have "element tbs"
    using tl length_push_der_sequence by (auto simp: assms(2) tbs_cert_list_def intro!: element_sequence
        elim!: le_less_trans [rotated])
  have d0: "drop 0 ?o = ?o" by simp
  note d1 = cursor_step [OF d0]
  note d2 = cursor_step [OF d1]
  have d2': "drop (0 + length tbs + length alg) ?o = ?s @ []" using d2 by simp
  have e: "element ?s" using sl by auto
  note steps = read_at [OF d0 \<open>element tbs\<close> mem] read_at [OF d1 assms(3) mem] read_at [OF d2' e mem]
  have "byte_at (0 # signature) 0 = Some 0" by (simp add: byte_at_def)
  then show ?thesis
    unfolding parse_certificate_list_der_def certificate_list_def
    using expect_sequence [OF ol] steps expect_tlv_push [OF sl, of 3] assms(4)
      parse_tbs_cert_list_round_trip [where time = time, OF tl [unfolded assms(2)] assms(3,5-11)]
    by (simp add: assms(2))
qed

end
