(* ===== verification/Online_Ocsp.thy ===== *)
theory Online_Ocsp
  imports Online_Der Text
begin

text \<open>
  Model of the OCSP messages of \<^verbatim>\<open>online.rs\<close>: the request that is sent, the parser of the response, and
  of the address extensions of a certificate, including the byte scan for CRL distribution points.
\<close>

section \<open>The response\<close>

datatype OcspCheckOutcome = NotConfigured | Good | Revoked | Unknown_status

record ParsedOcspSingleResponse =
  cert_id_tlv :: "u8 list"
  response_status :: OcspCheckOutcome
  this_update :: utc_date
  next_update :: utc_date

record ParsedOcspResponse =
  tbs_response_data_tlv :: "u8 list"
  ocsp_signature_hash :: RsaPkcs1v15Hash
  ocsp_signature :: "u8 list"
  ocsp_responses :: "ParsedOcspSingleResponse list"

definition OCSP_BASIC_OID_DER :: "u8 list" where
  "OCSP_BASIC_OID_DER = [0x06, 0x09, 0x2b, 0x06, 0x01, 0x05, 0x05, 0x07, 0x30, 0x01, 0x01]"

definition cert_status :: "u8 list \<Rightarrow> OcspCheckOutcome res" where
  "cert_status tlv =
     (case byte_at tlv 0 of
        None \<Rightarrow> bail ''missing OCSP CertStatus''
      | Some tag \<Rightarrow>
          if tag = 0x80 then Inr Good
          else if tag = 0xa1 then Inr Revoked
          else if tag = 0x82 then Inr Unknown_status
          else bail ''unsupported OCSP CertStatus tag'')"

definition parse_single_response :: "(u8 list \<Rightarrow> utc_date res) \<Rightarrow> u8 list \<Rightarrow> ParsedOcspSingleResponse res" where
  "parse_single_response time single =
     rbind (with_context (read_tlv single 0) ''SingleResponse.certID'') (\<lambda>(cert_id, pos).
     rbind (with_context (expect_tlv cert_id 0x30) ''CertID'') (\<lambda>_.
     rbind (with_context (read_tlv single pos) ''SingleResponse.certStatus'') (\<lambda>(status_tlv, pos).
     rbind (cert_status status_tlv) (\<lambda>status.
     rbind (with_context (read_tlv single pos) ''SingleResponse.thisUpdate'') (\<lambda>(t, pos).
     rbind (with_context (time t) ''SingleResponse.thisUpdate'') (\<lambda>this_upd.
     rbind (with_context (read_tlv single pos)
       ''SingleResponse.nextUpdate is required for revocation freshness'') (\<lambda>(next_tlv, _).
     if byte_at next_tlv 0 \<noteq> Some 0xa0 then bail ''SingleResponse.nextUpdate is required''
     else
       rbind (with_context (expect_tlv next_tlv 0xa0) ''SingleResponse.nextUpdate'') (\<lambda>inner.
       rbind (with_context (read_tlv inner 0) ''nextUpdate time'') (\<lambda>(t, next_pos).
       rbind (with_context (time t) ''SingleResponse.nextUpdate'') (\<lambda>next_upd.
       if next_pos \<noteq> length inner then bail ''SingleResponse.nextUpdate has trailing fields''
       else
         Inr \<lparr>cert_id_tlv = cert_id, response_status = status, this_update = this_upd,
           next_update = next_upd\<rparr>))))))))))"

function responses_loop ::
  "(u8 list \<Rightarrow> utc_date res) \<Rightarrow> u8 list \<Rightarrow> nat \<Rightarrow> ParsedOcspSingleResponse list \<Rightarrow>
   ParsedOcspSingleResponse list res" where
  "responses_loop time responses pos parsed =
     (if pos < length responses then
        rbind (read_tlv responses pos) (\<lambda>(element, pos').
        rbind (with_context (expect_tlv element 0x30) ''SingleResponse'') (\<lambda>single.
        rbind (parse_single_response time single) (\<lambda>response.
        responses_loop time responses pos' (parsed @ [response]))))
      else Inr parsed)"
  by pat_completeness auto
termination
  by (relation "measure (\<lambda>(time, responses, pos, _). length responses - pos)")
    (auto dest!: read_tlv_grows)

declare responses_loop.simps [simp del]

definition parse_response_data ::
  "(u8 list \<Rightarrow> utc_date res) \<Rightarrow> u8 list \<Rightarrow> ParsedOcspSingleResponse list res" where
  "parse_response_data time tbs_tlv =
     rbind (with_context (expect_tlv tbs_tlv 0x30) ''ResponseData'') (\<lambda>tbs.
     rbind (if byte_at tbs 0 = Some 0xa0 then
              rbind (with_context (read_tlv tbs 0) ''ResponseData.version'') (\<lambda>(_, pos). Inr pos)
            else Inr 0) (\<lambda>pos.
     rbind (with_context (read_tlv tbs pos) ''ResponseData.responderID'') (\<lambda>(_, pos).
     rbind (with_context (read_tlv tbs pos) ''ResponseData.producedAt'') (\<lambda>(_, pos).
     rbind (read_tlv tbs pos) (\<lambda>(r, _).
     rbind (with_context (expect_tlv r 0x30) ''ResponseData.responses'') (\<lambda>responses.
     responses_loop time responses 0 []))))))"

definition parse_basic_ocsp_response_der ::
  "(u8 list \<Rightarrow> utc_date res) \<Rightarrow> u8 list \<Rightarrow> ParsedOcspResponse res" where
  "parse_basic_ocsp_response_der time input =
     rbind (with_context (expect_tlv input 0x30) ''BasicOCSPResponse'') (\<lambda>outer.
     rbind (with_context (read_tlv outer 0) ''BasicOCSPResponse.tbsResponseData'') (\<lambda>(tbs_tlv, pos).
     rbind (with_context (read_tlv outer pos) ''BasicOCSPResponse.signatureAlgorithm'') (\<lambda>(sig_alg, pos).
     rbind (ok_or (from_algorithm_identifier_tlv sig_alg) ''unsupported OCSP signature algorithm'') (\<lambda>hash.
     rbind (with_context (read_tlv outer pos) ''BasicOCSPResponse.signature'') (\<lambda>(sig_tlv, _).
     rbind (with_context (expect_tlv sig_tlv 0x03) ''OCSP signature BIT STRING'') (\<lambda>signature_body.
     if byte_at signature_body 0 \<noteq> Some 0 then bail ''OCSP signature BIT STRING has unused bits''
     else
       rbind (parse_response_data time tbs_tlv) (\<lambda>responses.
       Inr \<lparr>tbs_response_data_tlv = tbs_tlv, ocsp_signature_hash = hash,
         ocsp_signature = drop 1 signature_body, ocsp_responses = responses\<rparr>)))))))"

definition parse_ocsp_response_der ::
  "(u8 list \<Rightarrow> utc_date res) \<Rightarrow> u8 list \<Rightarrow> ParsedOcspResponse res" where
  "parse_ocsp_response_der time input =
     rbind (with_context (expect_tlv input 0x30) ''OCSPResponse'') (\<lambda>outer.
     rbind (read_tlv outer 0) (\<lambda>(status_tlv, pos).
     rbind (with_context (expect_tlv status_tlv 0x0a) ''OCSPResponseStatus'') (\<lambda>status.
     if status \<noteq> [0] then bail ''OCSP responder returned non-success status''
     else
       rbind (read_tlv outer pos) (\<lambda>(rb_tlv, _).
       rbind (with_context (expect_tlv rb_tlv 0xa0) ''responseBytes'') (\<lambda>response_bytes.
       rbind (with_context (expect_tlv response_bytes 0x30) ''ResponseBytes'') (\<lambda>rb.
       rbind (with_context (read_tlv rb 0) ''ResponseBytes.responseType'') (\<lambda>(response_type, rb_pos).
       if response_type \<noteq> OCSP_BASIC_OID_DER then bail ''unsupported OCSP response type''
       else
         rbind (with_context (read_tlv rb rb_pos) ''ResponseBytes.response'') (\<lambda>(octets_tlv, _).
         rbind (with_context (expect_tlv octets_tlv 0x04) ''ResponseBytes.response OCTET STRING'') (\<lambda>basic_octets.
         parse_basic_ocsp_response_der time basic_octets)))))))))"

section \<open>The request\<close>

definition SHA1_ALGORITHM_IDENTIFIER_DER :: "u8 list" where
  "SHA1_ALGORITHM_IDENTIFIER_DER = [0x30, 0x09, 0x06, 0x05, 0x2b, 0x0e, 0x03, 0x02, 0x1a, 0x05, 0x00]"

text \<open>The encoded issuer name, its key octets and the encoded serial come from the certificate library.\<close>

definition cert_id_of :: "(u8 list \<Rightarrow> u8 list) \<Rightarrow> u8 list \<Rightarrow> u8 list \<Rightarrow> u8 list \<Rightarrow> u8 list" where
  "cert_id_of hash1 issuer_name_der issuer_key_bytes serial_der =
     push_der_sequence (SHA1_ALGORITHM_IDENTIFIER_DER @ push_der_tlv 0x04 (hash1 issuer_name_der) @
       push_der_tlv 0x04 (hash1 issuer_key_bytes) @ serial_der)"

definition ocsp_request_of :: "u8 list \<Rightarrow> u8 list" where
  "ocsp_request_of cert_id =
     push_der_sequence (push_der_sequence (push_der_sequence (push_der_sequence cert_id)))"

section \<open>Addresses in certificate extensions\<close>

definition CA_ISSUERS_OID_DER :: "u8 list" where
  "CA_ISSUERS_OID_DER = [0x06, 0x08, 0x2b, 0x06, 0x01, 0x05, 0x05, 0x07, 0x30, 0x02]"

definition OCSP_OID_DER :: "u8 list" where
  "OCSP_OID_DER = [0x06, 0x08, 0x2b, 0x06, 0x01, 0x05, 0x05, 0x07, 0x30, 0x01]"

definition http_prefix :: str where "http_prefix = lit ''http://''"

function ca_issuers_loop :: "u8 list \<Rightarrow> nat \<Rightarrow> str list \<Rightarrow> str list res" where
  "ca_issuers_loop outer pos urls =
     (if pos < length outer then
        rbind (read_tlv outer pos) (\<lambda>(element, pos').
        rbind (with_context (expect_tlv element 0x30) ''AccessDescription'') (\<lambda>ad.
        rbind (with_context (read_tlv ad 0) ''AccessDescription.accessMethod'') (\<lambda>(method, ad_pos).
        rbind (with_context (read_tlv ad ad_pos) ''AccessDescription.accessLocation'') (\<lambda>(location, ad_pos).
        if ad_pos \<noteq> length ad then bail ''AccessDescription has trailing fields''
        else if method = CA_ISSUERS_OID_DER \<and> byte_at location 0 = Some 0x86 then
          rbind (with_context (expect_tlv location 0x86) ''uniformResourceIdentifier'') (\<lambda>body.
          rbind (ok_or (from_utf8 body) ''AIA URL is not UTF-8'') (\<lambda>url.
          ca_issuers_loop outer pos' (urls @ [url])))
        else ca_issuers_loop outer pos' urls))))
      else Inr urls)"
  by pat_completeness auto
termination
  by (relation "measure (\<lambda>(outer, pos, _). length outer - pos)") (auto dest!: read_tlv_grows)

definition parse_aia_ca_issuers :: "u8 list \<Rightarrow> str list res" where
  "parse_aia_ca_issuers input =
     rbind (with_context (expect_tlv input 0x30) ''AuthorityInfoAccessSyntax'') (\<lambda>outer. ca_issuers_loop outer 0 [])"

function aia_ocsp_loop :: "u8 list \<Rightarrow> nat \<Rightarrow> str list \<Rightarrow> str list res" where
  "aia_ocsp_loop outer pos urls =
     (if pos < length outer then
        rbind (read_tlv outer pos) (\<lambda>(element, pos').
        rbind (with_context (expect_tlv element 0x30) ''AccessDescription'') (\<lambda>ad.
        rbind (with_context (read_tlv ad 0) ''AccessDescription.accessMethod'') (\<lambda>(method, ad_pos).
        rbind (with_context (read_tlv ad ad_pos) ''AccessDescription.accessLocation'') (\<lambda>(location, _).
        if method = OCSP_OID_DER \<and> byte_at location 0 = Some 0x86 then
          rbind (with_context (expect_tlv location 0x86) ''uniformResourceIdentifier'') (\<lambda>body.
          rbind (ok_or (from_utf8 body) ''AIA OCSP URL is not UTF-8'') (\<lambda>uri.
          aia_ocsp_loop outer pos' (if starts_with http_prefix uri then urls @ [uri] else urls)))
        else aia_ocsp_loop outer pos' urls))))
      else Inr urls)"
  by pat_completeness auto
termination
  by (relation "measure (\<lambda>(outer, pos, _). length outer - pos)") (auto dest!: read_tlv_grows)

definition parse_aia_ocsp :: "u8 list \<Rightarrow> str list res" where
  "parse_aia_ocsp input =
     rbind (with_context (expect_tlv input 0x30) ''AuthorityInfoAccessSyntax'') (\<lambda>outer. aia_ocsp_loop outer 0 [])"

declare ca_issuers_loop.simps [simp del] aia_ocsp_loop.simps [simp del]

text \<open>Distribution points are not parsed: every octet 0x86 may start an address, wherever it stands.\<close>

lemma read_len_end: "read_len input pos = Inr (b, l) \<Longrightarrow> pos < b + l"
  using read_len_bounds(1) by fastforce

function general_names_loop :: "u8 list \<Rightarrow> nat \<Rightarrow> str list \<Rightarrow> str list res" where
  "general_names_loop input pos urls =
     (if pos < length input then
        if input ! pos = 0x86 then
          rbind (read_len input (pos + 1)) (\<lambda>(body_start, len).
          rbind (ok_or (checked_add_usize body_start len) ''URI length overflow'') (\<lambda>end_pos.
          if end_pos \<le> length input then
            rbind (slice_idx input body_start end_pos) (\<lambda>body.
            rbind (ok_or (from_utf8 body) ''URI is not UTF-8'') (\<lambda>uri.
            general_names_loop input end_pos (if starts_with http_prefix uri then urls @ [uri] else urls)))
          else general_names_loop input (pos + 1) urls))
        else general_names_loop input (pos + 1) urls
      else Inr urls)"
  by pat_completeness auto
termination
  by (relation "measure (\<lambda>(input, pos, _). length input - pos)")
    (auto dest!: read_len_end simp: res_simps checked_add_usize_def split: if_splits)

declare general_names_loop.simps [simp del]

definition parse_http_uri_general_names :: "u8 list \<Rightarrow> str list res" where
  "parse_http_uri_general_names input = general_names_loop input 0 []"

section \<open>No response crashes the reader\<close>

lemma with_context_no_panic: "r \<noteq> Inl Panic \<Longrightarrow> with_context r ctx \<noteq> Inl Panic"
  by (auto simp: with_context_def split: sum.splits error.splits)

lemma if_no_panic: "(c \<Longrightarrow> r \<noteq> Inl Panic) \<Longrightarrow> (\<not> c \<Longrightarrow> r' \<noteq> Inl Panic) \<Longrightarrow> (if c then r else r') \<noteq> Inl Panic"
  by simp

lemma case_prod_no_panic:
  "(\<And>a b. p = (a, b) \<Longrightarrow> f a b \<noteq> Inl Panic) \<Longrightarrow> (case p of (a, b) \<Rightarrow> f a b) \<noteq> Inl Panic"
  by (cases p) simp

lemma value_no_panic: "Inr x \<noteq> Inl Panic" "bail m \<noteq> Inl Panic" by simp_all

lemmas steps_no_panic = rbind_no_panic if_no_panic case_prod_no_panic value_no_panic with_context_no_panic ok_or_no_panic

lemma read_len_octets_no_panic: "read_len_octets input n pos len \<noteq> Inl Panic"
proof (induction n arbitrary: pos len)
  case (Suc n)
  show ?case unfolding read_len_octets.simps by (intro steps_no_panic Suc)
qed simp

lemma read_len_no_panic: "read_len input pos \<noteq> Inl Panic"
  unfolding read_len_def Let_def by (intro steps_no_panic read_len_octets_no_panic)

lemma read_tlv_no_panic: "read_tlv input pos \<noteq> Inl Panic"
  unfolding read_tlv_def by (intro steps_no_panic read_len_no_panic)

lemma expect_tlv_no_panic: "expect_tlv input tag \<noteq> Inl Panic"
proof -
  have "slice_idx input b e \<noteq> Inl Panic" if "read_len input 1 = Inr x" "x = (b, l)" "\<not> e \<noteq> length input" for x b l e
    using read_len_bounds(3) [of input 1 b l] that by (simp add: slice_simps)
  then show ?thesis unfolding expect_tlv_def by (intro steps_no_panic read_len_no_panic)
qed

lemmas reads_no_panic = steps_no_panic read_tlv_no_panic expect_tlv_no_panic

lemma revoked_loop_no_panic: "revoked_loop revoked pos serials \<noteq> Inl Panic"
proof (induction revoked pos serials rule: revoked_loop.induct)
  case (1 revoked pos serials)
  show ?case
    by (subst revoked_loop.simps) (intro reads_no_panic; rule 1; (assumption | (rule sym, assumption)))
qed

lemma cert_status_no_panic: "cert_status tlv \<noteq> Inl Panic"
  by (simp add: cert_status_def split: option.splits)

lemma parse_single_response_no_panic:
  assumes "\<And>t. time t \<noteq> Inl Panic"
  shows "parse_single_response time single \<noteq> Inl Panic"
  unfolding parse_single_response_def by (intro reads_no_panic assms cert_status_no_panic)

lemma responses_loop_no_panic:
  assumes "\<And>t. time t \<noteq> Inl Panic"
  shows "responses_loop time responses pos parsed \<noteq> Inl Panic"
  using assms
proof (induction time responses pos parsed rule: responses_loop.induct)
  case (1 time responses pos parsed)
  show ?case
    by (subst responses_loop.simps)
      (intro reads_no_panic parse_single_response_no_panic 1(2); rule 1(1);
        (assumption | (rule sym, assumption) | rule 1(2)))
qed


section \<open>A byte of a length is taken for an address\<close>

text \<open>
  A well-formed distribution point with one address of 124 octets: the outer length octet is 0x86,
  the tag that the scan looks for.
\<close>

definition crl_dp :: "u8 list \<Rightarrow> u8 list" where
  "crl_dp url = push_der_sequence (push_der_sequence (push_der_tlv 0xa0 (push_der_tlv 0xa0 (push_der_tlv 0x86 url))))"

lemma crl_dp_length_taken_for_address:
  assumes "length url = 124"
  shows "parse_http_uri_general_names (crl_dp url) = bail ''URI is not UTF-8''"
proof -
  let ?d = "[0x30, 0x81, 0x83, 0xa0, 0x81, 0x80, 0xa0, 0x7e, 0x86, 0x7c] @ url :: u8 list"
  have d: "crl_dp url = 0x30 # 0x81 # 0x86 # ?d"
    using assms by (simp add: crl_dp_def push_der_sequence_def push_der_tlv_def push_der_len_def)
  have len: "length (crl_dp url) = 137" using assms by (simp add: d)
  have at: "crl_dp url ! 0 = 0x30" "crl_dp url ! 1 = 0x81" "crl_dp url ! 2 = 0x86" "crl_dp url ! 3 = 0x30"
    by (simp_all add: d)
  have "drop 4 (crl_dp url) = 0x81 # drop 2 ?d" by (simp add: d)
  then have body: "slice_idx (crl_dp url) 4 52 = Inr (0x81 # take 47 (drop 2 ?d))"
    using len by (simp add: slice_idx_def slice_get_def sub_def)
  have bad: "from_utf8 (0x81 # bs) = None" for bs by (simp add: from_utf8.simps Let_def)
  have rl: "read_len (crl_dp url) 3 = Inr (4, 48)"
    using at len by (simp add: read_len_def byte_at_def)
  have "general_names_loop (crl_dp url) 2 [] = bail ''URI is not UTF-8''"
    by (subst general_names_loop.simps) (simp add: rl body bad at len checked_add_usize_def)
  moreover have "general_names_loop (crl_dp url) 1 [] = general_names_loop (crl_dp url) 2 []"
    by (subst general_names_loop.simps) (simp add: at len one_add_one del: One_nat_def)
  moreover have "general_names_loop (crl_dp url) 0 [] = general_names_loop (crl_dp url) 1 []"
    by (subst general_names_loop.simps) (simp add: at len)
  ultimately show ?thesis by (simp add: parse_http_uri_general_names_def)
qed

section \<open>A response reads back\<close>

text \<open>One answer as a responder writes it, and the layers around the answers.\<close>

record answer =
  answer_id :: "u8 list"
  answer_status :: "u8 list"
  answer_this :: "u8 list"
  answer_next :: "u8 list"
  answer_rest :: "u8 list"

definition single_response :: "answer \<Rightarrow> u8 list" where
  "single_response a =
     push_der_sequence (answer_id a @ answer_status a @ answer_this a @ push_der_tlv 0xa0 (answer_next a) @ answer_rest a)"

definition response_data :: "u8 list \<Rightarrow> u8 list \<Rightarrow> answer list \<Rightarrow> u8 list \<Rightarrow> u8 list" where
  "response_data responder produced answers ext =
     push_der_sequence (responder @ produced @ push_der_sequence (concat (map single_response answers)) @ ext)"

definition basic_response :: "u8 list \<Rightarrow> u8 list \<Rightarrow> u8 list \<Rightarrow> u8 list \<Rightarrow> u8 list" where
  "basic_response tbs alg signature certs =
     push_der_sequence (tbs @ alg @ push_der_tlv 0x03 (0 # signature) @ certs)"

definition ocsp_response :: "u8 list \<Rightarrow> u8 list" where
  "ocsp_response basic =
     push_der_sequence (push_der_tlv 0x0a [0] @
       push_der_tlv 0xa0 (push_der_sequence (OCSP_BASIC_OID_DER @ push_der_tlv 0x04 basic)))"

text \<open>What an answer is parsed into.\<close>

definition answer_ok :: "(u8 list \<Rightarrow> utc_date res) \<Rightarrow> answer \<Rightarrow> ParsedOcspSingleResponse \<Rightarrow> bool" where
  "answer_ok time a r \<longleftrightarrow>
     (\<exists>c. answer_id a = push_der_sequence c) \<and> element (answer_status a) \<and> element (answer_this a) \<and>
     element (answer_next a) \<and> cert_id_tlv r = answer_id a \<and> cert_status (answer_status a) = Inr (response_status r) \<and>
     time (answer_this a) = Inr (this_update r) \<and> time (answer_next a) = Inr (next_update r)"

lemma length_tlv_content: "length c \<le> length (push_der_tlv t c :: u8 list)"
  by (simp add: push_der_tlv_def)

lemma parse_single_response_round_trip:
  assumes "answer_ok time a r" and len: "length (single_response a) < 65536"
  shows "\<exists>single. expect_tlv (single_response a) 0x30 = Inr single \<and> parse_single_response time single = Inr r"
proof -
  obtain c where id: "answer_id a = push_der_sequence c" and ok: "element (answer_status a)"
    "element (answer_this a)" "element (answer_next a)" and r: "cert_id_tlv r = answer_id a"
    "cert_status (answer_status a) = Inr (response_status r)"
    "time (answer_this a) = Inr (this_update r)" "time (answer_next a) = Inr (next_update r)"
    using assms(1) unfolding answer_ok_def by blast
  let ?n = "push_der_tlv 0xa0 (answer_next a)"
  let ?s = "answer_id a @ answer_status a @ answer_this a @ ?n @ answer_rest a"
  have sl: "length ?s < 65536"
    using len length_push_der_sequence [of ?s] by (simp add: single_response_def)
  note mem = in_memory_small [OF sl]
  have cl: "length c < 65536" using sl length_push_der_sequence [of c] id by simp
  have nl: "length (answer_next a) < 65536" using sl length_tlv_content [where c = "answer_next a" and t = "0xa0"] by simp
  have e: "element (answer_id a)" "element ?n" using cl nl id by auto
  have d0: "drop 0 ?s = ?s" by simp
  note d1 = cursor_step [OF d0]
  note d2 = cursor_step [OF d1]
  note d3 = cursor_step [OF d2]
  note steps = read_at [OF d0 e(1) mem] read_at [OF d1 ok(1) mem] read_at [OF d2 ok(2) mem] read_at [OF d3 e(2) mem]
  have inner: "read_tlv (answer_next a) 0 = Inr (answer_next a, length (answer_next a))"
    using read_at [of 0 "answer_next a" "answer_next a" "[]", OF _ ok(3) in_memory_small [OF nl]] by simp
  have tag: "byte_at ?n 0 = Some 0xa0" by (simp add: byte_at_def push_der_tlv_def)
  have "parse_single_response time ?s = Inr r"
    unfolding parse_single_response_def
    using steps inner tag expect_sequence [OF cl] expect_tlv_push [OF nl, of "0xa0"] id r by simp
  then show ?thesis using expect_sequence [OF sl] unfolding single_response_def by blast
qed

lemma length_single_response: "a \<in> set answers \<Longrightarrow>
  length (single_response a) \<le> length (concat (map single_response answers))"
  by (induction answers) auto

lemma single_response_shape: "\<exists>r. single_response a = 0x30 # r"
  by (simp add: single_response_def push_der_sequence_def push_der_tlv_def)

lemma responses_loop_round_trip:
  assumes "drop pos responses = concat (map single_response answers)" "in_memory responses"
    and "list_all2 (answer_ok time) answers rs"
    and "\<forall>a\<in>set answers. length (single_response a) < 65536"
  shows "responses_loop time responses pos parsed = Inr (parsed @ rs)"
  using assms
proof (induction answers arbitrary: pos parsed rs)
  case Nil
  then show ?case by (simp add: responses_loop.simps)
next
  case (Cons a answers)
  obtain r rs' where rs: "rs = r # rs'" "answer_ok time a r" "list_all2 (answer_ok time) answers rs'"
    using Cons.prems(3) by (auto simp: list_all2_Cons1)
  have len: "length (single_response a) < 65536" using Cons.prems(4) by simp
  let ?x = "single_response a"
  have d: "drop pos responses = ?x @ concat (map single_response answers)" using Cons.prems(1) by simp
  have e: "element ?x"
    using len unfolding single_response_def by (meson element_sequence le_less_trans length_push_der_sequence)
  have pos: "pos < length responses"
    using d single_response_shape [of a] by (cases "pos < length responses") auto
  obtain single where s: "expect_tlv ?x 0x30 = Inr single" "parse_single_response time single = Inr r"
    using parse_single_response_round_trip [OF rs(2) len] by blast
  have "responses_loop time responses (pos + length ?x) (parsed @ [r]) = Inr ((parsed @ [r]) @ rs')"
    by (rule Cons.IH [OF cursor_step [OF d] Cons.prems(2) rs(3)]) (use Cons.prems(4) in simp)
  then show ?case
    using pos s read_at [OF d e Cons.prems(2)] rs(1) by (subst responses_loop.simps) simp
qed

lemma parse_response_data_round_trip:
  assumes len: "length (response_data responder produced answers ext) < 65536"
    and "element responder" "byte_at responder 0 \<noteq> Some 0xa0" "element produced"
    and "list_all2 (answer_ok time) answers rs"
  shows "parse_response_data time (response_data responder produced answers ext) = Inr rs"
proof -
  let ?a = "concat (map single_response answers)"
  let ?s = "push_der_sequence ?a"
  let ?tbs = "responder @ produced @ ?s @ ext"
  have tl: "length ?tbs < 65536"
    using len length_push_der_sequence [of ?tbs] by (simp add: response_data_def)
  have al: "length ?a < 65536" using tl length_push_der_sequence [of ?a] by simp
  note mem = in_memory_small [OF tl]
  have d0: "drop 0 ?tbs = ?tbs" by simp
  note d1 = cursor_step [OF d0]
  note d2 = cursor_step [OF d1]
  note steps = read_at [OF d0 assms(2) mem] read_at [OF d1 assms(4) mem]
    read_at [OF d2 element_sequence [OF al] mem]
  have tag: "byte_at ?tbs 0 \<noteq> Some 0xa0"
    using assms(2,3) by (auto simp: element_def byte_at_def push_der_tlv_def)
  have "responses_loop time ?a 0 [] = Inr ([] @ rs)"
    by (rule responses_loop_round_trip [OF _ in_memory_small [OF al] assms(5)])
      (use length_single_response al in \<open>fastforce+\<close>)
  then show ?thesis
    unfolding parse_response_data_def response_data_def
    using expect_sequence [OF tl] expect_sequence [OF al] steps tag by simp
qed

lemma sample_small: "length [0x2b, 0x06, 0x01, 0x05, 0x05, 0x07, 0x30, 0x01, 0x01 :: u8] < 65536"
  by simp

text \<open>An OCSP response reads back. What a responder writes as a successful basic response of less than
  64 KiB, in any supported algorithm, is parsed into the bytes that are signed, the signature and, for
  each answer in order, exactly its certificate identifier, status and dates.\<close>

theorem ocsp_round_trip:
  assumes "length (ocsp_response basic) < 65536" and "basic = basic_response tbs alg signature certs"
    and "tbs = response_data responder produced answers ext"
    and "element alg" "from_algorithm_identifier_tlv alg = Some hash"
    and "element responder" "byte_at responder 0 \<noteq> Some 0xa0" "element produced"
    and "list_all2 (answer_ok time) answers rs"
  shows "parse_ocsp_response_der time (ocsp_response basic) =
    Inr \<lparr>tbs_response_data_tlv = tbs, ocsp_signature_hash = hash, ocsp_signature = signature,
      ocsp_responses = rs\<rparr>"
proof -
  let ?oct = "push_der_tlv 0x04 basic"
  let ?rb = "OCSP_BASIC_OID_DER @ ?oct"
  let ?rs = "push_der_sequence ?rb"
  let ?out = "push_der_tlv 0x0a [0] @ push_der_tlv 0xa0 ?rs"
  let ?sig = "push_der_tlv 0x03 (0 # signature)"
  let ?bas = "tbs @ alg @ ?sig @ certs"
  have l0: "length ?out < 65536"
    using assms(1) length_push_der_sequence [of ?out] by (simp add: ocsp_response_def)
  have l1: "length ?rs < 65536" using l0 length_tlv_content [where c = ?rs and t = "0xa0"] by simp
  have l2: "length ?rb < 65536" using l1 length_push_der_sequence [of ?rb] by simp
  have l3: "length basic < 65536" using l2 length_tlv_content [where c = basic and t = "0x04"] by simp
  have l4: "length ?bas < 65536"
    using l3 length_push_der_sequence [of ?bas] by (simp add: assms(2) basic_response_def)
  have l5: "length tbs < 65536" "length (0 # signature) < 65536" using l4 by (auto simp: length_push_der_tlv)
  have e0: "element (push_der_tlv 0x0a [0])" "element (push_der_tlv 0xa0 ?rs)" "element ?oct" "element ?sig"
    using l1 l3 l5 by auto
  have "OCSP_BASIC_OID_DER = push_der_tlv 0x06 [0x2b, 0x06, 0x01, 0x05, 0x05, 0x07, 0x30, 0x01, 0x01]"
    by (simp add: OCSP_BASIC_OID_DER_def push_der_tlv_def push_der_len_def)
  then have e1: "element OCSP_BASIC_OID_DER" using elementI by (metis sample_small)
  have e2: "element tbs"
    using l5(1) unfolding assms(3) response_data_def by (meson element_sequence le_less_trans length_push_der_sequence)
  have d0: "drop 0 ?out = ?out" by simp
  have d1: "drop (0 + length (push_der_tlv 0x0a [0] :: u8 list)) ?out = push_der_tlv 0xa0 ?rs @ []"
    using cursor_step [OF d0] by simp
  have d2: "drop 0 ?rb = ?rb" by simp
  have d3: "drop (0 + length OCSP_BASIC_OID_DER) ?rb = ?oct @ []" using cursor_step [OF d2] by simp
  have d4: "drop 0 ?bas = ?bas" by simp
  note d5 = cursor_step [OF d4]
  note d6 = cursor_step [OF d5]
  note outer = read_at [OF d0 e0(1) in_memory_small [OF l0]] read_at [OF d1 e0(2) in_memory_small [OF l0]]
    read_at [OF d2 e1 in_memory_small [OF l2]] read_at [OF d3 e0(3) in_memory_small [OF l2]]
  note body = read_at [OF d4 e2 in_memory_small [OF l4]] read_at [OF d5 assms(4) in_memory_small [OF l4]]
    read_at [OF d6 e0(4) in_memory_small [OF l4]]
  have sig: "byte_at (0 # signature) 0 = Some 0" by (simp add: byte_at_def)
  have "parse_basic_ocsp_response_der time basic =
    Inr \<lparr>tbs_response_data_tlv = tbs, ocsp_signature_hash = hash, ocsp_signature = signature, ocsp_responses = rs\<rparr>"
    unfolding parse_basic_ocsp_response_der_def assms(2) basic_response_def
    using expect_sequence [OF l4] body expect_tlv_push [OF l5(2), of 3] sig assms(5)
      parse_response_data_round_trip [OF l5(1) [unfolded assms(3)] assms(6-9)] assms(3) by simp
  then show ?thesis
    unfolding parse_ocsp_response_der_def ocsp_response_def
    using expect_sequence [OF l0] outer expect_tlv_push [of "[0]" "0x0a"] expect_tlv_push [OF l1, of "0xa0"]
      expect_sequence [OF l2] expect_tlv_push [OF l3, of 4] by simp
qed

section \<open>Concrete messages\<close>

definition sample_time :: "u8 list \<Rightarrow> utc_date res" where
  "sample_time tlv = (if tlv = [0x17, 1, 7] then Inr (2026, 1, 7) else bail ''DER time decode failed'')"

definition sample_alg :: "u8 list" where
  "sample_alg = [0x30, 0x0d, 0x06, 0x09, 0x2a, 0x86, 0x48, 0x86, 0xf7, 0x0d, 0x01, 0x01, 0x0b, 0x05, 0x00]"

lemma sample_alg_hash: "from_algorithm_identifier_tlv sample_alg = Some Rsa_Sha256"
  by (simp add: from_algorithm_identifier_tlv_def sample_alg_def expect_tlv_def read_tlv_def read_len_def byte_at_def
      checked_add_usize_def slice_idx_def slice_get_def sub_def PKCS1_OID_PREFIX_def)

lemma element_small:
  "e = t # n # c \<Longrightarrow> n = word_of_nat (length c) \<Longrightarrow> length c < 128 \<Longrightarrow> element e"
  unfolding element_def by (intro exI [of _ t] exI [of _ c]) (simp add: push_der_tlv_def push_der_len_def)

lemma element_sample_alg: "element sample_alg"
  unfolding sample_alg_def by (rule element_small [OF refl]) simp_all



theorem crl_round_trip_witness:
  "parse_certificate_list_der sample_time (certificate_list
      (tbs_cert_list sample_alg [0x30, 0] [0x17, 1, 7] [0x17, 1, 7] [([2, 1, 5], [])] []) sample_alg [9]) =
    Inr \<lparr>crl_tbs_tlv = tbs_cert_list sample_alg [0x30, 0] [0x17, 1, 7] [0x17, 1, 7] [([2, 1, 5], [])] [],
      crl_signature_hash = Rsa_Sha256, crl_signature = [9], crl_this_update = (2026, 1, 7),
      crl_next_update = (2026, 1, 7), revoked_serial_tlvs = map fst [([2, 1, 5 :: u8], [] :: u8 list)]\<rparr>"
proof (rule crl_round_trip [OF _ refl])
  show "length (certificate_list (tbs_cert_list sample_alg [0x30, 0] [0x17, 1, 7] [0x17, 1, 7] [([2, 1, 5], [])] [])
    sample_alg [9]) < 65536"
    by (simp add: certificate_list_def tbs_cert_list_def crl_entries_def push_der_sequence_def push_der_tlv_def
        push_der_len_def sample_alg_def)
  show "[0x17, 1, 7] = push_der_tlv 0x17 [7]" by (simp add: push_der_tlv_def push_der_len_def)
qed (auto simp: sample_alg_hash sample_time_def intro: element_small element_sample_alg)

definition sample_answer :: answer where
  "sample_answer = \<lparr>answer_id = [0x30, 1, 4], answer_status = [0x80, 0], answer_this = [0x17, 1, 7],
     answer_next = [0x17, 1, 7], answer_rest = []\<rparr>"

definition sample_single :: ParsedOcspSingleResponse where
  "sample_single = \<lparr>cert_id_tlv = [0x30, 1, 4], response_status = Good, this_update = (2026, 1, 7),
     next_update = (2026, 1, 7)\<rparr>"

lemma sample_answer_ok: "answer_ok sample_time sample_answer sample_single"
proof -
  have "[0x30, 1, 4 :: u8] = push_der_sequence [4]"
    by (simp add: push_der_sequence_def push_der_tlv_def push_der_len_def)
  then show ?thesis
    by (auto simp: answer_ok_def sample_answer_def sample_single_def sample_time_def cert_status_def byte_at_def
        intro: element_small)
qed

theorem ocsp_round_trip_witness:
  "parse_ocsp_response_der sample_time (ocsp_response (basic_response
      (response_data [0xa1, 0] [0x18, 0] [sample_answer] []) sample_alg [9] [])) =
    Inr \<lparr>tbs_response_data_tlv = response_data [0xa1, 0] [0x18, 0] [sample_answer] [],
      ocsp_signature_hash = Rsa_Sha256, ocsp_signature = [9], ocsp_responses = [sample_single]\<rparr>"
proof (rule ocsp_round_trip [OF _ refl refl])
  show "length (ocsp_response (basic_response (response_data [0xa1, 0] [0x18, 0] [sample_answer] []) sample_alg [9] []))
    < 65536"
    by (simp add: ocsp_response_def basic_response_def response_data_def single_response_def push_der_sequence_def
        push_der_tlv_def push_der_len_def sample_alg_def sample_answer_def OCSP_BASIC_OID_DER_def)
qed (auto simp: sample_alg_hash byte_at_def sample_answer_ok intro: element_small element_sample_alg)

end
