(* ===== verification/Trust_Chain.thy ===== *)
theory Trust_Chain
  imports Utf Effects
begin

text \<open>
  Model of the issuer walk of the trust crate (\<^verbatim>\<open>chain.rs\<close>, \<^verbatim>\<open>anchor.rs\<close>) and of its revocation
  policy (\<^verbatim>\<open>check_revocation_chain\<close> of \<^verbatim>\<open>online.rs\<close>). Certificates are values of a type \<open>'c\<close> of the
  X.509 library, which gives names, encodings and signature checks; fetching over the network threads
  a state. The walk with fetching has no bound on the fetches: it is a partial function, and \<open>None\<close>
  is a walk that never returns.
\<close>

section \<open>Certificates and anchors\<close>

record 'c x509 =
  subject_name :: "'c \<Rightarrow> str"
  issuer_name :: "'c \<Rightarrow> str"
  to_der :: "'c \<Rightarrow> u8 list res"
  from_der :: "u8 list \<Rightarrow> 'c res"
  from_pem_str :: "str \<Rightarrow> 'c res"
  sha1 :: "u8 list \<Rightarrow> u8 list"

definition self_issued :: "'c x509 \<Rightarrow> 'c \<Rightarrow> bool" where
  "self_issued X c \<longleftrightarrow> subject_name X c = issuer_name X c"

definition cert_sha1_thumbprint :: "'c x509 \<Rightarrow> 'c \<Rightarrow> u8 list res" where
  "cert_sha1_thumbprint X c = rbind (to_der X c) (\<lambda>der. Inr (sha1 X der))"

definition trim_ascii_start :: "u8 list \<Rightarrow> u8 list" where
  "trim_ascii_start = dropWhile (\<lambda>b. b \<in> {9, 10, 12, 13, 32})"

definition parse_cert_bytes :: "'c x509 \<Rightarrow> u8 list \<Rightarrow> 'c res" where
  "parse_cert_bytes X raw =
     (let trimmed = trim_ascii_start raw; pem = utf8 (lit ''-----BEGIN '') in
      if take (length pem) trimmed = pem then
        rbind (ok_or (from_utf8 trimmed) ''anchor PEM is not UTF-8'') (from_pem_str X)
      else from_der X trimmed)"

type_synonym AnchorStore = "u8 list set"

definition anchor_empty :: AnchorStore where "anchor_empty = {}"

fun merge_cert_thumbprints :: "'c x509 \<Rightarrow> 'c list \<Rightarrow> AnchorStore \<Rightarrow> AnchorStore res" where
  "merge_cert_thumbprints X [] store = Inr store"
| "merge_cert_thumbprints X (c # cs) store =
     rbind (cert_sha1_thumbprint X c) (\<lambda>t. merge_cert_thumbprints X cs (insert t store))"

definition merge_thumbprints_only :: "u8 list list \<Rightarrow> AnchorStore \<Rightarrow> AnchorStore" where
  "merge_thumbprints_only thumbs store = fold insert thumbs store"

definition contains_thumbprint :: "AnchorStore \<Rightarrow> u8 list \<Rightarrow> bool" where
  "contains_thumbprint store thumb \<longleftrightarrow> thumb \<in> store"

text \<open>Explicitly supplied files; \<open>read_bytes\<close> is \<^verbatim>\<open>fs::read\<close>.\<close>

fun parse_cert_files :: "'c x509 \<Rightarrow> (str \<Rightarrow> u8 list res) \<Rightarrow> str list \<Rightarrow> 'c list \<Rightarrow> 'c list res" where
  "parse_cert_files X read_bytes [] certs = Inr certs"
| "parse_cert_files X read_bytes (path # paths) certs =
     rbind (read_bytes path) (\<lambda>raw.
     rbind (parse_cert_bytes X raw) (\<lambda>parsed.
     parse_cert_files X read_bytes paths (certs @ [parsed])))"

definition load_files :: "'c x509 \<Rightarrow> (str \<Rightarrow> u8 list res) \<Rightarrow> str list \<Rightarrow> (AnchorStore \<times> 'c list) res" where
  "load_files X read_bytes paths =
     rbind (parse_cert_files X read_bytes paths []) (\<lambda>certs.
     if certs = [] then bail ''no trusted CA files were supplied''
     else rbind (merge_cert_thumbprints X certs anchor_empty) (\<lambda>store. Inr (store, certs)))"

fun merge_unique_loop :: "'c x509 \<Rightarrow> 'c list \<Rightarrow> u8 list set \<Rightarrow> 'c list \<Rightarrow> 'c list res" where
  "merge_unique_loop X [] seen out = Inr out"
| "merge_unique_loop X (c # cs) seen out =
     rbind (cert_sha1_thumbprint X c) (\<lambda>thumb.
     if thumb \<notin> seen then merge_unique_loop X cs (insert thumb seen) (out @ [c])
     else merge_unique_loop X cs seen out)"

definition merge_unique_certs :: "'c x509 \<Rightarrow> 'c list \<Rightarrow> 'c list \<Rightarrow> 'c list res" where
  "merge_unique_certs X primary extra = merge_unique_loop X (primary @ extra) {} []"

section \<open>The walk without a network\<close>

text \<open>\<open>anchored\<close>: the store is given and holds the thumbprint, which could be computed.\<close>

definition anchored :: "'c x509 \<Rightarrow> AnchorStore option \<Rightarrow> 'c \<Rightarrow> bool" where
  "anchored X anchors c =
     (case anchors of
        None \<Rightarrow> False
      | Some store \<Rightarrow>
          (case cert_sha1_thumbprint X c of Inl _ \<Rightarrow> False | Inr thumb \<Rightarrow> contains_thumbprint store thumb))"

definition last_anchored :: "'c x509 \<Rightarrow> AnchorStore option \<Rightarrow> 'c list \<Rightarrow> bool" where
  "last_anchored X anchors out \<longleftrightarrow> out \<noteq> [] \<and> anchored X anchors (List.last out)"

definition find_issuer :: "'c x509 \<Rightarrow> 'c list \<Rightarrow> str \<Rightarrow> 'c option" where
  "find_issuer X pool dn = List.find (\<lambda>c. subject_name X c = dn) pool"

function chain_loop :: "'c x509 \<Rightarrow> 'c list \<Rightarrow> AnchorStore option \<Rightarrow> str \<Rightarrow> 'c list \<Rightarrow> nat \<Rightarrow> 'c list res" where
  "chain_loop X pool anchors issuer_dn out steps =
     (case find_issuer X pool issuer_dn of
        None \<Rightarrow>
          if last_anchored X anchors out then Inr out
          else bail ''could not resolve issuer certificate''
      | Some parent \<Rightarrow>
          let out' = out @ [parent]; steps' = steps + 1 in
          if 32 < steps' then bail ''certificate chain too long (possible loop)''
          else if self_issued X parent then Inr out'
          else if anchored X anchors parent then Inr out'
          else chain_loop X pool anchors (issuer_name X parent) out' steps')"
  by pat_completeness auto
termination by (relation "measure (\<lambda>(X, pool, anchors, dn, out, steps). 33 - steps)") auto

declare chain_loop.simps [simp del]

definition issuer_chain_excluding_leaf ::
  "'c x509 \<Rightarrow> 'c \<Rightarrow> 'c list \<Rightarrow> AnchorStore option \<Rightarrow> 'c list res" where
  "issuer_chain_excluding_leaf X leaf pool anchors =
     (if self_issued X leaf then Inr [] else chain_loop X pool anchors (issuer_name X leaf) [] 0)"

section \<open>The walk that fetches issuers\<close>

text \<open>
  \<open>fetch\<close> is \<^verbatim>\<open>issuer_candidates_from_aia\<close>: the certificates at the addresses the current certificate
  names, parsed and in order; nothing relates them to the issuer that is looked for.
\<close>

partial_function (option) online_loop ::
  "'c x509 \<Rightarrow> ('c \<Rightarrow> ('s, 'c list) eff) \<Rightarrow> AnchorStore option \<Rightarrow> 'c \<Rightarrow> 'c list \<Rightarrow> 'c list \<Rightarrow> nat \<Rightarrow> 's \<Rightarrow>
   ('s \<times> 'c list res) option" where
  "online_loop X fetch anchors current pool out steps s =
     (case find_issuer X pool (issuer_name X current) of
        Some parent \<Rightarrow>
          if 32 < steps + 1 then Some (s, bail ''certificate chain too long (possible loop)'')
          else if anchored X anchors parent then Some (s, Inr (out @ [parent]))
          else if self_issued X parent then Some (s, Inr (out @ [parent]))
          else online_loop X fetch anchors parent pool (out @ [parent]) (steps + 1) s
      | None \<Rightarrow>
          (case fetch current s of
             (s', Inl e) \<Rightarrow> Some (s', Inl e)
           | (s', Inr fetched) \<Rightarrow>
               if fetched = [] then
                 (if last_anchored X anchors out then Some (s', Inr out)
                  else Some (s', bail ''could not resolve issuer certificate''))
               else online_loop X fetch anchors current (pool @ fetched) out steps s'))"

definition issuer_chain_excluding_leaf_online ::
  "'c x509 \<Rightarrow> ('c \<Rightarrow> ('s, 'c list) eff) \<Rightarrow> 'c \<Rightarrow> 'c list \<Rightarrow> AnchorStore option \<Rightarrow> 's \<Rightarrow>
   ('s \<times> 'c list res) option" where
  "issuer_chain_excluding_leaf_online X fetch leaf pool anchors s =
     (if self_issued X leaf then Some (s, Inr [])
      else online_loop X fetch anchors leaf pool [] 0 s)"

text \<open>\<open>expect\<close> panics on an empty chain.\<close>

definition terminal_root_cert :: "'c x509 \<Rightarrow> 'c \<Rightarrow> 'c list \<Rightarrow> 'c res" where
  "terminal_root_cert X leaf chain =
     (if self_issued X leaf then Inr leaf
      else if chain = [] then Inl Panic else Inr (List.last chain))"

section \<open>What the walk returns\<close>

fun linked :: "'c x509 \<Rightarrow> 'c \<Rightarrow> 'c list \<Rightarrow> bool" where
  "linked X c [] \<longleftrightarrow> True"
| "linked X c (p # ps) \<longleftrightarrow> subject_name X p = issuer_name X c \<and> linked X p ps"

lemma linked_snoc: "linked X c (ps @ [p]) \<longleftrightarrow> linked X c ps \<and> subject_name X p = issuer_name X (List.last (c # ps))"
  by (induction ps arbitrary: c) auto

lemma find_issuer_subject: "find_issuer X pool dn = Some p \<Longrightarrow> subject_name X p = dn \<and> p \<in> set pool"
  by (auto simp: find_issuer_def find_Some_iff)

lemma find_issuer_None: "find_issuer X pool dn = None \<longleftrightarrow> (\<forall>c\<in>set pool. subject_name X c \<noteq> dn)"
  by (auto simp: find_issuer_def find_None_iff)

lemma find_issuer_append:
  "find_issuer X (pool @ cs) dn = (case find_issuer X pool dn of None \<Rightarrow> find_issuer X cs dn | Some p \<Rightarrow> Some p)"
  by (induction pool) (simp_all add: find_issuer_def)

text \<open>Where a walk ends: at a self-issued certificate or at one the store vouches for.\<close>

definition chain_ok :: "'c x509 \<Rightarrow> AnchorStore option \<Rightarrow> 'c \<Rightarrow> 'c list \<Rightarrow> bool" where
  "chain_ok X anchors leaf chain \<longleftrightarrow> linked X leaf chain \<and> length chain \<le> 32 \<and>
     (if chain = [] then self_issued X leaf
      else self_issued X (List.last chain) \<or> anchored X anchors (List.last chain))"

lemma online_loop_chain:
  assumes "online_loop X fetch anchors current pool out steps s = Some (s', Inr chain)"
    and "linked X leaf out" "current = List.last (leaf # out)" "length out = steps" "steps \<le> 32"
  shows "linked X leaf chain \<and> length chain \<le> 32 \<and> chain \<noteq> [] \<and>
    (self_issued X (List.last chain) \<or> anchored X anchors (List.last chain))"
proof -
  have "\<forall>chain. snd y = Inr chain \<longrightarrow> linked X leaf out \<longrightarrow> current = List.last (leaf # out) \<longrightarrow>
      length out = steps \<longrightarrow> steps \<le> 32 \<longrightarrow>
      linked X leaf chain \<and> length chain \<le> 32 \<and> chain \<noteq> [] \<and>
      (self_issued X (List.last chain) \<or> anchored X anchors (List.last chain))"
    if "online_loop X fetch anchors current pool out steps s = Some y" for y
    using that
  proof (induct rule: online_loop.raw_induct [rotated, consumes 1, case_names step])
    case (step loop X fetch anchors current pool out steps s y)
    show ?case
    proof (cases "find_issuer X pool (issuer_name X current)")
      case None
      obtain s1 r where f: "fetch current s = (s1, r)" by fastforce
      show ?thesis
      proof (cases r)
        case (Inl e)
        then have "snd y = Inl e" using step(2) None f by auto
        then show ?thesis by simp
      next
        case (Inr cs)
        show ?thesis
        proof (cases "cs = []")
          case True
          then have "y = (s1, if last_anchored X anchors out then Inr out else bail ''could not resolve issuer certificate'')"
            using step(2) None f Inr by (simp split: if_splits)
          then show ?thesis by (simp add: last_anchored_def)
        next
          case False
          then have "loop X fetch anchors current (pool @ cs) out steps s1 = Some y"
            using step(2) None f Inr by simp
          from step(1) [OF this] show ?thesis .
        qed
      qed
    next
      case (Some parent)
      note sub = find_issuer_subject [OF Some]
      consider "32 < steps + 1" | "steps < 32" "anchored X anchors parent \<or> self_issued X parent"
        | "steps < 32" "\<not> anchored X anchors parent" "\<not> self_issued X parent" by linarith
      then show ?thesis
      proof cases
        case 3
        then have "loop X fetch anchors parent pool (out @ [parent]) (steps + 1) s = Some y"
          using step(2) Some by simp
        from step(1) [OF this] show ?thesis using 3(1) sub by (auto simp: linked_snoc)
      next
        case 1
        then have "snd y = bail ''certificate chain too long (possible loop)''" using step(2) Some by auto
        then show ?thesis by simp
      next
        case 2
        then have "y = (s, Inr (out @ [parent]))" using step(2) Some by (auto split: if_splits)
        then show ?thesis using 2 sub by (auto simp: linked_snoc)
      qed
    qed
  qed
  from this [OF assms(1)] show ?thesis using assms(2-) by simp
qed

lemma walk_chain:
  "issuer_chain_excluding_leaf_online X fetch leaf pool anchors s = Some (s', Inr chain) \<Longrightarrow>
   chain_ok X anchors leaf chain"
  using online_loop_chain [of X fetch anchors leaf pool "[]" 0 s s' chain leaf]
  by (auto simp: issuer_chain_excluding_leaf_online_def chain_ok_def split: if_splits)

section \<open>Termination, and its failure\<close>

text \<open>An honest address: what it serves, if anything, includes the issuer that is looked for.\<close>

definition serves_issuer :: "'c x509 \<Rightarrow> ('c \<Rightarrow> ('s, 'c list) eff) \<Rightarrow> bool" where
  "serves_issuer X fetch \<longleftrightarrow>
     (\<forall>c s s' cs. fetch c s = (s', Inr cs) \<longrightarrow> cs = [] \<or> (\<exists>p\<in>set cs. subject_name X p = issuer_name X c))"

lemma online_loop_returns:
  assumes "serves_issuer X fetch"
  shows "online_loop X fetch anchors current pool out steps s \<noteq> None"
proof (induction "33 - steps" arbitrary: current pool out steps s rule: less_induct)
  case less
  have found: "online_loop X fetch anchors current pool out steps s \<noteq> None"
    if "find_issuer X pool (issuer_name X current) = Some parent" for parent pool s
    using less.hyps [of "steps + 1" parent pool "out @ [parent]" s] that
    by (subst online_loop.simps) (simp split: if_split)
  show ?case
  proof (cases "find_issuer X pool (issuer_name X current)")
    case None
    obtain s' r where f: "fetch current s = (s', r)" by fastforce
    show ?thesis
    proof (cases r)
      case (Inr cs)
      show ?thesis
      proof (cases "cs = []")
        case False
        then obtain p where "p \<in> set cs" "subject_name X p = issuer_name X current"
          using assms f Inr unfolding serves_issuer_def by blast
        then obtain parent where "find_issuer X (pool @ cs) (issuer_name X current) = Some parent"
          by (metis find_issuer_None not_Some_eq Un_iff set_append)
        from found [OF this] show ?thesis using None f Inr False by (subst online_loop.simps) simp
      qed (use None f Inr in \<open>subst online_loop.simps, simp\<close>)
    qed (use None f in \<open>subst online_loop.simps, simp\<close>)
  qed (rule found)
qed

text \<open>C36: the walk ends when addresses are honest. If every answer of an issuer address is empty or holds
  the issuer that is looked for (in particular when fetching is off), the walk returns, with a chain
  or an error, after at most 32 issuers.\<close>

theorem chain_walk_returns:
  assumes "serves_issuer X fetch"
  shows "\<exists>s' r. issuer_chain_excluding_leaf_online X fetch leaf pool anchors s = Some (s', r) \<and>
    (\<forall>chain. r = Inr chain \<longrightarrow> length chain \<le> 32)"
proof -
  have "issuer_chain_excluding_leaf_online X fetch leaf pool anchors s \<noteq> None"
    using online_loop_returns [OF assms] by (simp add: issuer_chain_excluding_leaf_online_def)
  then obtain s' r where w: "issuer_chain_excluding_leaf_online X fetch leaf pool anchors s = Some (s', r)" by auto
  show ?thesis using w walk_chain by (cases r) (fastforce simp: chain_ok_def)+
qed

text \<open>The answer of an address stays useless: something, but never the issuer.\<close>

definition useless_address :: "'c x509 \<Rightarrow> ('c \<Rightarrow> ('s, 'c list) eff) \<Rightarrow> 'c \<Rightarrow> bool" where
  "useless_address X fetch c \<longleftrightarrow>
     (\<forall>s. \<exists>s' cs. fetch c s = (s', Inr cs) \<and> cs \<noteq> [] \<and> (\<forall>p\<in>set cs. subject_name X p \<noteq> issuer_name X c))"

text \<open>C37: a useless address hangs the verification. If the address in the signer's certificate serves
  some certificate other than the missing issuer, the walk never returns: it fetches again and again,
  and the pool of certificates grows with every answer. The bound of 32 steps does not count fetches.\<close>

theorem useless_address_never_returns:
  assumes "useless_address X fetch leaf" "\<not> self_issued X leaf"
    and "\<forall>c\<in>set pool. subject_name X c \<noteq> issuer_name X leaf"
  shows "issuer_chain_excluding_leaf_online X fetch leaf pool anchors s = None"
proof -
  have "\<not> (useless_address X fetch current \<and> (\<forall>c\<in>set pool. subject_name X c \<noteq> issuer_name X current))"
    if "online_loop X fetch anchors current pool out steps s = Some y" for current pool out steps s y
    using that
  proof (induct rule: online_loop.raw_induct [rotated, consumes 1, case_names step])
    case (step loop X fetch anchors current pool out steps s y)
    show ?case
    proof
      assume u: "useless_address X fetch current \<and> (\<forall>c\<in>set pool. subject_name X c \<noteq> issuer_name X current)"
      then have none: "find_issuer X pool (issuer_name X current) = None" by (simp add: find_issuer_None)
      obtain s' cs where f: "fetch current s = (s', Inr cs)" "cs \<noteq> []"
        "\<forall>p\<in>set cs. subject_name X p \<noteq> issuer_name X current"
        using u unfolding useless_address_def by blast
      have "loop X fetch anchors current (pool @ cs) out steps s' = Some y"
        using step(2) none f(1,2) by simp
      from step(1) [OF this] show False using u f(3) by auto
    qed
  qed
  then have "online_loop X fetch anchors leaf pool [] 0 s \<noteq> Some y" for y using assms(1,3) by blast
  then have "online_loop X fetch anchors leaf pool [] 0 s = None" by fastforce
  then show ?thesis using assms(2) by (simp add: issuer_chain_excluding_leaf_online_def)
qed

theorem chain_walk_returns_witness:
  "\<exists>s' r. issuer_chain_excluding_leaf_online
     \<lparr>subject_name = (\<lambda>c :: nat. [c]), issuer_name = (\<lambda>c. [c div 2]), to_der = (\<lambda>c. Inr []),
       from_der = (\<lambda>_. Inr 0), from_pem_str = (\<lambda>_. Inr 0), sha1 = (\<lambda>_. [])\<rparr>
     (\<lambda>c s. (s + 1 :: nat, Inr [c div 2])) 13 [1, 7] None 0 = Some (s', r)"
proof -
  let ?X = "\<lparr>subject_name = (\<lambda>c :: nat. [c]), issuer_name = (\<lambda>c. [c div 2]), to_der = (\<lambda>c. Inr []),
       from_der = (\<lambda>_. Inr 0), from_pem_str = (\<lambda>_. Inr 0), sha1 = (\<lambda>_. [])\<rparr>"
  have "serves_issuer ?X (\<lambda>c s. (s + 1 :: nat, Inr [c div 2]))" by (auto simp: serves_issuer_def)
  from chain_walk_returns [OF this] show ?thesis by blast
qed

theorem useless_address_never_returns_witness:
  "issuer_chain_excluding_leaf_online
     \<lparr>subject_name = (\<lambda>c :: nat. [c]), issuer_name = (\<lambda>c. [c + 1]), to_der = (\<lambda>c. Inr []),
       from_der = (\<lambda>_. Inr 0), from_pem_str = (\<lambda>_. Inr 0), sha1 = (\<lambda>_. [])\<rparr>
     (\<lambda>c s. (s + 1 :: nat, Inr [c])) 5 [5] (Some {}) 0 = None"
  by (rule useless_address_never_returns) (auto simp: useless_address_def self_issued_def)

section \<open>Fetching changes nothing it is not needed for\<close>

definition no_fetch :: "'c \<Rightarrow> ('s, 'c list) eff" where "no_fetch c = ret []"

lemma online_loop_no_fetch:
  "online_loop X no_fetch anchors current pool out steps s
   = Some (s, chain_loop X pool anchors (issuer_name X current) out steps)"
proof (induction "33 - steps" arbitrary: current out steps rule: less_induct)
  case less
  show ?case
  proof (cases "find_issuer X pool (issuer_name X current)")
    case None
    then show ?thesis
      by (subst online_loop.simps, subst chain_loop.simps) (simp add: no_fetch_def ret_def)
  next
    case (Some parent)
    then show ?thesis using less.hyps [of "steps + 1" parent "out @ [parent]"]
      by (subst online_loop.simps, subst chain_loop.simps) (simp add: Let_def)
  qed
qed

text \<open>The two walks agree. With fetching off the walk that can fetch returns, for every leaf, pool and
  anchor store, exactly what the walk without a network returns, chain or error, and leaves the state
  alone.\<close>

theorem walks_agree:
  "issuer_chain_excluding_leaf_online X no_fetch leaf pool anchors s
   = Some (s, issuer_chain_excluding_leaf X leaf pool anchors)"
  by (simp add: issuer_chain_excluding_leaf_online_def issuer_chain_excluding_leaf_def online_loop_no_fetch)

section \<open>Merging\<close>

lemma merge_unique_loop_ok:
  "merge_unique_loop X cs seen out = Inr r \<Longrightarrow>
   \<exists>new. r = out @ new \<and> set new \<subseteq> set cs \<and> distinct (map (cert_sha1_thumbprint X) new) \<and>
     (\<forall>c\<in>set new. \<forall>t. cert_sha1_thumbprint X c = Inr t \<longrightarrow> t \<notin> seen) \<and>
     (\<forall>c\<in>set cs. \<exists>t. cert_sha1_thumbprint X c = Inr t \<and>
       (t \<in> seen \<or> (\<exists>d\<in>set new. cert_sha1_thumbprint X d = Inr t)))"
proof (induction cs arbitrary: seen out)
  case (Cons c cs)
  then obtain t where t: "cert_sha1_thumbprint X c = Inr t" by (auto simp: res_simps)
  show ?case
  proof (cases "t \<in> seen")
    case True
    with Cons.prems t have "merge_unique_loop X cs seen out = Inr r" by simp
    from Cons.IH [OF this] show ?thesis using True t by auto
  next
    case False
    with Cons.prems t have "merge_unique_loop X cs (insert t seen) (out @ [c]) = Inr r" by simp
    from Cons.IH [OF this] obtain new where new: "r = (out @ [c]) @ new" "set new \<subseteq> set cs"
      "distinct (map (cert_sha1_thumbprint X) new)"
      "\<forall>d\<in>set new. \<forall>u. cert_sha1_thumbprint X d = Inr u \<longrightarrow> u \<notin> insert t seen"
      "\<forall>d\<in>set cs. \<exists>u. cert_sha1_thumbprint X d = Inr u \<and>
        (u \<in> insert t seen \<or> (\<exists>e\<in>set new. cert_sha1_thumbprint X e = Inr u))" by blast
    have "Inr t \<notin> cert_sha1_thumbprint X ` set new" using new(4) by (metis imageE insertI1)
    then show ?thesis using new t False by (intro exI [of _ "c # new"]) (auto, metis)
  qed
qed simp

lemma merge_unique_distinct:
  assumes "merge_unique_certs X a b = Inr r"
  shows "distinct (map (cert_sha1_thumbprint X) r)" "set r \<subseteq> set (a @ b)"
    and "c \<in> set (a @ b) \<Longrightarrow> \<exists>d\<in>set r. cert_sha1_thumbprint X d = cert_sha1_thumbprint X c"
proof -
  obtain new where "r = new" "set new \<subseteq> set (a @ b)" "distinct (map (cert_sha1_thumbprint X) new)"
    "\<forall>c\<in>set (a @ b). \<exists>t. cert_sha1_thumbprint X c = Inr t \<and> (\<exists>d\<in>set new. cert_sha1_thumbprint X d = Inr t)"
    using merge_unique_loop_ok [of X "a @ b" "{}" "[]" r] assms unfolding merge_unique_certs_def by auto
  then show "distinct (map (cert_sha1_thumbprint X) r)" "set r \<subseteq> set (a @ b)"
    "c \<in> set (a @ b) \<Longrightarrow> \<exists>d\<in>set r. cert_sha1_thumbprint X d = cert_sha1_thumbprint X c"
    by metis+
qed

end
