(* ===== verification/Online_Http.thy ===== *)
theory Online_Http
  imports Online_Ocsp Search Trust_Options Trust_Chain
begin

text \<open>
  Model of the network half of \<^verbatim>\<open>online.rs\<close>: the HTTP request with its limits, the addresses a
  certificate names and the issuers fetched from them. A connection is a parameter: it takes the host,
  the port and the request, and answers with the reads that follow, an empty read being the end.
  The certificate library is a parameter as well.
\<close>

section \<open>One request\<close>

type_synonym exchange = "str \<Rightarrow> nat \<Rightarrow> u8 list \<Rightarrow> u8 list res list res"

definition rsplit_once :: "nat \<Rightarrow> str \<Rightarrow> (str \<times> str) option" where
  "rsplit_once c s = map_option (\<lambda>(a, b). (rev b, rev a)) (split_once c (rev s))"

fun split_ws :: "str \<Rightarrow> str list" where
  "split_ws [] = [[]]"
| "split_ws (c # s) =
     (if is_whitespace c then [] # split_ws s
      else case split_ws s of [] \<Rightarrow> [[c]] | w # ws \<Rightarrow> (c # w) # ws)"

definition split_whitespace :: "str \<Rightarrow> str list" where
  "split_whitespace s = filter (\<lambda>w. w \<noteq> []) (split_ws s)"

definition find_header_end :: "u8 list \<Rightarrow> nat option" where
  "find_header_end buf = window_position [13, 10, 13, 10] buf"

definition crlf :: str where "crlf = [13, 10]"

definition host_port :: "str \<Rightarrow> str \<times> nat" where
  "host_port authority =
     (case rsplit_once 58 authority of
        None \<Rightarrow> (authority, 80)
      | Some (h, p) \<Rightarrow> (case parse_decimal 65536 p of None \<Rightarrow> (authority, 80) | Some n \<Rightarrow> (h, n)))"

definition request_head :: "str \<Rightarrow> str \<Rightarrow> str \<Rightarrow> (str \<times> str \<times> u8 list) option \<Rightarrow> u8 list" where
  "request_head http_method path authority body =
     (let head = http_method @ lit '' '' @ path @ lit '' HTTP/1.1'' @ crlf @ lit ''Host: '' @ authority @ crlf @
            lit ''Connection: close'' @ crlf
      in case body of
        Some (content_type, accept, bytes) \<Rightarrow>
          utf8 (head @ lit ''Content-Type: '' @ content_type @ crlf @ lit ''Accept: '' @ accept @ crlf @
            lit ''Content-Length: '' @ decimal (length bytes) @ crlf @ crlf) @ bytes
      | None \<Rightarrow>
          utf8 (head @ lit ''Accept: application/pkix-cert, application/octet-stream, */*'' @ crlf @ crlf))"

fun read_response :: "OnlineTrustOptions \<Rightarrow> u8 list res list \<Rightarrow> u8 list \<Rightarrow> u8 list res" where
  "read_response options [] response = Inr response"
| "read_response options (r # reads) response =
     rbind (with_context r ''read HTTP response'') (\<lambda>chunk.
     if chunk = [] then Inr response
     else
       rbind (unwrap_or_panic (checked_add_usize (max_download_bytes options) (64 * 1024))) (\<lambda>limit.
       if limit < length (response @ chunk) then bail ''HTTP response exceeds configured size limit''
       else read_response options reads (response @ chunk)))"

definition status_of :: "str \<Rightarrow> nat option" where
  "status_of headers =
     obind (case lines headers of [] \<Rightarrow> None | l # _ \<Rightarrow> Some l) (\<lambda>line.
     obind (case split_whitespace line of _ # s # _ \<Rightarrow> Some s | _ \<Rightarrow> None) (parse_decimal 65536))"

definition response_body :: "OnlineTrustOptions \<Rightarrow> u8 list \<Rightarrow> u8 list res" where
  "response_body options response =
     rbind (ok_or (find_header_end response) ''HTTP response has no header terminator'') (\<lambda>header_end.
     rbind (slice_idx response 0 header_end) (\<lambda>head.
     rbind (ok_or (from_utf8 head) ''HTTP headers are not UTF-8'') (\<lambda>headers.
     rbind (ok_or (status_of headers) ''HTTP response has no status code'') (\<lambda>status.
     if status \<noteq> 200 then bail ''HTTP GET returned another status''
     else
       rbind (slice_idx response (header_end + 4) (length response)) (\<lambda>body.
       if max_download_bytes options < length body then bail ''download exceeds configured size limit''
       else Inr body)))))"

text \<open>A zero timeout is refused by the standard library when it is set on the stream.\<close>

definition http_request_limited ::
  "exchange \<Rightarrow> str \<Rightarrow> str \<Rightarrow> (str \<times> str \<times> u8 list) option \<Rightarrow> OnlineTrustOptions \<Rightarrow> u8 list res" where
  "http_request_limited exchange url http_method body options =
     rbind (ok_or (strip_prefix http_prefix url) ''only http:// URLs are supported'') (\<lambda>without_scheme.
     let (authority, path) = (case split_once 47 without_scheme of
           Some (a, p) \<Rightarrow> (a, lit ''/'' @ p) | None \<Rightarrow> (without_scheme, lit ''/''));
         (host, port) = host_port authority in
     if host = [] then bail ''URL host is empty''
     else if timeout_secs options = 0 then bail ''set read timeout''
     else
       rbind (exchange host port (request_head http_method path authority body)) (\<lambda>reads.
       rbind (read_response options reads []) (\<lambda>response.
       response_body options response)))"

definition http_get_limited :: "exchange \<Rightarrow> str \<Rightarrow> OnlineTrustOptions \<Rightarrow> u8 list res" where
  "http_get_limited exchange url options = http_request_limited exchange url (lit ''GET'') None options"

definition http_post_limited :: "exchange \<Rightarrow> str \<Rightarrow> str \<Rightarrow> str \<Rightarrow> u8 list \<Rightarrow> OnlineTrustOptions \<Rightarrow> u8 list res" where
  "http_post_limited exchange url content_type accept body options =
     http_request_limited exchange url (lit ''POST'') (Some (content_type, accept, body)) options"

section \<open>What a download can be\<close>

lemma read_response_sound:
  "read_response options reads acc = Inr response \<Longrightarrow>
   \<exists>parts rest. reads = map Inr parts @ rest \<and> response = acc @ concat parts \<and>
     (response = acc \<or> length response \<le> max_download_bytes options + 64 * 1024)"
proof (induction options reads acc rule: read_response.induct)
  case (1 options response)
  then show ?case by (intro exI [of _ "[]"]) simp
next
  case (2 options r reads acc)
  obtain chunk where r: "r = Inr chunk"
    using "2.prems" by (cases r) (auto simp: with_context_def split: error.splits)
  show ?case
  proof (cases "chunk = []")
    case True
    with "2.prems" r have "response = acc" by simp
    then show ?thesis by - (rule exI [of _ "[]"], rule exI [of _ "r # reads"], simp)
  next
    case False
    then obtain limit where l: "unwrap_or_panic (checked_add_usize (max_download_bytes options) (64 * 1024)) = Inr limit"
      "length (acc @ chunk) \<le> limit" "read_response options reads (acc @ chunk) = Inr response"
      using "2.prems" r by (auto simp: res_simps)
    then have lim: "limit = max_download_bytes options + 64 * 1024"
      by (auto simp: res_simps checked_add_usize_def split: if_splits)
    obtain parts rest where c: "reads = map Inr parts @ rest" "response = (acc @ chunk) @ concat parts"
      "response = acc @ chunk \<or> length response \<le> max_download_bytes options + 64 * 1024"
      using "2.IH" [of chunk limit] r False l by auto
    have "length response \<le> max_download_bytes options + 64 * 1024" using c(3) l(2) lim by force
    then show ?thesis using r c(1,2)
      by (intro exI [of _ "chunk # parts"] exI [of _ rest]) simp
  qed
qed


section \<open>What a certificate names\<close>

text \<open>
  \<open>decode_cert\<close> re-encodes a certificate and decodes it with the second certificate library, whose values
  are of type \<open>'z\<close>. \<open>send_request\<close> is the network, \<open>today\<close> the date of the clock.
\<close>

record ('c, 'z) online_lib =
  decode_cert :: "'c \<Rightarrow> 'z res"
  extensions_of :: "'z \<Rightarrow> (string \<times> u8 list) list option"
  serial_der :: "'z \<Rightarrow> u8 list res"
  subject_der :: "'z \<Rightarrow> u8 list res"
  key_bits :: "'z \<Rightarrow> u8 list"
  rsa_pkcs1v15_verify :: "'z \<Rightarrow> RsaPkcs1v15Hash \<Rightarrow> u8 list \<Rightarrow> u8 list \<Rightarrow> unit res"
  parse_der_time_tlv :: "u8 list \<Rightarrow> utc_date res"
  sha1_digest :: "u8 list \<Rightarrow> u8 list"
  send_request :: exchange
  today :: utc_date

definition AIA_OID :: string where "AIA_OID = ''1.3.6.1.5.5.7.1.1''"

definition CRL_DISTRIBUTION_POINTS_OID :: string where "CRL_DISTRIBUTION_POINTS_OID = ''2.5.29.31''"

fun extension_urls :: "(u8 list \<Rightarrow> str list res) \<Rightarrow> u8 list list \<Rightarrow> str list \<Rightarrow> str list res" where
  "extension_urls parse [] urls = Inr urls"
| "extension_urls parse (v # vs) urls = rbind (parse v) (\<lambda>us. extension_urls parse vs (urls @ us))"

definition urls_of_extension ::
  "('c, 'z) online_lib \<Rightarrow> string \<Rightarrow> (u8 list \<Rightarrow> str list res) \<Rightarrow> 'c \<Rightarrow> str list res" where
  "urls_of_extension L oid parse cert =
     rbind (decode_cert L cert) (\<lambda>z.
     case extensions_of L z of
       None \<Rightarrow> Inr []
     | Some exts \<Rightarrow> extension_urls parse (map snd (filter (\<lambda>(i, _). i = oid) exts)) [])"

definition aia_ca_issuers_urls :: "('c, 'z) online_lib \<Rightarrow> 'c \<Rightarrow> str list res" where
  "aia_ca_issuers_urls L cert = urls_of_extension L AIA_OID parse_aia_ca_issuers cert"

definition ocsp_urls :: "('c, 'z) online_lib \<Rightarrow> 'c \<Rightarrow> str list res" where
  "ocsp_urls L cert = urls_of_extension L AIA_OID parse_aia_ocsp cert"

definition crl_distribution_point_urls :: "('c, 'z) online_lib \<Rightarrow> 'c \<Rightarrow> str list res" where
  "crl_distribution_point_urls L cert =
     urls_of_extension L CRL_DISTRIBUTION_POINTS_OID parse_http_uri_general_names cert"

fun fetch_issuers ::
  "'c x509 \<Rightarrow> ('c, 'z) online_lib \<Rightarrow> OnlineTrustOptions \<Rightarrow> str list \<Rightarrow> 'c list \<Rightarrow> 'c list res" where
  "fetch_issuers X L options [] out = Inr out"
| "fetch_issuers X L options (url # urls) out =
     rbind (with_context (http_get_limited (send_request L) url options) ''fetch AIA issuer certificate'') (\<lambda>bytes.
     rbind (with_context (parse_cert_bytes X bytes) ''parse AIA issuer'') (\<lambda>issuer.
     fetch_issuers X L options urls (out @ [issuer])))"

definition issuer_candidates_from_aia ::
  "'c x509 \<Rightarrow> ('c, 'z) online_lib \<Rightarrow> OnlineTrustOptions \<Rightarrow> 'c \<Rightarrow> 'c list res" where
  "issuer_candidates_from_aia X L options cert =
     (if \<not> enable_aia options \<and> opt_aia_url_override options = None then Inr []
      else
        let first = (case opt_aia_url_override options of None \<Rightarrow> [] | Some url \<Rightarrow> [url]) in
        rbind (if enable_aia options then aia_ca_issuers_urls L cert else Inr []) (\<lambda>named.
        fetch_issuers X L options (first @ named) []))"

text \<open>Unlike the OCSP addresses the issuer addresses are not filtered: one that is not plain http ends the walk.\<close>

lemma other_scheme_ends_fetch:
  assumes "enable_aia options" "opt_aia_url_override options = None"
    and "aia_ca_issuers_urls L cert = Inr (url # urls)" "\<not> starts_with http_prefix url"
  shows "issuer_candidates_from_aia X L options cert = bail ''fetch AIA issuer certificate''"
  using assms
  by (simp add: issuer_candidates_from_aia_def http_get_limited_def http_request_limited_def starts_with_def with_context_def)

lemma no_aia_no_fetch:
  "\<not> enable_aia options \<Longrightarrow> opt_aia_url_override options = None \<Longrightarrow>
   (\<lambda>cert s. (s, issuer_candidates_from_aia X L options cert)) = no_fetch"
  by (simp add: issuer_candidates_from_aia_def no_fetch_def ret_def fun_eq_iff)

section \<open>A whole download\<close>

lemma response_body_complete:
  assumes "wf_str headers" "\<not> occurs [13, 10, 13, 10] (utf8 headers @ [13, 10, 13])" "status_of headers = Some 200"
    and "length body \<le> max_download_bytes options"
  shows "response_body options (utf8 headers @ [13, 10, 13, 10] @ body) = Inr body"
proof -
  let ?r = "utf8 headers @ [13, 10, 13, 10] @ body"
  have "\<not> occurs_at [13, 10, 13, 10] ?r j" if "j < length (utf8 headers)" for j
  proof
    assume "occurs_at [13, 10, 13, 10] ?r j"
    then have "occurs_at [13, 10, 13, 10] ((utf8 headers @ [13, 10, 13]) @ 10 # body) j" by simp
    then have "occurs_at [13, 10, 13, 10] (utf8 headers @ [13, 10, 13]) j"
      by (rule occurs_at_in_left) (use that in simp)
    with assms(2) show False by (auto simp: occurs_def)
  qed
  moreover have "occurs_at [13, 10, 13, 10] ?r (length (utf8 headers))" by (auto simp: occurs_at_iff)
  ultimately have "find_header_end ?r = Some (length (utf8 headers))"
    unfolding find_header_end_def window_position_Some by blast
  then show ?thesis
    using assms by (simp add: response_body_def slice_idx_def slice_get_def sub_def from_utf8_utf8)
qed

lemma read_response_parts:
  "\<forall>c\<in>set parts. c \<noteq> [] \<Longrightarrow> length (acc @ concat parts) \<le> max_download_bytes options + 64 * 1024 \<Longrightarrow>
   max_download_bytes options + 64 * 1024 < 2 ^ 64 \<Longrightarrow>
   read_response options (map Inr parts @ [Inr []]) acc = Inr (acc @ concat parts)"
proof (induction parts arbitrary: acc)
  case (Cons c parts)
  then show ?case using Cons.IH [of "acc @ c"] by (simp add: checked_add_usize_def)
qed simp

text \<open>A download is complete: when a plain http server answers with status 200, however the answer is
  cut into reads, the request returns the bytes behind the header exactly as they were sent.\<close>

lemma download_complete:
  assumes "strip_prefix http_prefix url = Some (host @ 47 # path)" "47 \<notin> set host" "58 \<notin> set host" "host \<noteq> []"
    and "exchange host 80 (request_head http_method (lit ''/'' @ path) host body) = Inr (map Inr parts @ [Inr []])"
    and "\<forall>c\<in>set parts. c \<noteq> []" "concat parts = utf8 headers @ [13, 10, 13, 10] @ data"
    and "wf_str headers" "\<not> occurs [13, 10, 13, 10] (utf8 headers @ [13, 10, 13])" "status_of headers = Some 200"
    and "length data \<le> max_download_bytes options" "length (utf8 headers) + 4 \<le> 64 * 1024"
    and "max_download_bytes options + 64 * 1024 < 2 ^ 64" "0 < timeout_secs options"
  shows "http_request_limited exchange url http_method body options = Inr data"
proof -
  have "host_port host = (host, 80)"
    using assms(3) split_once_None [of 58 "rev host"] by (simp add: host_port_def rsplit_once_def)
  moreover have "split_once 47 (host @ 47 # path) = Some (host, path)" using assms(2) by (rule split_once_at)
  moreover have "read_response options (map Inr parts @ [Inr []]) [] = Inr ([] @ concat parts)"
    by (rule read_response_parts) (use assms(6,7,11-13) in auto)
  ultimately show ?thesis
    using assms(1,4,5,7,14) response_body_complete [OF assms(8-11)]
    by (simp add: http_request_limited_def)
qed

section \<open>Concrete exchanges\<close>

lemma occurs_code: "n \<noteq> [] \<Longrightarrow> occurs n h \<longleftrightarrow> find_subslice h n \<noteq> None"
  using find_subslice_None [of h n] by auto

definition sample_headers :: str where
  "sample_headers = lit ''HTTP/1.1 200 OK'' @ crlf @ lit ''Transfer-Encoding: chunked''"

definition sample_http_options :: OnlineTrustOptions where
  "sample_http_options = default_online_options\<lparr>max_download_bytes := 64\<rparr>"

definition sample_exchange :: "u8 list \<Rightarrow> exchange" where
  "sample_exchange data host port request = Inr (map Inr [utf8 sample_headers, [13, 10, 13, 10] @ data] @ [Inr []])"

lemma sample_headers_ok:
  "wf_str sample_headers" "\<not> occurs [13, 10, 13, 10] (utf8 sample_headers @ [13, 10, 13])"
  "status_of sample_headers = Some 200" "length (utf8 sample_headers) = 43" "utf8 sample_headers \<noteq> []"
proof -
  have a: "is_ascii sample_headers" by (simp add: sample_headers_def crlf_def)
  show "wf_str sample_headers" by (rule wf_str_ascii [OF a])
  show "length (utf8 sample_headers) = 43" by (simp add: length_utf8_ascii [OF a]) (simp add: sample_headers_def crlf_def)
  then show "utf8 sample_headers \<noteq> []" by auto
  show "\<not> occurs [13, 10, 13, 10] (utf8 sample_headers @ [13, 10, 13])"
    by (simp add: occurs_code find_subslice_def utf8_ascii [OF a]) (simp add: sample_headers_def crlf_def window_position.simps)
  show "status_of sample_headers = Some 200"
    by (simp add: status_of_def sample_headers_def crlf_def lines.simps strip_cr_def split_whitespace_def
        is_whitespace_def parse_decimal_def is_ascii_digit_def)
qed

lemma sample_request:
  assumes "length data \<le> max_download_bytes options" "max_download_bytes options \<le> 1024" "0 < timeout_secs options"
  shows "http_request_limited (sample_exchange data) (lit ''http://ca/x'') http_method body options = Inr data"
proof (rule download_complete)
  show "strip_prefix http_prefix (lit ''http://ca/x'') = Some (lit ''ca'' @ 47 # lit ''x'')"
    by (simp add: http_prefix_def)
  show "sample_exchange data (lit ''ca'') 80
      (request_head http_method (lit ''/'' @ lit ''x'') (lit ''ca'') body) =
    Inr (map Inr [utf8 sample_headers, [13, 10, 13, 10] @ data] @ [Inr []])"
    by (simp only: sample_exchange_def)
  show "length (utf8 sample_headers) + 4 \<le> 64 * 1024" using sample_headers_ok(4) by linarith
qed (use assms sample_headers_ok in simp_all)

text \<open>The request is HTTP/1.1, so the server may answer in chunks; the framing is kept as part of the data.\<close>

lemma chunk_framing_kept:
  "http_request_limited (sample_exchange ([50, 13, 10] @ [48, 130] @ [13, 10, 48, 13, 10, 13, 10]))
     (lit ''http://ca/x'') (lit ''GET'') None sample_http_options
   = Inr ([50, 13, 10] @ [48, 130] @ [13, 10, 48, 13, 10, 13, 10])"
  by (rule sample_request) (simp_all add: sample_http_options_def default_online_options_def)


end
