(* ===== verification/Revocation.thy ===== *)
theory Revocation
  imports Online_Http
begin

text \<open>
  Model of the revocation policy of \<^verbatim>\<open>online.rs\<close>: the OCSP and CRL check of one certificate under its
  issuer, and how the mode combines them along a chain. The network answers a request the same way
  during one check; the RSA verification and the certificate library are parameters.
\<close>

section \<open>The checks of one certificate\<close>

definition url_text :: "str \<Rightarrow> string" where "url_text = map char_of"

definition date_le :: "nat \<times> nat \<times> nat \<Rightarrow> nat \<times> nat \<times> nat \<Rightarrow> bool" where
  "date_le a b = (case a of (y, m, d) \<Rightarrow> case b of (y', m', d') \<Rightarrow>
     y < y' \<or> y = y' \<and> (m < m' \<or> m = m' \<and> d \<le> d'))"

definition ensure_time_window_fresh ::
  "string \<Rightarrow> nat \<times> nat \<times> nat \<Rightarrow> nat \<times> nat \<times> nat \<Rightarrow> (nat \<times> nat \<times> nat) option \<Rightarrow> unit res" where
  "ensure_time_window_fresh label now this_upd next_upd =
     (if \<not> date_le this_upd now then bail (label @ '' thisUpdate is in the future'')
      else case next_upd of
        None \<Rightarrow> bail (label @ '' nextUpdate is required for revocation freshness'')
      | Some n \<Rightarrow> if \<not> date_le now n then bail (label @ '' nextUpdate is stale'') else Inr ())"

text \<open>The override first, then the first address of the certificate, if it has one that can be read.\<close>

definition first_url :: "str option \<Rightarrow> str list res \<Rightarrow> str option" where
  "first_url override urls =
     (case override of
        Some u \<Rightarrow> Some u
      | None \<Rightarrow> (case urls of Inr (u # _) \<Rightarrow> Some u | _ \<Rightarrow> None))"

definition ocsp_response_for_cert_id ::
  "ParsedOcspSingleResponse list \<Rightarrow> u8 list \<Rightarrow> ParsedOcspSingleResponse res" where
  "ocsp_response_for_cert_id responses cert_id =
     ok_or (List.find (\<lambda>e. cert_id_tlv e = cert_id) responses)
       ''OCSP response does not contain the requested certificate ID''"

definition verify_rsa_pkcs1v15_signature ::
  "('c, 'z) online_lib \<Rightarrow> RsaPkcs1v15Hash \<Rightarrow> u8 list \<Rightarrow> u8 list \<Rightarrow> 'c \<Rightarrow> unit res" where
  "verify_rsa_pkcs1v15_signature L hash signed_tlv signature issuer =
     rbind (decode_cert L issuer) (\<lambda>z. rsa_pkcs1v15_verify L z hash signed_tlv signature)"

definition build_ocsp_cert_id_der :: "('c, 'z) online_lib \<Rightarrow> 'c \<Rightarrow> 'c \<Rightarrow> u8 list res" where
  "build_ocsp_cert_id_der L cert issuer =
     rbind (decode_cert L cert) (\<lambda>z.
     rbind (decode_cert L issuer) (\<lambda>i.
     rbind (subject_der L i) (\<lambda>issuer_name_der.
     rbind (serial_der L z) (\<lambda>serial.
     Inr (cert_id_of (sha1_digest L) issuer_name_der (key_bits L i) serial)))))"

definition build_ocsp_request_der :: "('c, 'z) online_lib \<Rightarrow> 'c \<Rightarrow> 'c \<Rightarrow> u8 list res" where
  "build_ocsp_request_der L cert issuer =
     rbind (build_ocsp_cert_id_der L cert issuer) (\<lambda>cert_id. Inr (ocsp_request_of cert_id))"

definition check_one_cert_ocsp ::
  "('c, 'z) online_lib \<Rightarrow> OnlineTrustOptions \<Rightarrow> 'c \<Rightarrow> 'c \<Rightarrow> OcspCheckOutcome res" where
  "check_one_cert_ocsp L options cert issuer =
     (if \<not> enable_ocsp options \<and> opt_ocsp_url_override options = None then Inr NotConfigured
      else
        rbind (ok_or (first_url (opt_ocsp_url_override options) (ocsp_urls L cert))
          ''OCSP checking requires --ocsp-url-override or a certificate AIA OCSP HTTP URL'') (\<lambda>url.
        rbind (build_ocsp_request_der L cert issuer) (\<lambda>request.
        rbind (with_context (http_post_limited (send_request L) url (lit ''application/ocsp-request'')
          (lit ''application/ocsp-response'') request options) (''POST OCSP request to '' @ url_text url)) (\<lambda>response.
        rbind (with_context (parse_ocsp_response_der (parse_der_time_tlv L) response)
          (''parse OCSP response from '' @ url_text url)) (\<lambda>parsed.
        rbind (verify_rsa_pkcs1v15_signature L (ocsp_signature_hash parsed) (tbs_response_data_tlv parsed)
          (ocsp_signature parsed) issuer) (\<lambda>_.
        rbind (build_ocsp_cert_id_der L cert issuer) (\<lambda>cert_id.
        rbind (ocsp_response_for_cert_id (ocsp_responses parsed) cert_id) (\<lambda>entry.
        rbind (ensure_time_window_fresh ''OCSP SingleResponse'' (today L) (this_update entry)
          (Some (next_update entry))) (\<lambda>_.
        Inr (response_status entry))))))))))"

definition cert_serial_tlv :: "('c, 'z) online_lib \<Rightarrow> 'c \<Rightarrow> u8 list res" where
  "cert_serial_tlv L cert = rbind (decode_cert L cert) (serial_der L)"

definition verify_crl_signature :: "('c, 'z) online_lib \<Rightarrow> ParsedCrl \<Rightarrow> 'c \<Rightarrow> unit res" where
  "verify_crl_signature L crl issuer =
     verify_rsa_pkcs1v15_signature L (crl_signature_hash crl) (crl_tbs_tlv crl) (crl_signature crl) issuer"

definition check_one_cert_crl ::
  "('c, 'z) online_lib \<Rightarrow> OnlineTrustOptions \<Rightarrow> 'c \<Rightarrow> 'c \<Rightarrow> unit res" where
  "check_one_cert_crl L options cert issuer =
     rbind (ok_or (first_url (opt_crl_url_override options) (crl_distribution_point_urls L cert))
       ''revocation checking requires --crl-url-override or a certificate CRL distribution point HTTP URL'') (\<lambda>url.
     rbind (with_context (http_get_limited (send_request L) url options) (''fetch CRL from '' @ url_text url)) (\<lambda>crl_bytes.
     rbind (with_context (parse_certificate_list_der (parse_der_time_tlv L) crl_bytes) (''parse CRL from '' @ url_text url)) (\<lambda>crl.
     rbind (verify_crl_signature L crl issuer) (\<lambda>_.
     rbind (ensure_time_window_fresh ''CRL'' (today L) (crl_this_update crl) (Some (crl_next_update crl))) (\<lambda>_.
     rbind (cert_serial_tlv L cert) (\<lambda>cert_serial.
     if cert_serial \<in> set (revoked_serial_tlvs crl) then bail (''certificate is revoked by CRL '' @ url_text url)
     else Inr ()))))))"

text \<open>The CRL step of one certificate under the mode: in best effort an error counts if its text says so.\<close>

definition crl_step ::
  "('c, 'z) online_lib \<Rightarrow> OnlineTrustOptions \<Rightarrow> 'c \<Rightarrow> 'c \<Rightarrow> unit res" where
  "crl_step L options cert issuer =
     (case check_one_cert_crl L options cert issuer of
        Inr _ \<Rightarrow> Inr ()
      | Inl Panic \<Rightarrow> Inl Panic
      | Inl (Anyhow m) \<Rightarrow>
          if opt_revocation_mode options = Rev_BestEffort then
            (if occurs ''revoked'' m then bail m else Inr ())
          else bail m)"

definition cert_step ::
  "('c, 'z) online_lib \<Rightarrow> OnlineTrustOptions \<Rightarrow> 'c \<Rightarrow> 'c \<Rightarrow> unit res" where
  "cert_step L options cert issuer =
     (case check_one_cert_ocsp L options cert issuer of
        Inr Good \<Rightarrow> Inr ()
      | Inr NotConfigured \<Rightarrow> crl_step L options cert issuer
      | Inr Unknown_status \<Rightarrow>
          if opt_revocation_mode options = Rev_BestEffort then crl_step L options cert issuer
          else bail ''OCSP status is unknown''
      | Inr Revoked \<Rightarrow> bail ''OCSP status is revoked''
      | Inl Panic \<Rightarrow> Inl Panic
      | Inl e \<Rightarrow>
          if opt_revocation_mode options = Rev_BestEffort then crl_step L options cert issuer else Inl e)"

fun check_pairs ::
  "('c, 'z) online_lib \<Rightarrow> OnlineTrustOptions \<Rightarrow> 'c list \<Rightarrow> unit res" where
  "check_pairs L options (cert # issuer # rest) =
     rbind (cert_step L options cert issuer) (\<lambda>_. check_pairs L options (issuer # rest))"
| "check_pairs L options _ = Inr ()"

definition check_revocation_chain ::
  "('c, 'z) online_lib \<Rightarrow> OnlineTrustOptions \<Rightarrow> 'c \<Rightarrow> 'c list \<Rightarrow> unit res" where
  "check_revocation_chain L options leaf chain =
     (if opt_revocation_mode options = Rev_Off then Inr ()
      else check_pairs L options (leaf # chain))"

section \<open>What a passed revocation check says\<close>

fun pairs :: "'c list \<Rightarrow> ('c \<times> 'c) list" where
  "pairs (a # b # rest) = (a, b) # pairs (b # rest)"
| "pairs _ = []"

lemma check_pairs_Inr:
  "check_pairs L options cs = Inr () \<longleftrightarrow> (\<forall>(c, i)\<in>set (pairs cs). cert_step L options c i = Inr ())"
  by (induction L options cs rule: check_pairs.induct) (auto simp: res_simps)

lemma revoked_by_crl_says_so: "occurs ''revoked'' (''certificate is revoked by CRL '' @ url)"
proof -
  have "''certificate is revoked by CRL '' @ url = ''certificate is '' @ ''revoked'' @ '' by CRL '' @ url" by simp
  then show ?thesis unfolding occurs_def occurs_at_iff by blast
qed

text \<open>\<open>listed\<close>: the CRL could be read, is signed by the issuer and fresh, and lists the certificate.\<close>

definition listed :: "('c, 'z) online_lib \<Rightarrow> OnlineTrustOptions \<Rightarrow> 'c \<Rightarrow> 'c \<Rightarrow> bool" where
  "listed L options cert issuer \<longleftrightarrow>
     (\<exists>url bytes crl serial.
        first_url (opt_crl_url_override options) (crl_distribution_point_urls L cert) = Some url \<and>
        http_get_limited (send_request L) url options = Inr bytes \<and> parse_certificate_list_der (parse_der_time_tlv L) bytes = Inr crl \<and>
        verify_crl_signature L crl issuer = Inr () \<and>
        date_le (crl_this_update crl) (today L) \<and> date_le (today L) (crl_next_update crl) \<and>
        cert_serial_tlv L cert = Inr serial \<and> serial \<in> set (revoked_serial_tlvs crl))"

lemma listed_crl_error:
  "listed L options cert issuer \<Longrightarrow>
   \<exists>m. check_one_cert_crl L options cert issuer = bail m \<and> occurs ''revoked'' m"
  using revoked_by_crl_says_so
  by (auto simp: listed_def check_one_cert_crl_def with_context_def ensure_time_window_fresh_def)

lemma passed_pair:
  assumes "check_revocation_chain L options leaf chain = Inr ()" "opt_revocation_mode options \<noteq> Rev_Off"
    and "(cert, issuer) \<in> set (pairs (leaf # chain))"
  shows "check_one_cert_ocsp L options cert issuer \<noteq> Inr Revoked \<and>
    (check_one_cert_ocsp L options cert issuer = Inr Good \<or> \<not> listed L options cert issuer) \<and>
    (opt_revocation_mode options = Rev_Require \<longrightarrow>
      check_one_cert_ocsp L options cert issuer = Inr Good \<or>
      check_one_cert_ocsp L options cert issuer = Inr NotConfigured \<and>
      check_one_cert_crl L options cert issuer = Inr ())"
proof -
  have step: "cert_step L options cert issuer = Inr ()"
    using assms by (auto simp: check_revocation_chain_def check_pairs_Inr)
  have listed: "crl_step L options cert issuer \<noteq> Inr ()" if "listed L options cert issuer"
    using listed_crl_error [OF that] by (auto simp: crl_step_def split: if_splits)
  have crl: "check_one_cert_crl L options cert issuer = Inr ()"
    if "crl_step L options cert issuer = Inr ()" "opt_revocation_mode options = Rev_Require"
    using that by (auto simp: crl_step_def split: sum.splits error.splits)
  show ?thesis
  proof (cases "check_one_cert_ocsp L options cert issuer")
    case (Inl e)
    then show ?thesis using step listed by (auto simp: cert_step_def split: error.splits if_splits)
  next
    case (Inr outcome)
    then show ?thesis using step listed crl by (cases outcome) (auto simp: cert_step_def split: if_splits)
  qed
qed


text \<open>In best effort the text of an error decides, and the text holds the address.\<close>

lemma crl_address_taken_for_status:
  assumes "opt_revocation_mode options = Rev_BestEffort" "check_one_cert_ocsp L options cert issuer = Inr NotConfigured"
    and "first_url (opt_crl_url_override options) (crl_distribution_point_urls L cert) = Some url"
    and "http_get_limited (send_request L) url options = bail m" "occurs ''revoked'' (''fetch CRL from '' @ url_text url)"
  shows "cert_step L options cert issuer = bail (''fetch CRL from '' @ url_text url)"
  using assms by (simp add: cert_step_def crl_step_def check_one_cert_crl_def with_context_def)

section \<open>A revoked certificate does not pass\<close>


text \<open>C24: a fresh OCSP answer decides. When the responder answers the request for a certificate with what
  a responder writes, signed by the issuer, the outcome is the status of the first answer that carries
  the certificate identifier of the request, if that answer is fresh today.\<close>

theorem ocsp_answer_decides:
  assumes "enable_ocsp options \<or> opt_ocsp_url_override options \<noteq> None"
    and "first_url (opt_ocsp_url_override options) (ocsp_urls L cert) = Some url"
    and "build_ocsp_cert_id_der L cert issuer = Inr cert_id"
    and "http_post_limited (send_request L) url (lit ''application/ocsp-request'') (lit ''application/ocsp-response'')
      (ocsp_request_of cert_id) options = Inr (ocsp_response basic)"
    and "length (ocsp_response basic) < 65536" "basic = basic_response tbs alg signature certs"
    and "tbs = response_data responder produced answers ext"
    and "element alg" "from_algorithm_identifier_tlv alg = Some hash"
    and "element responder" "byte_at responder 0 \<noteq> Some 0xa0" "element produced"
    and "list_all2 (answer_ok (parse_der_time_tlv L)) answers rs"
    and "verify_rsa_pkcs1v15_signature L hash tbs signature issuer = Inr ()"
    and "List.find (\<lambda>r. cert_id_tlv r = cert_id) rs = Some entry"
    and "date_le (this_update entry) (today L)" "date_le (today L) (next_update entry)"
  shows "check_one_cert_ocsp L options cert issuer = Inr (response_status entry)"
proof -
  have "parse_ocsp_response_der (parse_der_time_tlv L) (ocsp_response basic) =
    Inr \<lparr>tbs_response_data_tlv = tbs, ocsp_signature_hash = hash, ocsp_signature = signature, ocsp_responses = rs\<rparr>"
    by (rule ocsp_round_trip [OF assms(5-13)])
  then show ?thesis
    using assms(1-4,14-17)
    by (auto simp: check_one_cert_ocsp_def build_ocsp_request_der_def ocsp_response_for_cert_id_def
        ensure_time_window_fresh_def)
qed

section \<open>Concrete checks\<close>

text \<open>Certificates are numbers, their own serial; the responder and the list server answer with \<open>data\<close>.\<close>

definition sample_online :: "u8 list \<Rightarrow> (nat, nat) online_lib" where
  "sample_online data = \<lparr>decode_cert = Inr, extensions_of = (\<lambda>_. None), serial_der = (\<lambda>z. Inr [2, 1, word_of_nat z]),
     subject_der = (\<lambda>_. Inr []), key_bits = (\<lambda>_. []), rsa_pkcs1v15_verify = (\<lambda>_ _ _ _. Inr ()),
     parse_der_time_tlv = sample_time, sha1_digest = (\<lambda>_. []), send_request = sample_exchange data,
     today = (2026, 1, 7)\<rparr>"

definition sample_crl_options :: OnlineTrustOptions where
  "sample_crl_options = default_online_options\<lparr>opt_revocation_mode := Rev_BestEffort,
     opt_crl_url_override := Some (lit ''http://ca/x''), max_download_bytes := 256\<rparr>"

definition sample_ocsp_options :: OnlineTrustOptions where
  "sample_ocsp_options = default_online_options\<lparr>opt_revocation_mode := Rev_Require,
     opt_ocsp_url_override := Some (lit ''http://ca/x''), max_download_bytes := 256\<rparr>"

lemmas sample_simps = sample_online_def sample_crl_options_def sample_ocsp_options_def default_online_options_def

definition sample_tbs :: "u8 list" where
  "sample_tbs = tbs_cert_list sample_alg [0x30, 0] [0x17, 1, 7] [0x17, 1, 7] [([2, 1, 5], [])] []"

definition sample_crl :: "u8 list" where "sample_crl = certificate_list sample_tbs sample_alg [9]"

lemma sample_crl_length: "length sample_crl \<le> 256"
  by (simp add: sample_crl_def sample_tbs_def certificate_list_def tbs_cert_list_def crl_entries_def
      push_der_sequence_def push_der_tlv_def push_der_len_def sample_alg_def)



definition sample_id :: "u8 list" where "sample_id = cert_id_of (\<lambda>_. []) [] [] [2, 1, 5]"

definition sample_revoked :: answer where
  "sample_revoked = \<lparr>answer_id = sample_id, answer_status = [0xa1, 0], answer_this = [0x17, 1, 7],
     answer_next = [0x17, 1, 7], answer_rest = []\<rparr>"

definition sample_entry :: ParsedOcspSingleResponse where
  "sample_entry = \<lparr>cert_id_tlv = sample_id, response_status = Revoked, this_update = (2026, 1, 7),
     next_update = (2026, 1, 7)\<rparr>"

definition sample_data :: "u8 list" where "sample_data = response_data [0xa1, 0] [0x18, 0] [sample_revoked] []"

definition sample_basic :: "u8 list" where "sample_basic = basic_response sample_data sample_alg [9] []"

lemma sample_revoked_ok: "answer_ok sample_time sample_revoked sample_entry"
proof -
  have "\<exists>c. sample_id = push_der_sequence c" by (auto simp: sample_id_def cert_id_of_def)
  then show ?thesis
    by (auto simp: answer_ok_def sample_revoked_def sample_entry_def sample_time_def cert_status_def byte_at_def
        intro: element_small)
qed

lemma sample_response_length: "length (ocsp_response sample_basic) \<le> 256"
  by (simp add: sample_basic_def sample_data_def ocsp_response_def basic_response_def response_data_def
      single_response_def push_der_sequence_def push_der_tlv_def push_der_len_def sample_alg_def sample_revoked_def
      sample_id_def cert_id_of_def SHA1_ALGORITHM_IDENTIFIER_DER_def OCSP_BASIC_OID_DER_def)

theorem ocsp_answer_decides_witness:
  "check_one_cert_ocsp (sample_online (ocsp_response sample_basic)) sample_ocsp_options 5 0
    = Inr (response_status sample_entry)"
proof (rule ocsp_answer_decides [where responder = "[0xa1, 0]" and url = "lit ''http://ca/x''"])
  show "http_post_limited (send_request (sample_online (ocsp_response sample_basic))) (lit ''http://ca/x'')
    (lit ''application/ocsp-request'') (lit ''application/ocsp-response'') (ocsp_request_of sample_id)
    sample_ocsp_options = Inr (ocsp_response sample_basic)"
    unfolding http_post_limited_def
    by (simp only: sample_online_def online_lib.simps, rule sample_request)
      (use sample_response_length in \<open>simp_all add: sample_simps\<close>)
  show "length (ocsp_response sample_basic) < 65536" using sample_response_length by simp
  show "sample_basic = basic_response sample_data sample_alg [9] []" by (rule sample_basic_def)
  show "sample_data = response_data [0xa1, 0] [0x18, 0] [sample_revoked] []" by (rule sample_data_def)
  show "element sample_alg" by (rule element_sample_alg)
  show "element [0xa1, 0]" "element [0x18, 0]" by (rule element_small [OF refl]; simp)+
  show "list_all2 (answer_ok (parse_der_time_tlv (sample_online (ocsp_response sample_basic)))) [sample_revoked]
    [sample_entry]" using sample_revoked_ok by (simp add: sample_online_def)
  show "List.find (\<lambda>r. cert_id_tlv r = sample_id) [sample_entry] = Some sample_entry" by (simp add: sample_entry_def)
  show "first_url (opt_ocsp_url_override sample_ocsp_options) (ocsp_urls (sample_online (ocsp_response sample_basic)) 5)
    = Some (lit ''http://ca/x'')"
    by (simp add: first_url_def sample_simps)
qed (simp_all add: sample_alg_hash verify_rsa_pkcs1v15_signature_def date_le_def sample_id_def
    build_ocsp_cert_id_der_def sample_entry_def byte_at_def sample_simps)

end
