(* ===== verification/Eku.thy ===== *)
theory Eku
  imports Page_Hashes Text
begin

text \<open>
  Model of the extended-key-usage scans of the trust crate, which decode object identifiers by hand: the
  canonical form test and the search of \<^verbatim>\<open>trust_pkcs7.rs\<close>, and the decoder into 64-bit arcs and the
  classification of Artifact Signing identities of \<^verbatim>\<open>artifact_signing.rs\<close>. The header decoder of the
  DER library is a parameter.
\<close>

section \<open>Searching an extension\<close>

definition oid_value_is_canonical :: "u8 list \<Rightarrow> bool" where
  "oid_value_is_canonical value =
     (if value = [] then False
      else case foldl (\<lambda>(ok, starts) byte. (ok \<and> \<not> (starts \<and> byte = 0x80), unat byte < 128)) (True, True) value of
        (ok, starts) \<Rightarrow> ok \<and> starts)"

text \<open>The body of the outer sequence, which must be the whole extension.\<close>

definition eku_body :: "der_lib \<Rightarrow> u8 list \<Rightarrow> u8 list res" where
  "eku_body D der =
     rbind (slice_reader D der ''ExtendedKeyUsage extension reader'') (\<lambda>outer.
     rbind (ok_or (der_header D outer) ''ExtendedKeyUsage extension header'') (\<lambda>(tag, len, outer).
     if tag \<noteq> 0x30 then bail ''ExtendedKeyUsage extension is not a SEQUENCE''
     else
       rbind (read_slice outer len) (\<lambda>(body, outer).
       if outer \<noteq> [] then bail ''ExtendedKeyUsage extension trailing data''
       else slice_reader D body ''ExtendedKeyUsage extension entries'')))"

text \<open>
  The object identifiers in the body, each given to \<open>step\<close> with what was found so far. \<open>fuel\<close> is the
  length of the body: every header takes at least one byte.
\<close>

fun eku_entries :: "der_lib \<Rightarrow> ('a \<Rightarrow> u8 list \<Rightarrow> 'a res) \<Rightarrow> nat \<Rightarrow> u8 list \<Rightarrow> 'a \<Rightarrow> 'a res" where
  "eku_entries D step 0 entries found = (if entries = [] then Inr found else bail ''no progress'')"
| "eku_entries D step (Suc fuel) entries found =
     (if entries = [] then Inr found
      else
        rbind (ok_or (der_header D entries) ''ExtendedKeyUsage OID header'') (\<lambda>(tag, len, entries).
        if tag \<noteq> 0x06 then bail ''ExtendedKeyUsage entry is not an OBJECT IDENTIFIER''
        else
          rbind (read_slice entries len) (\<lambda>(value, entries).
          rbind (step found value) (\<lambda>found. eku_entries D step fuel entries found))))"

definition extended_key_usage_contains :: "der_lib \<Rightarrow> u8 list \<Rightarrow> u8 list \<Rightarrow> bool res" where
  "extended_key_usage_contains D der expected =
     rbind (eku_body D der) (\<lambda>body.
     eku_entries D (\<lambda>found value.
       if \<not> oid_value_is_canonical value then
         bail ''ExtendedKeyUsage contains a non-canonical or truncated OID''
       else Inr (found \<or> value = expected)) (length body) body False)"

definition CODE_SIGNING_EKU_OID :: "u8 list" where
  "CODE_SIGNING_EKU_OID = [0x2b, 0x06, 0x01, 0x05, 0x05, 0x07, 0x03, 0x03]"

text \<open>\<open>ekus\<close> are the values of the extensions of a certificate with that identifier, if it has extensions.\<close>

fun any_code_signing :: "der_lib \<Rightarrow> u8 list list \<Rightarrow> bool res" where
  "any_code_signing D [] = Inr False"
| "any_code_signing D (e # es) =
     rbind (extended_key_usage_contains D e CODE_SIGNING_EKU_OID) (\<lambda>found.
     if found then Inr True else any_code_signing D es)"

definition x509_cert_has_code_signing_eku :: "der_lib \<Rightarrow> u8 list list option \<Rightarrow> bool res" where
  "x509_cert_has_code_signing_eku D ekus =
     (case ekus of None \<Rightarrow> Inr False | Some es \<Rightarrow> any_code_signing D es)"

section \<open>Arcs of 64 bits\<close>

fun oid_loop :: "u8 list \<Rightarrow> nat list \<Rightarrow> nat \<Rightarrow> bool \<Rightarrow> (nat list \<times> bool) res" where
  "oid_loop [] subs current starts = Inr (subs, starts)"
| "oid_loop (byte # bytes) subs current starts =
     (if starts \<and> byte = 0x80 then bail ''ExtendedKeyUsage contains a non-canonical OID''
      else if (2 ^ 64 - 1) div 2 ^ 7 < current then bail ''ExtendedKeyUsage OID arc exceeds 64 bits''
      else
        let current = 128 * current + unat byte mod 128 in
        if unat byte < 128 then oid_loop bytes (subs @ [current]) 0 True
        else oid_loop bytes subs current False)"

definition decode_oid_arcs :: "u8 list \<Rightarrow> nat list res" where
  "decode_oid_arcs value =
     rbind (oid_loop value [] 0 True) (\<lambda>(subs, starts).
     if \<not> starts \<or> subs = [] then bail ''ExtendedKeyUsage contains a truncated OID''
     else
       let first = hd subs;
           (a, b) = (if first \<le> 39 then (0, first) else if first \<le> 79 then (1, first - 40) else (2, first - 80))
       in Inr (a # b # tl subs))"

definition decode_eku_arcs :: "der_lib \<Rightarrow> u8 list \<Rightarrow> nat list list res" where
  "decode_eku_arcs D der =
     rbind (eku_body D der) (\<lambda>body.
     eku_entries D (\<lambda>out value. rbind (decode_oid_arcs value) (\<lambda>arcs. Inr (out @ [arcs]))) (length body) body [])"

section \<open>The decoder is exact\<close>

text \<open>The canonical encoding: groups of seven bits, most significant first, the last without the high bit.\<close>

fun high_groups :: "nat \<Rightarrow> u8 list" where
  "high_groups n = (if n = 0 then [] else high_groups (n div 128) @ [word_of_nat (128 + n mod 128)])"

declare high_groups.simps [simp del]

definition base128 :: "nat \<Rightarrow> u8 list" where
  "base128 n = high_groups (n div 128) @ [word_of_nat (n mod 128)]"

definition valid_arcs :: "nat list \<Rightarrow> bool" where
  "valid_arcs arcs \<longleftrightarrow>
     (case arcs of a # b # rest \<Rightarrow> a \<le> 2 \<and> (a < 2 \<longrightarrow> b < 40) \<and> 40 * a + b < 2 ^ 64 \<and> (\<forall>n\<in>set rest. n < 2 ^ 64)
      | _ \<Rightarrow> False)"

fun subidentifiers :: "nat list \<Rightarrow> nat list" where
  "subidentifiers (a # b # rest) = (40 * a + b) # rest"
| "subidentifiers arcs = arcs"

definition encode_oid :: "nat list \<Rightarrow> u8 list" where
  "encode_oid arcs = concat (map base128 (subidentifiers arcs))"

lemma unat_group: "unat (word_of_nat (128 + n mod 128) :: u8) = 128 + n mod 128"
proof -
  have "n mod 128 < 128" by simp
  then have "128 + n mod 128 < 2 ^ LENGTH(8)" by simp
  then show ?thesis by (subst unat_of_nat) (rule mod_less)
qed

lemma unat_last_group: "unat (word_of_nat (n mod 128) :: u8) = n mod 128"
proof -
  have "n mod 128 < 128" by simp
  then have "n mod 128 < 2 ^ LENGTH(8)" by (simp add: less_trans)
  then show ?thesis by (subst unat_of_nat) (rule mod_less)
qed

lemma mod_eq_sub: "128 \<le> (n :: nat) \<Longrightarrow> n < 256 \<Longrightarrow> n mod 128 = n - 128"
  by (simp add: le_mod_geq)

lemma oid_loop_high_groups:
  "m < 2 ^ 57 \<Longrightarrow> oid_loop (high_groups m @ rest) subs 0 True = oid_loop rest subs m (m = 0)"
proof (induction m arbitrary: rest rule: high_groups.induct)
  case (1 m)
  show ?case
  proof (cases "m = 0")
    case True
    then show ?thesis by (simp add: high_groups.simps)
  next
    case False
    let ?b = "word_of_nat (128 + m mod 128) :: u8"
    have "m div 128 < 2 ^ 57" using "1.prems" by (rule le_less_trans [OF div_le_dividend])
    then have "oid_loop (high_groups m @ rest) subs 0 True = oid_loop (?b # rest) subs (m div 128) (m div 128 = 0)"
      using "1.IH" [OF False, of "?b # rest"] False by (subst high_groups.simps) simp
    moreover have "\<not> (m div 128 = 0 \<and> ?b = 0x80)"
    proof
      assume a: "m div 128 = 0 \<and> ?b = 0x80"
      then have "unat ?b = 128" by simp
      then have "m mod 128 = 0" unfolding unat_group by simp
      with a False show False by (metis div_mult_mod_eq mult_0 add_0)
    qed
    moreover have "\<not> (2 ^ 64 - 1) div 2 ^ 7 < m div 128" using "1.prems" by simp
    ultimately show ?thesis using False unat_group [of m] by (simp add: Let_def del: of_nat_add)
  qed
qed

lemma oid_loop_base128:
  assumes "n < 2 ^ 64"
  shows "oid_loop (base128 n @ rest) subs 0 True = oid_loop rest (subs @ [n]) 0 True"
proof -
  let ?b = "word_of_nat (n mod 128) :: u8"
  have d: "n div 128 < 2 ^ 57" using assms by (simp add: less_mult_imp_div_less)
  have "oid_loop (base128 n @ rest) subs 0 True = oid_loop (?b # rest) subs (n div 128) (n div 128 = 0)"
    using oid_loop_high_groups [OF d] by (simp add: base128_def)
  moreover have "?b \<noteq> 0x80"
  proof
    assume "?b = 0x80"
    then have "unat ?b = 128" by simp
    moreover have "n mod 128 < 128" by simp
    ultimately show False unfolding unat_last_group by simp
  qed
  moreover have "\<not> (2 ^ 64 - 1) div 2 ^ 7 < n div 128" using d by simp
  ultimately show ?thesis using unat_last_group [of n] by (simp add: Let_def)
qed

lemma oid_loop_encode:
  "\<forall>n\<in>set ns. n < 2 ^ 64 \<Longrightarrow> oid_loop (concat (map base128 ns)) subs 0 True = Inr (subs @ ns, True)"
proof (induction ns arbitrary: subs)
  case (Cons n ns)
  then show ?case using oid_loop_base128 [of n] by simp
qed simp

lemma oid_loop_decode:
  "oid_loop bytes subs current (current = 0) = Inr (subs', True) \<Longrightarrow>
   \<exists>ns. subs' = subs @ ns \<and> high_groups current @ bytes = concat (map base128 ns) \<and> (\<forall>n\<in>set ns. n < 2 ^ 64)"
proof (induction bytes arbitrary: subs current)
  case Nil
  then show ?case by (simp add: high_groups.simps)
next
  case (Cons byte bytes)
  let ?next = "128 * current + unat byte mod 128"
  have no80: "\<not> (current = 0 \<and> byte = 0x80)" and le: "current \<le> 2 ^ 57 - 1"
    using Cons.prems by (auto split: if_splits)
  have big: "?next < 2 ^ 64"
  proof -
    have "?next < 128 * current + 128" by simp
    also have "\<dots> \<le> 2 ^ 64" using le by simp
    finally show ?thesis .
  qed
  have dm: "?next div 128 = current" "?next mod 128 = unat byte mod 128" by simp_all
  show ?case
  proof (cases "unat byte < 128")
    case True
    then have "oid_loop bytes (subs @ [?next]) 0 (0 = (0 :: nat)) = Inr (subs', True)"
      using Cons.prems no80 le by (simp add: Let_def)
    from Cons.IH [OF this] obtain ns where ns: "subs' = (subs @ [?next]) @ ns" "bytes = concat (map base128 ns)"
      "\<forall>n\<in>set ns. n < 2 ^ 64" by (auto simp: high_groups.simps)
    have "base128 ?next = high_groups current @ [byte]"
      unfolding base128_def dm using True by simp
    then show ?thesis using ns big by (intro exI [of _ "?next # ns"]) simp
  next
    case False
    have nz: "?next \<noteq> 0"
    proof
      assume "?next = 0"
      then have "current = 0" "unat byte mod 128 = 0" by simp_all
      moreover have "unat byte < 256" by (rule u8_bound)
      ultimately have "unat byte = 128" using False mod_eq_sub [of "unat byte"] by linarith
      then have "byte = 0x80" by (simp add: word_unat_eq_iff)
      with \<open>current = 0\<close> no80 show False by simp
    qed
    have "oid_loop bytes subs ?next False = Inr (subs', True)"
      using Cons.prems no80 le False by (simp add: Let_def)
    moreover have "n \<noteq> 0 \<Longrightarrow> oid_loop bytes subs n False = r \<Longrightarrow> oid_loop bytes subs n (n = 0) = r" for n r by simp
    ultimately have "oid_loop bytes subs ?next (?next = 0) = Inr (subs', True)" using nz by blast
    from Cons.IH [OF this] obtain ns where ns: "subs' = subs @ ns" "high_groups ?next @ bytes = concat (map base128 ns)"
      "\<forall>n\<in>set ns. n < 2 ^ 64" by blast
    have g: "128 + unat byte mod 128 = unat byte" using mod_eq_sub [of "unat byte"] False u8_bound [of byte] by linarith
    then have "word_of_nat (128 + ?next mod 128) = byte" unfolding dm g by simp
    then have "high_groups ?next = high_groups current @ [byte]"
      using nz dm(1) by (subst high_groups.simps) simp
    then show ?thesis using ns by auto
  qed
qed

text \<open>C35: the decoder of object identifiers is exact. It answers with a list of arcs precisely when the bytes
  are the canonical encoding of that list, the list is a valid identifier, and every subidentifier fits
  in 64 bits: nothing non-canonical, truncated or too large is read, and nothing else is refused.\<close>

theorem decode_oid_exact: "decode_oid_arcs value = Inr arcs \<longleftrightarrow> valid_arcs arcs \<and> value = encode_oid arcs"
proof
  assume d: "decode_oid_arcs value = Inr arcs"
  then obtain subs starts where l0: "oid_loop value [] 0 True = Inr (subs, starts)"
    by (auto simp: decode_oid_arcs_def res_simps)
  have l: "oid_loop value [] 0 True = Inr (subs, True)" "subs \<noteq> []"
    using d l0 by (auto simp: decode_oid_arcs_def split: if_splits)
  have arcs: "(if hd subs \<le> 39 then 0 # hd subs # tl subs else if hd subs \<le> 79 then 1 # (hd subs - 40) # tl subs
      else 2 # (hd subs - 80) # tl subs) = arcs"
    using d l by (auto simp: decode_oid_arcs_def Let_def split: if_splits)
  from oid_loop_decode [of "value" "[]" 0 subs] l(1) have e: "value = concat (map base128 subs)" "\<forall>n\<in>set subs. n < 2 ^ 64"
    by (auto simp: high_groups.simps)
  obtain f rest where s: "subs = f # rest" using l(2) by (cases subs) auto
  have "subidentifiers arcs = subs" "valid_arcs arcs"
    using e(2) unfolding arcs [symmetric] s valid_arcs_def by auto
  then show "valid_arcs arcs \<and> value = encode_oid arcs" using e(1) by (simp add: encode_oid_def)
next
  assume a: "valid_arcs arcs \<and> value = encode_oid arcs"
  then obtain x y rest where arcs: "arcs = x # y # rest"
    and v: "x \<le> 2" "x < 2 \<longrightarrow> y < 40" "40 * x + y < 2 ^ 64" "\<forall>n\<in>set rest. n < 2 ^ 64"
    by (auto simp: valid_arcs_def split: list.splits)
  have l: "oid_loop value [] 0 True = Inr ((40 * x + y) # rest, True)"
    using oid_loop_encode [of "(40 * x + y) # rest" "[]"] a v arcs by (simp add: encode_oid_def)
  consider "x = 0" "y < 40" | "x = 1" "y < 40" | "x = 2" using v(1,2) by linarith
  then show "decode_oid_arcs value = Inr arcs"
    by cases (simp_all add: decode_oid_arcs_def Let_def l arcs)
qed

end
