(* ===== verification/Trust_Policy.thy ===== *)
theory Trust_Policy
  imports Revocation Der_Wire Eku
begin

text \<open>
  Model of the trust decision of the trust crate: the chain to the anchors (\<^verbatim>\<open>chain.rs\<close>) and the trust of
  one PKCS#7 (\<^verbatim>\<open>trust_pkcs7.rs\<close>). The CMS and certificate libraries are parameters; what is modelled is
  which of their answers are asked for and how they are combined with the walk and the revocation
  policy. The lines that print the chain are left out.
\<close>

section \<open>The chain to the anchors\<close>

text \<open>\<open>verify_signatures leaf chain instant\<close> is the certificate verifier of the X.509 library.\<close>

definition verify_certificate_chain_to_anchors ::
  "'c x509 \<Rightarrow> ('c \<Rightarrow> ('s, 'c list) eff) \<Rightarrow> ('s \<Rightarrow> ('c, 'z) online_lib) \<Rightarrow>
   ('c \<Rightarrow> 'c list \<Rightarrow> 'i \<Rightarrow> unit res) \<Rightarrow> 'c \<Rightarrow> 'c list \<Rightarrow> AnchorStore \<Rightarrow> 'c list \<Rightarrow> OnlineTrustOptions \<Rightarrow> 'i \<Rightarrow> 's \<Rightarrow>
   ('s \<times> 'c res) option" where
  "verify_certificate_chain_to_anchors X fetch L verify_signatures leaf pool anchors anchor_certs online instant s =
     (case merge_unique_certs X anchor_certs pool of
        Inl e \<Rightarrow> Some (s, Inl e)
      | Inr merged \<Rightarrow>
          obind (issuer_chain_excluding_leaf_online X fetch leaf merged (Some anchors) s) (\<lambda>(s1, r).
          Some (s1, rbind r (\<lambda>chain.
            rbind (terminal_root_cert X leaf chain) (\<lambda>root.
            rbind (cert_sha1_thumbprint X root) (\<lambda>root_thumb.
            if \<not> contains_thumbprint anchors root_thumb then
              bail ''terminal root certificate is not in the anchor store''
            else
              rbind (check_revocation_chain (L s1) online leaf chain) (\<lambda>_.
              if self_issued X leaf \<and> chain = [] then Inr root
              else rbind (verify_signatures leaf chain instant) (\<lambda>_. Inr root))))))))"

text \<open>
  What it means for a leaf to be trusted: a linked chain, ending in a root whose thumbprint the store
  holds, passed revocation, and signatures verified at the instant unless the leaf is that root.
\<close>

definition trusted_chain ::
  "'c x509 \<Rightarrow> ('c, 'z) online_lib \<Rightarrow> ('c \<Rightarrow> 'c list \<Rightarrow> 'i \<Rightarrow> unit res) \<Rightarrow> AnchorStore \<Rightarrow> OnlineTrustOptions \<Rightarrow>
   'i \<Rightarrow> 'c \<Rightarrow> 'c list \<Rightarrow> 'c \<Rightarrow> bool" where
  "trusted_chain X lib verify_signatures anchors online instant leaf chain root \<longleftrightarrow>
     linked X leaf chain \<and> length chain \<le> 32 \<and> root = List.last (leaf # chain) \<and>
     anchored X (Some anchors) root \<and>
     check_revocation_chain lib online leaf chain = Inr () \<and>
     (chain = [] \<and> self_issued X leaf \<or> verify_signatures leaf chain instant = Inr ())"

lemma chain_ok_root:
  assumes "chain_ok X anchors leaf chain" "terminal_root_cert X leaf chain = Inr root"
    "self_issued X leaf \<longrightarrow> chain = []"
  shows "root = List.last (leaf # chain)" "chain = [] \<longrightarrow> self_issued X leaf"
  using assms by (auto simp: chain_ok_def terminal_root_cert_def split: if_splits)

lemma walk_self_issued:
  "issuer_chain_excluding_leaf_online X fetch leaf pool anchors s = Some (s', Inr chain) \<Longrightarrow>
   self_issued X leaf \<longrightarrow> chain = []"
  by (auto simp: issuer_chain_excluding_leaf_online_def)

text \<open>C21: only anchored chains are accepted. When the chain verification answers with a root, there is a
  chain of at most 32 certificates in which each is issued by the next, the root is its end and its
  thumbprint is in the anchor store, the revocation policy accepted it, and its signatures verified at
  the instant (or the signer is itself a self-issued anchor).\<close>

theorem chain_to_anchors_sound:
  assumes "verify_certificate_chain_to_anchors X fetch L verify_signatures leaf pool anchors anchor_certs online
    instant s = Some (s', Inr root)"
  shows "\<exists>chain. trusted_chain X (L s') verify_signatures anchors online instant leaf chain root"
proof -
  obtain merged where m: "merge_unique_certs X anchor_certs pool = Inr merged"
    using assms by (auto simp: verify_certificate_chain_to_anchors_def split: sum.splits)
  obtain r where w: "issuer_chain_excluding_leaf_online X fetch leaf merged (Some anchors) s = Some (s', r)"
    using assms m by (auto simp: verify_certificate_chain_to_anchors_def obind_Some_iff)
  obtain chain where r: "r = Inr chain"
    using assms m w by (cases r) (auto simp: verify_certificate_chain_to_anchors_def)
  note w = w [unfolded r]
  have *: "rbind (terminal_root_cert X leaf chain) (\<lambda>root.
      rbind (cert_sha1_thumbprint X root) (\<lambda>root_thumb.
      if \<not> contains_thumbprint anchors root_thumb then bail ''terminal root certificate is not in the anchor store''
      else rbind (check_revocation_chain (L s') online leaf chain) (\<lambda>_.
        if self_issued X leaf \<and> chain = [] then Inr root
        else rbind (verify_signatures leaf chain instant) (\<lambda>_. Inr root)))) = Inr root"
    using assms m w by (simp add: verify_certificate_chain_to_anchors_def)
  then obtain t where t: "terminal_root_cert X leaf chain = Inr root" "cert_sha1_thumbprint X root = Inr t"
    "contains_thumbprint anchors t" "check_revocation_chain (L s') online leaf chain = Inr ()"
    "self_issued X leaf \<and> chain = [] \<or> verify_signatures leaf chain instant = Inr ()"
    by (auto simp: res_simps split: if_splits)
  have "chain_ok X (Some anchors) leaf chain" by (rule walk_chain [OF w])
  moreover note chain_ok_root [OF this t(1) walk_self_issued [OF w]]
  ultimately show ?thesis using t by (auto simp: trusted_chain_def chain_ok_def anchored_def)
qed

section \<open>The trust of one PKCS#7\<close>

text \<open>
  The two CMS libraries: \<open>'p\<close> is a signature as the first one parses it, \<open>'sd\<close> one of the second,
  \<open>'x\<close> its certificates. \<open>sd_certificates\<close> lists the choices of the certificate set, \<open>None\<close> for one
  that is not a certificate, else its encoding.
\<close>

record ('c, 'p, 'sd, 'x, 'i) cms_lib =
  picky_from_der :: "u8 list \<Rightarrow> 'p res"
  picky_validate :: "'p \<Rightarrow> u8 list \<Rightarrow> 'i \<Rightarrow> bool \<Rightarrow> unit res"
  decode_certificates :: "'p \<Rightarrow> 'c list"
  signing_certificate :: "'p \<Rightarrow> 'c list \<Rightarrow> 'c res"
  parse_pkcs7_signed_data_der :: "u8 list \<Rightarrow> 'sd res"
  verify_indirect_digest :: "'sd \<Rightarrow> u8 list \<Rightarrow> unit res"
  verify_pkcs9_digest :: "'sd \<Rightarrow> u8 list \<Rightarrow> unit res"
  first_signer_certificate :: "'sd \<Rightarrow> 'x res"
  cms_der :: der_lib
  eku_extensions :: "'x \<Rightarrow> u8 list list option"
  sd_certificates :: "'sd \<Rightarrow> u8 list res option list option"
  x509_der :: "'x \<Rightarrow> u8 list res"
  verify_signatures :: "'c \<Rightarrow> 'c list \<Rightarrow> 'i \<Rightarrow> unit res"

datatype CmsDigestCheck = Cms_AuthenticodeIndirect "u8 list" | Cms_Pkcs9MessageDigest "u8 list"

definition has_code_signing_eku :: "('c, 'p, 'sd, 'x, 'i) cms_lib \<Rightarrow> 'x \<Rightarrow> bool res" where
  "has_code_signing_eku C x = x509_cert_has_code_signing_eku (cms_der C) (eku_extensions C x)"

fun embedded_loop :: "'c x509 \<Rightarrow> u8 list res option list \<Rightarrow> 'c list \<Rightarrow> 'c list res" where
  "embedded_loop X [] out = Inr out"
| "embedded_loop X (None # choices) out = embedded_loop X choices out"
| "embedded_loop X (Some encoded # choices) out =
     rbind encoded (\<lambda>der. rbind (from_der X der) (\<lambda>cert. embedded_loop X choices (out @ [cert])))"

definition signed_data_embedded_picky_certs ::
  "'c x509 \<Rightarrow> ('c, 'p, 'sd, 'x, 'i) cms_lib \<Rightarrow> 'sd \<Rightarrow> 'c list res" where
  "signed_data_embedded_picky_certs X C sd =
     (case sd_certificates C sd of None \<Rightarrow> Inr [] | Some choices \<Rightarrow> embedded_loop X choices [])"

definition cert_of_x509 :: "'c x509 \<Rightarrow> ('c, 'p, 'sd, 'x, 'i) cms_lib \<Rightarrow> 'x \<Rightarrow> 'c res" where
  "cert_of_x509 X C x = rbind (x509_der C x) (from_der X)"

definition verify_trust_chain ::
  "'c x509 \<Rightarrow> ('c, 'p, 'sd, 'x, 'i) cms_lib \<Rightarrow> 'c \<Rightarrow> 'c list \<Rightarrow> u8 list \<Rightarrow> 'i \<Rightarrow> unit res" where
  "verify_trust_chain X C leaf chain root_thumb instant =
     (if self_issued X leaf \<and> cert_sha1_thumbprint X leaf = Inr root_thumb then Inr ()
      else verify_signatures C leaf chain instant)"

text \<open>The end both paths share: the walk, the anchor test, revocation and the signatures of the chain.\<close>

definition trust_leaf ::
  "'c x509 \<Rightarrow> ('c \<Rightarrow> ('s, 'c list) eff) \<Rightarrow> ('s \<Rightarrow> ('c, 'z) online_lib) \<Rightarrow>
   ('c, 'p, 'sd, 'x, 'i) cms_lib \<Rightarrow> AnchorStore \<Rightarrow> OnlineTrustOptions \<Rightarrow> 'i \<Rightarrow> 'c \<Rightarrow> 'c list \<Rightarrow> 's \<Rightarrow>
   ('s \<times> unit res) option" where
  "trust_leaf X fetch L C anchors online instant leaf merged s =
     obind (issuer_chain_excluding_leaf_online X fetch leaf merged (Some anchors) s) (\<lambda>(s1, r).
     Some (s1, rbind r (\<lambda>chain.
       rbind (terminal_root_cert X leaf chain) (\<lambda>root.
       rbind (cert_sha1_thumbprint X root) (\<lambda>root_thumb.
       if \<not> contains_thumbprint anchors root_thumb then
         bail ''terminal root certificate is not in the anchor store''
       else
         rbind (check_revocation_chain (L s1) online leaf chain) (\<lambda>_.
         verify_trust_chain X C leaf chain root_thumb instant))))))"

text \<open>What the CMS path settles before the chain: the digest binding, the signer and its certificates.\<close>

definition cms_signer ::
  "'c x509 \<Rightarrow> ('c, 'p, 'sd, 'x, 'i) cms_lib \<Rightarrow> u8 list \<Rightarrow> CmsDigestCheck \<Rightarrow> 'c list \<Rightarrow> AuthenticodeTrustPolicy \<Rightarrow>
   ('c \<times> 'c list) res" where
  "cms_signer X C blob digest_check anchor_certs policy =
     rbind (parse_pkcs7_signed_data_der C blob) (\<lambda>sd.
     rbind (case digest_check of
              Cms_AuthenticodeIndirect d \<Rightarrow> verify_indirect_digest C sd d
            | Cms_Pkcs9MessageDigest d \<Rightarrow> verify_pkcs9_digest C sd d) (\<lambda>_.
     rbind (first_signer_certificate C sd) (\<lambda>x509_leaf.
     rbind (if strict_code_signing_eku policy then has_code_signing_eku C x509_leaf else Inr True) (\<lambda>eku.
     if \<not> eku then bail ''leaf certificate lacks code-signing extended key usage''
     else
       rbind (signed_data_embedded_picky_certs X C sd) (\<lambda>embedded.
       rbind (merge_unique_certs X anchor_certs embedded) (\<lambda>merged.
       rbind (cert_of_x509 X C x509_leaf) (\<lambda>leaf_from_x509.
       rbind (cert_sha1_thumbprint X leaf_from_x509) (\<lambda>leaf_thumb.
       Inr (case List.find (\<lambda>c. cert_sha1_thumbprint X c = Inr leaf_thumb) (embedded @ anchor_certs) of
              Some c \<Rightarrow> c
            | None \<Rightarrow> leaf_from_x509, merged)))))))))"

definition verify_pkcs7_trust_cms_rsa_sha256_fallback where
  "verify_pkcs7_trust_cms_rsa_sha256_fallback X fetch L C blob digest_check anchors anchor_certs policy online
     instant s =
     (case cms_signer X C blob digest_check anchor_certs policy of
        Inl e \<Rightarrow> Some (s, Inl e)
      | Inr (leaf, merged) \<Rightarrow> trust_leaf X fetch L C anchors online instant leaf merged s)"

definition verify_authenticode_pkcs7_trust where
  "verify_authenticode_pkcs7_trust X fetch L C pkcs7_der subject_digest anchors anchor_certs policy online instant s =
     (let blob = normalize_pkcs7_der_for_authenticode pkcs7_der in
      case picky_from_der C blob of
        Inl _ \<Rightarrow>
          verify_pkcs7_trust_cms_rsa_sha256_fallback X fetch L C blob (Cms_AuthenticodeIndirect subject_digest)
            anchors anchor_certs policy online instant s
      | Inr sig \<Rightarrow>
          (case rbind (picky_validate C sig subject_digest instant (strict_code_signing_eku policy)) (\<lambda>_.
                rbind (merge_unique_certs X (decode_certificates C sig) anchor_certs) (\<lambda>merged.
                rbind (signing_certificate C sig merged) (\<lambda>leaf. Inr (leaf, merged)))) of
             Inl e \<Rightarrow> Some (s, Inl e)
           | Inr (leaf, merged) \<Rightarrow> trust_leaf X fetch L C anchors online instant leaf merged s))"

definition verify_pkcs9_message_digest_pkcs7_trust where
  "verify_pkcs9_message_digest_pkcs7_trust X fetch L C pkcs7_der content_digest anchors anchor_certs policy online
     instant s =
     verify_pkcs7_trust_cms_rsa_sha256_fallback X fetch L C (normalize_pkcs7_der_for_authenticode pkcs7_der)
       (Cms_Pkcs9MessageDigest content_digest) anchors anchor_certs policy online instant s"

datatype Pkcs7DigestBinding = AuthenticodeIndirect | Pkcs9MessageDigest

fun verify_pkcs7_trust_with_binding where
  "verify_pkcs7_trust_with_binding AuthenticodeIndirect X fetch L C pkcs7_der digest anchors anchor_certs policy
     online instant s =
   verify_authenticode_pkcs7_trust X fetch L C pkcs7_der digest anchors anchor_certs policy online instant s"
| "verify_pkcs7_trust_with_binding Pkcs9MessageDigest X fetch L C pkcs7_der digest anchors anchor_certs policy
     online instant s =
   verify_pkcs9_message_digest_pkcs7_trust X fetch L C pkcs7_der digest anchors anchor_certs policy online instant s"

section \<open>What a trusted PKCS#7 is\<close>

text \<open>
  \<open>signature_binds\<close>: one of the libraries checked the signature against this digest for this signer,
  with the key usage where the policy is strict.
\<close>

definition signature_binds ::
  "('c, 'p, 'sd, 'x, 'i) cms_lib \<Rightarrow> Pkcs7DigestBinding \<Rightarrow> u8 list \<Rightarrow> u8 list \<Rightarrow> AuthenticodeTrustPolicy \<Rightarrow> 'i \<Rightarrow> bool" where
  "signature_binds C binding blob digest policy instant \<longleftrightarrow>
     (binding = AuthenticodeIndirect \<and>
        (\<exists>sig. picky_from_der C blob = Inr sig \<and>
           picky_validate C sig digest instant (strict_code_signing_eku policy) = Inr ())) \<or>
     (\<exists>sd x. parse_pkcs7_signed_data_der C blob = Inr sd \<and> first_signer_certificate C sd = Inr x \<and>
        (case binding of
           AuthenticodeIndirect \<Rightarrow> verify_indirect_digest C sd digest = Inr ()
         | Pkcs9MessageDigest \<Rightarrow> verify_pkcs9_digest C sd digest = Inr ()) \<and>
        (strict_code_signing_eku policy \<longrightarrow> has_code_signing_eku C x = Inr True))"

lemma trust_leaf_sound:
  assumes "trust_leaf X fetch L C anchors online instant leaf merged s = Some (s', Inr ())"
  shows "\<exists>chain root. trusted_chain X (L s') (verify_signatures C) anchors online instant leaf chain root"
proof -
  obtain r where w: "issuer_chain_excluding_leaf_online X fetch leaf merged (Some anchors) s = Some (s', r)"
    using assms by (auto simp: trust_leaf_def obind_Some_iff)
  obtain chain where r: "r = Inr chain" using assms w by (cases r) (auto simp: trust_leaf_def)
  note w = w [unfolded r]
  obtain root t where t: "terminal_root_cert X leaf chain = Inr root" "cert_sha1_thumbprint X root = Inr t"
    "contains_thumbprint anchors t" "check_revocation_chain (L s') online leaf chain = Inr ()"
    "verify_trust_chain X C leaf chain t instant = Inr ()"
    using assms w by (auto simp: trust_leaf_def res_simps split: if_splits)
  note ok = walk_chain [OF w]
  note root = chain_ok_root [OF ok t(1) walk_self_issued [OF w]]
  have sig: "chain = [] \<and> self_issued X leaf \<or> verify_signatures C leaf chain instant = Inr ()"
  proof (cases "self_issued X leaf")
    case True
    with walk_self_issued [OF w] show ?thesis by simp
  next
    case False
    with t(5) show ?thesis by (simp add: verify_trust_chain_def)
  qed
  have "linked X leaf chain" "length chain \<le> 32" using ok by (simp_all add: chain_ok_def)
  moreover have "anchored X (Some anchors) root" using t(2,3) by (simp add: anchored_def)
  ultimately have "trusted_chain X (L s') (verify_signatures C) anchors online instant leaf chain root"
    unfolding trusted_chain_def using root(1) t(4) sig by blast
  then show ?thesis by blast
qed

lemma cms_signer_sound:
  "cms_signer X C blob check anchor_certs policy = Inr (leaf, merged) \<Longrightarrow>
   \<exists>sd x. parse_pkcs7_signed_data_der C blob = Inr sd \<and> first_signer_certificate C sd = Inr x \<and>
     (case check of
        Cms_AuthenticodeIndirect d \<Rightarrow> verify_indirect_digest C sd d = Inr ()
      | Cms_Pkcs9MessageDigest d \<Rightarrow> verify_pkcs9_digest C sd d = Inr ()) \<and>
     (strict_code_signing_eku policy \<longrightarrow> has_code_signing_eku C x = Inr True)"
  by (cases check) (auto simp: cms_signer_def res_simps split: if_splits)

lemma fallback_sound:
  assumes "verify_pkcs7_trust_cms_rsa_sha256_fallback X fetch L C blob check anchors anchor_certs policy online
    instant s = Some (s', Inr ())"
  shows "(\<exists>leaf merged. cms_signer X C blob check anchor_certs policy = Inr (leaf, merged)) \<and>
    (\<exists>leaf chain root. trusted_chain X (L s') (verify_signatures C) anchors online instant leaf chain root)"
proof (cases "cms_signer X C blob check anchor_certs policy")
  case (Inl e)
  then show ?thesis using assms by (simp add: verify_pkcs7_trust_cms_rsa_sha256_fallback_def)
next
  case (Inr lm)
  obtain leaf merged where lm: "lm = (leaf, merged)" by (cases lm)
  have "trust_leaf X fetch L C anchors online instant leaf merged s = Some (s', Inr ())"
    using assms Inr lm by (simp add: verify_pkcs7_trust_cms_rsa_sha256_fallback_def)
  from trust_leaf_sound [OF this] show ?thesis using Inr lm by blast
qed

lemma fallback_binds:
  assumes "verify_pkcs7_trust_cms_rsa_sha256_fallback X fetch L C blob
    (case binding of AuthenticodeIndirect \<Rightarrow> Cms_AuthenticodeIndirect d | Pkcs9MessageDigest \<Rightarrow> Cms_Pkcs9MessageDigest d)
    anchors anchor_certs policy online instant s = Some (s', Inr ())"
  shows "signature_binds C binding blob d policy instant"
proof -
  obtain leaf merged where "cms_signer X C blob (case binding of AuthenticodeIndirect \<Rightarrow> Cms_AuthenticodeIndirect d
    | Pkcs9MessageDigest \<Rightarrow> Cms_Pkcs9MessageDigest d) anchor_certs policy = Inr (leaf, merged)"
    using fallback_sound [OF assms] by blast
  from cms_signer_sound [OF this] show ?thesis by (cases binding) (simp_all add: signature_binds_def)
qed

lemma pkcs7_trust_accepted:
  assumes "verify_pkcs7_trust_with_binding binding X fetch L C pkcs7_der digest anchors anchor_certs policy online
    instant s = Some (s', Inr ())"
  shows "signature_binds C binding (normalize_pkcs7_der_for_authenticode pkcs7_der) digest policy instant \<and>
    (\<exists>leaf chain root. trusted_chain X (L s') (verify_signatures C) anchors online instant leaf chain root)"
proof (cases binding)
  case Pkcs9MessageDigest
  then have "verify_pkcs7_trust_cms_rsa_sha256_fallback X fetch L C (normalize_pkcs7_der_for_authenticode pkcs7_der)
    (case binding of AuthenticodeIndirect \<Rightarrow> Cms_AuthenticodeIndirect digest
     | Pkcs9MessageDigest \<Rightarrow> Cms_Pkcs9MessageDigest digest) anchors anchor_certs policy online instant s = Some (s', Inr ())"
    using assms by (simp add: verify_pkcs9_message_digest_pkcs7_trust_def)
  from fallback_binds [OF this] fallback_sound [OF this] show ?thesis by blast
next
  case ind: AuthenticodeIndirect
  show ?thesis
  proof (cases "picky_from_der C (normalize_pkcs7_der_for_authenticode pkcs7_der)")
    case (Inl e)
    then have "verify_pkcs7_trust_cms_rsa_sha256_fallback X fetch L C (normalize_pkcs7_der_for_authenticode pkcs7_der)
      (case binding of AuthenticodeIndirect \<Rightarrow> Cms_AuthenticodeIndirect digest
       | Pkcs9MessageDigest \<Rightarrow> Cms_Pkcs9MessageDigest digest) anchors anchor_certs policy online instant s = Some (s', Inr ())"
      using assms ind by (simp add: verify_authenticode_pkcs7_trust_def Let_def)
    from fallback_binds [OF this] fallback_sound [OF this] show ?thesis by blast
  next
    case (Inr sig)
    let ?blob = "normalize_pkcs7_der_for_authenticode pkcs7_der"
    let ?prep = "rbind (picky_validate C sig digest instant (strict_code_signing_eku policy)) (\<lambda>_.
      rbind (merge_unique_certs X (decode_certificates C sig) anchor_certs) (\<lambda>merged.
      rbind (signing_certificate C sig merged) (\<lambda>leaf. Inr (leaf, merged))))"
    have run: "(case ?prep of Inl e \<Rightarrow> Some (s, Inl e)
        | Inr (leaf, merged) \<Rightarrow> trust_leaf X fetch L C anchors online instant leaf merged s) = Some (s', Inr ())"
      using assms ind Inr by (simp add: verify_authenticode_pkcs7_trust_def Let_def)
    then obtain leaf merged where p: "?prep = Inr (leaf, merged)" by (cases ?prep) auto
    then have "picky_validate C sig digest instant (strict_code_signing_eku policy) = Inr ()"
      by (auto simp: res_simps)
    moreover have "trust_leaf X fetch L C anchors online instant leaf merged s = Some (s', Inr ())"
      using run unfolding p by simp
    from trust_leaf_sound [OF this]
    have "\<exists>leaf chain root. trusted_chain X (L s') (verify_signatures C) anchors online instant leaf chain root"
      by blast
    ultimately show ?thesis using Inr ind by (auto simp: signature_binds_def)
  qed
qed


section \<open>Concrete inputs\<close>

text \<open>
  Certificates are numbers, each issued by its half; 0 is the root. Checking is best effort and no
  address is known, and the CMS library accepts every signature by 2.
\<close>

definition sample_x509 :: "nat x509" where
  "sample_x509 = \<lparr>subject_name = (\<lambda>c. [c]), issuer_name = (\<lambda>c. [c div 2]), to_der = (\<lambda>c. Inr [word_of_nat c]),
     from_der = (\<lambda>d. Inr (unat (hd d))), from_pem_str = (\<lambda>_. Inr 0), sha1 = (\<lambda>d. d)\<rparr>"

definition sample_trust_options :: OnlineTrustOptions where
  "sample_trust_options = default_online_options\<lparr>opt_revocation_mode := Rev_BestEffort\<rparr>"

lemmas trust_sample_simps = sample_online_def sample_trust_options_def default_online_options_def

definition sample_der :: der_lib where
  "sample_der = \<lparr>der_slice_ok = (\<lambda>_. True),
     der_header = (\<lambda>r. case r of t # n # rest \<Rightarrow> Some (t, unat n, rest) | _ \<Rightarrow> None),
     der_octet_string = (\<lambda>_. None), der_oid = (\<lambda>_. None), cms_content_info = (\<lambda>_. None),
     cms_signed_data = (\<lambda>_. None)\<rparr>"

definition sample_cms :: "(nat, unit, unit, nat, unit) cms_lib" where
  "sample_cms = \<lparr>picky_from_der = (\<lambda>_. bail ''unsupported''), picky_validate = (\<lambda>_ _ _ _. Inr ()),
     decode_certificates = (\<lambda>_. []), signing_certificate = (\<lambda>_ _. Inr 2), parse_pkcs7_signed_data_der = (\<lambda>_. Inr ()),
     verify_indirect_digest = (\<lambda>_ _. Inr ()), verify_pkcs9_digest = (\<lambda>_ _. Inr ()),
     first_signer_certificate = (\<lambda>_. Inr 2), cms_der = sample_der, eku_extensions = (\<lambda>_. Some [[0x30, 10, 0x06, 8] @ CODE_SIGNING_EKU_OID]),
     sd_certificates = (\<lambda>_. Some [Some (Inr [2]), None, Some (Inr [1])]), x509_der = (\<lambda>x. Inr [word_of_nat x]), verify_signatures = (\<lambda>_ _ _. Inr ())\<rparr>"

lemma sample_eku: "has_code_signing_eku sample_cms x = Inr True"
  by (simp add: has_code_signing_eku_def x509_cert_has_code_signing_eku_def sample_cms_def sample_der_def
      extended_key_usage_contains_def eku_body_def slice_reader_def read_slice_def oid_value_is_canonical_def
      CODE_SIGNING_EKU_OID_def)

lemma sample_walk:
  "issuer_chain_excluding_leaf_online sample_x509 no_fetch 2 [0, 2, 1] (Some {[0]}) ()
   = Some ((), Inr [1, 0])"
  by (simp add: issuer_chain_excluding_leaf_online_def online_loop.simps sample_x509_def self_issued_def
      find_issuer_def anchored_def cert_sha1_thumbprint_def contains_thumbprint_def)

lemma sample_revocation_ok: "check_revocation_chain (sample_online []) sample_trust_options 2 [1, 0] = Inr ()"
  by (simp add: check_revocation_chain_def cert_step_def check_one_cert_ocsp_def crl_step_def check_one_cert_crl_def
      first_url_def crl_distribution_point_urls_def urls_of_extension_def occurs_code find_subslice_def
      window_position.simps trust_sample_simps)

theorem chain_to_anchors_sound_witness:
  "\<exists>chain. trusted_chain sample_x509 (sample_online []) (\<lambda>_ _ _. Inr ()) {[0]} sample_trust_options () 2 chain 0"
proof -
  have "verify_certificate_chain_to_anchors sample_x509 no_fetch (\<lambda>_. sample_online []) (\<lambda>_ _ _. Inr ()) 2 [2, 1]
    {[0]} [0] sample_trust_options () () = Some ((), Inr 0)"
    using sample_walk sample_revocation_ok
    by (simp add: verify_certificate_chain_to_anchors_def merge_unique_certs_def cert_sha1_thumbprint_def
        sample_x509_def terminal_root_cert_def contains_thumbprint_def self_issued_def)
  from chain_to_anchors_sound [OF this] show ?thesis .
qed


end
