(* ===== verification/Artifact_Signing.thy ===== *)
theory Artifact_Signing
  imports Trust_Policy
begin

text \<open>
  Model of \<^verbatim>\<open>artifact_signing.rs\<close> of the trust crate: the identity in the extended key usages of a
  certificate, the pinned roots, the rules for a signer, the instant and the anchors of a verification,
  and the verification of one PKCS#7. The embedded certificate text, the timestamp verifier and the
  certificate libraries are parameters.
\<close>

section \<open>Identities\<close>

datatype ArtifactSigningCertificateKind = PublicTrust | PublicTrustTest | PrivateTrust | PrivateTrustCiPolicy

fun kind_as_str :: "ArtifactSigningCertificateKind \<Rightarrow> string" where
  "kind_as_str PublicTrust = ''public_trust''"
| "kind_as_str PublicTrustTest = ''public_trust_test''"
| "kind_as_str PrivateTrust = ''private_trust''"
| "kind_as_str PrivateTrustCiPolicy = ''private_trust_ci_policy''"

record ArtifactSigningIdentity =
  identity_kind :: ArtifactSigningCertificateKind
  publisher_id :: str
  identity_eku :: str
  has_public_trust_marker :: bool
  identity_code_signing :: bool

definition ARTIFACT_SIGNING_EKU_ARCS :: "nat list" where
  "ARTIFACT_SIGNING_EKU_ARCS = [1, 3, 6, 1, 4, 1, 311, 97]"

definition CODE_SIGNING_EKU_ARCS :: "nat list" where
  "CODE_SIGNING_EKU_ARCS = [1, 3, 6, 1, 5, 5, 7, 3, 3]"

fun dotted :: "nat list \<Rightarrow> str" where
  "dotted [] = []"
| "dotted [a] = decimal a"
| "dotted (a # b # arcs) = decimal a @ 46 # dotted (b # arcs)"

text \<open>The slice patterns are tried in the order of the source.\<close>

definition classify_identity_suffix ::
  "nat list \<Rightarrow> (ArtifactSigningCertificateKind \<times> nat list) option" where
  "classify_identity_suffix rest =
     obind (if take 2 rest = [1, 2] then Some (PublicTrustTest, drop 2 rest)
            else if take 3 rest = [1, 3, 1] then Some (PrivateTrust, drop 3 rest)
            else if take 3 rest = [1, 4, 1] then Some (PrivateTrustCiPolicy, drop 3 rest)
            else if take 1 rest = [1] then None
            else Some (PublicTrust, rest))
       (\<lambda>(kind, sfx). if sfx \<noteq> [] then Some (kind, sfx) else None)"

text \<open>The scan over the decoded usages: the identity so far, the marker, and the code signing usage.\<close>

type_synonym scan = "ArtifactSigningIdentity option \<times> bool \<times> bool"

fun scan_arcs :: "nat list list \<Rightarrow> scan \<Rightarrow> scan res" where
  "scan_arcs [] st = Inr st"
| "scan_arcs (arcs # more_arcs) (identity, marker, code) =
     (if arcs = CODE_SIGNING_EKU_ARCS then scan_arcs more_arcs (identity, marker, True)
      else if take 8 arcs \<noteq> ARTIFACT_SIGNING_EKU_ARCS then scan_arcs more_arcs (identity, marker, code)
      else if drop 8 arcs = [1, 0] then scan_arcs more_arcs (identity, True, code)
      else case classify_identity_suffix (drop 8 arcs) of
        None \<Rightarrow> scan_arcs more_arcs (identity, marker, code)
      | Some (kind, sfx) \<Rightarrow>
          let found = \<lparr>identity_kind = kind, publisher_id = dotted sfx, identity_eku = dotted arcs,
                has_public_trust_marker = False, identity_code_signing = False\<rparr> in
          (case identity of
             None \<Rightarrow> scan_arcs more_arcs (Some found, marker, code)
           | Some prev \<Rightarrow>
               if identity_eku prev \<noteq> identity_eku found then
                 bail ''certificate carries multiple Artifact Signing identity EKUs''
               else scan_arcs more_arcs (identity, marker, code)))"

fun scan_extensions :: "der_lib \<Rightarrow> u8 list list \<Rightarrow> scan \<Rightarrow> scan res" where
  "scan_extensions D [] st = Inr st"
| "scan_extensions D (e # es) st =
     rbind (decode_eku_arcs D e) (\<lambda>arcs. rbind (scan_arcs arcs st) (\<lambda>st. scan_extensions D es st))"

definition artifact_signing_identity_from_certificate ::
  "('c, 'p, 'sd, 'x, 'i) cms_lib \<Rightarrow> 'x \<Rightarrow> ArtifactSigningIdentity option res" where
  "artifact_signing_identity_from_certificate C cert =
     (case eku_extensions C cert of
        None \<Rightarrow> Inr None
      | Some ekus \<Rightarrow>
          rbind (scan_extensions (cms_der C) ekus (None, False, False)) (\<lambda>(identity, marker, code).
          Inr (map_option (\<lambda>i. i\<lparr>has_public_trust_marker := marker, identity_code_signing := code\<rparr>) identity)))"

definition pkcs7_signer_identity ::
  "('c, 'p, 'sd, 'x, 'i) cms_lib \<Rightarrow> u8 list \<Rightarrow> ('x \<times> ArtifactSigningIdentity option) res" where
  "pkcs7_signer_identity C pkcs7_der =
     rbind (parse_pkcs7_signed_data_der C pkcs7_der) (\<lambda>sd.
     rbind (first_signer_certificate C sd) (\<lambda>cert.
     rbind (artifact_signing_identity_from_certificate C cert) (\<lambda>identity.
     Inr (cert, identity))))"

section \<open>Roots and rules\<close>

record PinnedRoot =
  root_sha1 :: "u8 list"
  root_sha256 :: "u8 list"
  root_pem :: "u8 list"

definition root_certificate :: "'c x509 \<Rightarrow> (u8 list \<Rightarrow> u8 list) \<Rightarrow> PinnedRoot \<Rightarrow> 'c res" where
  "root_certificate X sha256 root =
     rbind (parse_cert_bytes X (root_pem root)) (\<lambda>cert.
     rbind (to_der X cert) (\<lambda>der.
     rbind (cert_sha1_thumbprint X cert) (\<lambda>thumb.
     if thumb \<noteq> root_sha1 root \<or> sha256 der \<noteq> root_sha256 root then
       bail ''embedded pinned root does not match its pinned thumbprints''
     else Inr cert)))"

definition anchors_from_certs :: "'c x509 \<Rightarrow> 'c list \<Rightarrow> (AnchorStore \<times> 'c list) res" where
  "anchors_from_certs X certs = rbind (merge_cert_thumbprints X certs anchor_empty) (\<lambda>store. Inr (store, certs))"

fun root_certificates :: "'c x509 \<Rightarrow> (u8 list \<Rightarrow> u8 list) \<Rightarrow> PinnedRoot list \<Rightarrow> 'c list res" where
  "root_certificates X sha256 [] = Inr []"
| "root_certificates X sha256 (r # rs) =
     rbind (root_certificate X sha256 r) (\<lambda>c. rbind (root_certificates X sha256 rs) (\<lambda>cs. Inr (c # cs)))"

definition public_trust_anchors ::
  "'c x509 \<Rightarrow> (u8 list \<Rightarrow> u8 list) \<Rightarrow> PinnedRoot list \<Rightarrow> (AnchorStore \<times> 'c list) res" where
  "public_trust_anchors X sha256 roots = rbind (root_certificates X sha256 roots) (anchors_from_certs X)"

definition checked_identity ::
  "('c, 'p, 'sd, 'x, 'i) cms_lib \<Rightarrow> 'x \<Rightarrow> ArtifactSigningPolicy \<Rightarrow> ArtifactSigningIdentity res" where
  "checked_identity C signer policy =
     rbind (artifact_signing_identity_from_certificate C signer) (\<lambda>found.
     rbind (ok_or found ''signer has no Artifact Signing identity EKU'') (\<lambda>identity.
     if identity_kind identity = PublicTrust \<and> \<not> has_public_trust_marker identity then
       bail ''Public Trust signer lacks the marker EKU''
     else if identity_kind identity = PrivateTrustCiPolicy then
       bail ''Private Trust CI Policy certificates sign WDAC policies, not Authenticode code''
     else if \<not> identity_code_signing identity then bail ''signer lacks the code signing EKU''
     else if expected_publisher_ids policy \<noteq> [] \<and>
        publisher_id identity \<notin> set (map trim (expected_publisher_ids policy)) then
       bail ''Artifact Signing publisher ID is not one of the expected IDs''
     else Inr identity))"

definition artifact_signing_anchors ::
  "'c x509 \<Rightarrow> (u8 list \<Rightarrow> u8 list) \<Rightarrow> PinnedRoot list \<Rightarrow> (str \<Rightarrow> u8 list res) \<Rightarrow>
   ArtifactSigningCertificateKind \<Rightarrow> ArtifactSigningPolicy \<Rightarrow> (AnchorStore \<times> 'c list) res" where
  "artifact_signing_anchors X sha256 roots read_bytes kind policy =
     (if kind = PublicTrust then public_trust_anchors X sha256 roots
      else if private_trust_root_files policy = [] then bail ''signature requires the subscriber root certificate''
      else
        rbind (load_files X read_bytes (private_trust_root_files policy)) (\<lambda>(_, certs).
        let certs = filter (\<lambda>c. case cert_sha1_thumbprint X c of
              Inl _ \<Rightarrow> False | Inr t \<Rightarrow> t \<notin> root_sha1 ` set roots) certs in
        if certs = [] then bail ''no usable private trust roots''
        else anchors_from_certs X certs))"

section \<open>Verifying one PKCS#7\<close>

text \<open>
  Everything outside the crate that a verification looks at, with the state \<open>'s\<close> of the network: the
  libraries, the clock, the files, the pinned roots, and the timestamp readers.
\<close>

record ('c, 'p, 'sd, 'x, 'i, 'z, 's) trust_world =
  w_x509 :: "'c x509"
  w_cms :: "('c, 'p, 'sd, 'x, 'i) cms_lib"
  w_online :: "'s \<Rightarrow> ('c, 'z) online_lib"
  w_fetched :: "'s \<Rightarrow> 's"
  w_clock :: "'s \<Rightarrow> 'i"
  w_rfc3339 :: "'i \<Rightarrow> str"
  w_subject :: "'x \<Rightarrow> str"
  w_sha256 :: "u8 list \<Rightarrow> u8 list"
  w_pinned :: "PinnedRoot list"
  w_read :: "str \<Rightarrow> u8 list res"
  w_timestamp_date :: "u8 list \<Rightarrow> 'i option"
  w_trusted_token_date ::
    "u8 list \<Rightarrow> u8 list \<Rightarrow> AnchorStore \<Rightarrow> 'c list \<Rightarrow> OnlineTrustOptions \<Rightarrow> ('s, 'i) run"
  w_trusted_timestamp_date ::
    "u8 list \<Rightarrow> AnchorStore \<Rightarrow> 'c list \<Rightarrow> OnlineTrustOptions \<Rightarrow> ('s, 'i option) run"

definition fetch_issuers_of ::
  "('c, 'p, 'sd, 'x, 'i, 'z, 's) trust_world \<Rightarrow> OnlineTrustOptions \<Rightarrow> 'c \<Rightarrow> ('s, 'c list) eff" where
  "fetch_issuers_of W options cert s = (w_fetched W s, issuer_candidates_from_aia (w_x509 W) (w_online W s) options cert)"

definition pkcs7_trust ::
  "('c, 'p, 'sd, 'x, 'i, 'z, 's) trust_world \<Rightarrow> Pkcs7DigestBinding \<Rightarrow> u8 list \<Rightarrow> u8 list \<Rightarrow> AnchorStore \<Rightarrow> 'c list \<Rightarrow>
   AuthenticodeTrustPolicy \<Rightarrow> OnlineTrustOptions \<Rightarrow> 'i \<Rightarrow> ('s, unit) run" where
  "pkcs7_trust W binding pkcs7_der digest anchors certs policy options instant =
     verify_pkcs7_trust_with_binding binding (w_x509 W) (fetch_issuers_of W options) (w_online W) (w_cms W) pkcs7_der
       digest anchors certs policy options instant"

record 'i ArtifactSigningVerifiedSignature =
  signature_index :: nat
  signer_subject :: str
  v_identity :: ArtifactSigningIdentity
  root_subject :: str
  v_root_sha1 :: string
  timestamped :: bool
  verification_time :: str

definition subject_display :: "('c, 'p, 'sd, 'x, 'i, 'z, 's) trust_world \<Rightarrow> 'x \<Rightarrow> str" where
  "subject_display W x =
     (case cert_of_x509 (w_x509 W) (w_cms W) x of Inr c \<Rightarrow> subject_name (w_x509 W) c | Inl _ \<Rightarrow> w_subject W x)"

definition artifact_signing_instant ::
  "('c, 'p, 'sd, 'x, 'i, 'z, 's) trust_world \<Rightarrow> ArtifactSigningPolicy \<Rightarrow> 'i TrustVerifyPeOptions \<Rightarrow>
   (AnchorStore \<Rightarrow> 'c list \<Rightarrow> ('s, 'i option) run) \<Rightarrow> ('s, bool \<times> 'i) run" where
  "artifact_signing_instant W policy opts trusted_timestamp =
     (case verification_instant_override opts of
        Some instant \<Rightarrow> run_res (Inr (False, instant))
      | None \<Rightarrow>
          run_then (run_res (public_trust_anchors (w_x509 W) (w_sha256 W) (w_pinned W))) (\<lambda>(anchors, certs).
          run_then (trusted_timestamp anchors certs) (\<lambda>found.
          case found of
            Some instant \<Rightarrow> run_res (Inr (True, instant))
          | None \<Rightarrow>
              if require_timestamp policy then
                run_res (bail ''Artifact Signing signature has no RFC 3161 timestamp countersignature'')
              else (\<lambda>s. Some (s, Inr (False, w_clock W s))))))"

text \<open>Walking the chain again, without a network, to report its end.\<close>

fun readable_certs :: "'c x509 \<Rightarrow> u8 list res option list \<Rightarrow> 'c list" where
  "readable_certs X [] = []"
| "readable_certs X (Some (Inr der) # choices) =
     (case from_der X der of Inr c \<Rightarrow> c # readable_certs X choices | Inl _ \<Rightarrow> readable_certs X choices)"
| "readable_certs X (_ # choices) = readable_certs X choices"

definition signer_terminal_root ::
  "('c, 'p, 'sd, 'x, 'i, 'z, 's) trust_world \<Rightarrow> u8 list \<Rightarrow> AnchorStore \<Rightarrow> 'c list \<Rightarrow> 'c res" where
  "signer_terminal_root W pkcs7_der anchors anchor_certs =
     (let X = w_x509 W; C = w_cms W in
      rbind (parse_pkcs7_signed_data_der C (normalize_pkcs7_der_for_authenticode pkcs7_der)) (\<lambda>sd.
      rbind (first_signer_certificate C sd) (\<lambda>x.
      rbind (cert_of_x509 X C x) (\<lambda>leaf.
      rbind (merge_unique_certs X anchor_certs
        (case sd_certificates C sd of None \<Rightarrow> [] | Some choices \<Rightarrow> readable_certs X choices)) (\<lambda>pool.
      rbind (issuer_chain_excluding_leaf X leaf pool (Some anchors)) (\<lambda>chain.
      terminal_root_cert X leaf chain))))))"

definition verified_signature ::
  "('c, 'p, 'sd, 'x, 'i, 'z, 's) trust_world \<Rightarrow> nat \<Rightarrow> str \<Rightarrow> ArtifactSigningIdentity \<Rightarrow> 'c \<Rightarrow> bool \<Rightarrow> 'i \<Rightarrow>
   'i ArtifactSigningVerifiedSignature res" where
  "verified_signature W index subject identity root stamped instant =
     rbind (cert_sha1_thumbprint (w_x509 W) root) (\<lambda>thumb.
     Inr \<lparr>signature_index = index, signer_subject = subject, v_identity = identity,
       root_subject = subject_name (w_x509 W) root, v_root_sha1 = hex_lower thumb, timestamped = stamped,
       verification_time = w_rfc3339 W instant\<rparr>)"

definition verify_artifact_signing_pkcs7 ::
  "('c, 'p, 'sd, 'x, 'i, 'z, 's) trust_world \<Rightarrow> u8 list \<Rightarrow> nat \<Rightarrow> u8 list \<Rightarrow> Pkcs7DigestBinding \<Rightarrow>
   ArtifactSigningPolicy \<Rightarrow> 'i TrustVerifyPeOptions \<Rightarrow> ('s, 'i ArtifactSigningVerifiedSignature) run" where
  "verify_artifact_signing_pkcs7 W pkcs7_der index subject_digest binding policy opts =
     run_then (run_res (pkcs7_signer_identity (w_cms W) pkcs7_der)) (\<lambda>(signer, _).
     run_then (run_res (checked_identity (w_cms W) signer policy)) (\<lambda>identity.
     run_then (artifact_signing_instant W policy opts (\<lambda>anchors certs.
       w_trusted_timestamp_date W pkcs7_der anchors certs (opt_online opts))) (\<lambda>(stamped, instant).
     run_then (run_res (artifact_signing_anchors (w_x509 W) (w_sha256 W) (w_pinned W) (w_read W)
       (identity_kind identity) policy)) (\<lambda>(anchors, certs).
     run_then (pkcs7_trust W binding pkcs7_der subject_digest anchors certs
       \<lparr>strict_code_signing_eku = True, policy_prefer_timestamp = False, policy_require_timestamp = False\<rparr>
       (opt_online opts) instant) (\<lambda>_.
     run_then (run_res (signer_terminal_root W pkcs7_der anchors certs)) (\<lambda>root.
     run_res (verified_signature W index (subject_display W signer) identity root stamped instant)))))))"

text \<open>For signatures that are not CMS: the caller has checked the signature value with the key of the signer.\<close>

definition verify_artifact_signing_certificate ::
  "('c, 'p, 'sd, 'x, 'i, 'z, 's) trust_world \<Rightarrow> 'x \<Rightarrow> 'c list \<Rightarrow> (u8 list \<times> u8 list) option \<Rightarrow> nat \<Rightarrow>
   ArtifactSigningPolicy \<Rightarrow> 'i TrustVerifyPeOptions \<Rightarrow> ('s, 'i ArtifactSigningVerifiedSignature) run" where
  "verify_artifact_signing_certificate W signer extra_certs timestamp index policy opts =
     run_then (run_res (checked_identity (w_cms W) signer policy)) (\<lambda>identity.
     run_then (artifact_signing_instant W policy opts (\<lambda>anchors certs.
       case timestamp of
         None \<Rightarrow> run_res (Inr None)
       | Some (token, covered) \<Rightarrow>
           run_then (w_trusted_token_date W token covered anchors certs (opt_online opts)) (\<lambda>i. run_res (Inr (Some i)))))
       (\<lambda>(stamped, instant).
     run_then (run_res (artifact_signing_anchors (w_x509 W) (w_sha256 W) (w_pinned W) (w_read W)
       (identity_kind identity) policy)) (\<lambda>(anchors, certs).
     run_then (run_res (cert_of_x509 (w_x509 W) (w_cms W) signer)) (\<lambda>leaf.
     run_then (verify_certificate_chain_to_anchors (w_x509 W) (fetch_issuers_of W (opt_online opts)) (w_online W)
       (verify_signatures (w_cms W)) leaf extra_certs anchors certs (opt_online opts) instant) (\<lambda>root.
     run_res (verified_signature W index (subject_display W signer) identity root stamped instant))))))"

section \<open>What an identity says about the usages\<close>

lemma decimal_no_dot: "46 \<notin> set (decimal n)"
  using decimal_digits [of n] by (auto simp: is_ascii_digit_def)

lemma split_dotted: "arcs \<noteq> [] \<Longrightarrow> split_on 46 (dotted arcs) = map decimal arcs"
  by (induction arcs rule: dotted.induct) (auto simp: split_on_free split_on_append decimal_no_dot)

lemma inj_decimal: "inj decimal"
proof (rule injI)
  fix m n assume "decimal m = decimal n"
  from arg_cong [OF this, of "foldl (\<lambda>n d. 10 * n + (d - 48)) 0"] show "m = n" unfolding decimal_value .
qed

lemma dotted_inject:
  assumes "a \<noteq> []" "b \<noteq> []"
  shows "dotted a = dotted b \<longleftrightarrow> a = b"
proof
  assume "dotted a = dotted b"
  then have "map decimal a = map decimal b" using split_dotted [OF assms(1)] split_dotted [OF assms(2)] by simp
  then show "a = b" by (simp only: inj_map_eq_map [OF inj_decimal])
qed simp

definition identity_of_arcs :: "nat list \<Rightarrow> ArtifactSigningIdentity option" where
  "identity_of_arcs arcs =
     (if take 8 arcs = ARTIFACT_SIGNING_EKU_ARCS then
        map_option (\<lambda>(kind, sfx). \<lparr>identity_kind = kind, publisher_id = dotted sfx, identity_eku = dotted arcs,
          has_public_trust_marker = False, identity_code_signing = False\<rparr>) (classify_identity_suffix (drop 8 arcs))
      else None)"

lemma code_signing_no_identity: "identity_of_arcs CODE_SIGNING_EKU_ARCS = None"
  by (simp add: identity_of_arcs_def CODE_SIGNING_EKU_ARCS_def ARTIFACT_SIGNING_EKU_ARCS_def)

lemma marker_no_identity: "drop 8 arcs = [1, 0] \<Longrightarrow> identity_of_arcs arcs = None"
  by (simp add: identity_of_arcs_def classify_identity_suffix_def)

lemma marker_arcs: "take 8 arcs = ARTIFACT_SIGNING_EKU_ARCS \<and> drop 8 arcs = [1, 0] \<longleftrightarrow>
  arcs = ARTIFACT_SIGNING_EKU_ARCS @ [1, 0]"
proof
  assume "take 8 arcs = ARTIFACT_SIGNING_EKU_ARCS \<and> drop 8 arcs = [1, 0]"
  then show "arcs = ARTIFACT_SIGNING_EKU_ARCS @ [1, 0]" using append_take_drop_id [of 8 arcs] by simp
qed (simp add: ARTIFACT_SIGNING_EKU_ARCS_def)

text \<open>One step of the scan, in terms of what the arcs are.\<close>

lemma scan_arcs_step:
  "scan_arcs (arcs # rest) (identity, marker, code) =
     (case identity_of_arcs arcs of
        None \<Rightarrow> scan_arcs rest (identity, marker \<or> arcs = ARTIFACT_SIGNING_EKU_ARCS @ [1, 0],
          code \<or> arcs = CODE_SIGNING_EKU_ARCS)
      | Some found \<Rightarrow>
          (case identity of
             None \<Rightarrow> scan_arcs rest (Some found, marker, code)
           | Some prev \<Rightarrow> if identity_eku prev \<noteq> identity_eku found then
               bail ''certificate carries multiple Artifact Signing identity EKUs''
             else scan_arcs rest (identity, marker, code)))"
proof -
  have code: "CODE_SIGNING_EKU_ARCS \<noteq> ARTIFACT_SIGNING_EKU_ARCS @ [1, 0]"
    by (simp add: CODE_SIGNING_EKU_ARCS_def ARTIFACT_SIGNING_EKU_ARCS_def)
  consider (code) "arcs = CODE_SIGNING_EKU_ARCS"
    | (other) "arcs \<noteq> CODE_SIGNING_EKU_ARCS" "take 8 arcs \<noteq> ARTIFACT_SIGNING_EKU_ARCS"
    | (marker) "arcs \<noteq> CODE_SIGNING_EKU_ARCS" "take 8 arcs = ARTIFACT_SIGNING_EKU_ARCS" "drop 8 arcs = [1, 0]"
    | (rest) "arcs \<noteq> CODE_SIGNING_EKU_ARCS" "take 8 arcs = ARTIFACT_SIGNING_EKU_ARCS" "drop 8 arcs \<noteq> [1, 0]"
    by blast
  then show ?thesis
  proof cases
    case code
    then show ?thesis using code_signing_no_identity \<open>CODE_SIGNING_EKU_ARCS \<noteq> _\<close> by simp
  next
    case other
    then have "arcs \<noteq> ARTIFACT_SIGNING_EKU_ARCS @ [1, 0]" using marker_arcs [of arcs] by blast
    then show ?thesis using other by (simp add: identity_of_arcs_def)
  next
    case marker
    then have "arcs = ARTIFACT_SIGNING_EKU_ARCS @ [1, 0]" using marker_arcs [of arcs] by blast
    then show ?thesis using marker marker_no_identity [of arcs] by simp
  next
    case rest
    then have "arcs \<noteq> ARTIFACT_SIGNING_EKU_ARCS @ [1, 0]" using marker_arcs [of arcs] by blast
    then show ?thesis using rest
      by (cases "classify_identity_suffix (drop 8 arcs)") (auto simp: identity_of_arcs_def Let_def)
  qed
qed

declare scan_arcs.simps(2) [simp del]

lemma scan_arcs_append: "scan_arcs (xs @ ys) st = rbind (scan_arcs xs st) (scan_arcs ys)"
proof (induction xs arbitrary: st)
  case (Cons x xs)
  obtain i m c where "st = (i, m, c)" by (cases st)
  then show ?case by (auto simp: scan_arcs_step Cons.IH split: option.splits)
qed simp

lemma scan_arcs_sound:
  "scan_arcs L (i, m, c) = Inr (i', m', c') \<Longrightarrow>
   (c' \<longleftrightarrow> c \<or> CODE_SIGNING_EKU_ARCS \<in> set L) \<and> (m' \<longleftrightarrow> m \<or> ARTIFACT_SIGNING_EKU_ARCS @ [1, 0] \<in> set L) \<and>
   (i \<noteq> None \<longrightarrow> i' = i) \<and> (i = None \<longrightarrow> i' \<noteq> None \<longrightarrow> (\<exists>a\<in>set L. identity_of_arcs a = i')) \<and>
   (\<forall>a\<in>set L. \<forall>d. identity_of_arcs a = Some d \<longrightarrow> (\<exists>e. i' = Some e \<and> identity_eku e = identity_eku d))"
proof (induction L arbitrary: i m c)
  case (Cons x L)
  show ?case
  proof (cases "identity_of_arcs x")
    case None
    then show ?thesis using Cons.prems Cons.IH [of i] by (auto simp: scan_arcs_step)
  next
    case (Some found)
    then have x: "x \<noteq> CODE_SIGNING_EKU_ARCS" "x \<noteq> ARTIFACT_SIGNING_EKU_ARCS @ [1, 0]"
      using code_signing_no_identity marker_no_identity [of x] by (auto simp: ARTIFACT_SIGNING_EKU_ARCS_def)
    show ?thesis
    proof (cases i)
      case None
      then have "scan_arcs L (Some found, m, c) = Inr (i', m', c')" using Cons.prems Some by (simp add: scan_arcs_step)
      from Cons.IH [OF this] show ?thesis using None Some x by auto
    next
      case (Some prev)
      then have "identity_eku prev = identity_eku found" "scan_arcs L (i, m, c) = Inr (i', m', c')"
        using Cons.prems \<open>identity_of_arcs x = Some found\<close> by (auto simp: scan_arcs_step split: if_splits)
      with Cons.IH [OF this(2)] show ?thesis using Some x \<open>identity_of_arcs x = Some found\<close> by auto
    qed
  qed
qed simp

lemma scan_extensions_flat:
  "scan_extensions D es st = Inr st' \<Longrightarrow>
   \<exists>arcss. list_all2 (\<lambda>e a. decode_eku_arcs D e = Inr a) es arcss \<and> scan_arcs (concat arcss) st = Inr st'"
proof (induction es arbitrary: st)
  case (Cons e es)
  then obtain arcs st1 where a: "decode_eku_arcs D e = Inr arcs" "scan_arcs arcs st = Inr st1"
    "scan_extensions D es st1 = Inr st'" by (auto simp: res_simps)
  from Cons.IH [OF this(3)] obtain arcss where "list_all2 (\<lambda>e a. decode_eku_arcs D e = Inr a) es arcss"
    "scan_arcs (concat arcss) st1 = Inr st'" by blast
  with a show ?case by (intro exI [of _ "arcs # arcss"]) (simp add: scan_arcs_append)
qed (intro exI [of _ "[]"], simp)

text \<open>\<open>usages\<close>: all object identifiers in the extended key usages of a certificate.\<close>

definition usages :: "('c, 'p, 'sd, 'x, 'i) cms_lib \<Rightarrow> 'x \<Rightarrow> nat list list \<Rightarrow> bool" where
  "usages C x all_arcs \<longleftrightarrow>
     (\<exists>ekus arcss. eku_extensions C x = Some ekus \<and>
        list_all2 (\<lambda>e a. decode_eku_arcs (cms_der C) e = Inr a) ekus arcss \<and> all_arcs = concat arcss)"

fun kind_arcs :: "ArtifactSigningCertificateKind \<Rightarrow> nat list" where
  "kind_arcs PublicTrust = []"
| "kind_arcs PublicTrustTest = [1, 2]"
| "kind_arcs PrivateTrust = [1, 3, 1]"
| "kind_arcs PrivateTrustCiPolicy = [1, 4, 1]"

lemma take_eq_prefix: "take n xs = p \<Longrightarrow> xs = p @ drop n xs"
  using append_take_drop_id [of n xs] by simp

lemma classify_shape:
  assumes "classify_identity_suffix rest = Some (kind, sfx)"
  shows "rest = kind_arcs kind @ sfx" "sfx \<noteq> []" "kind = PublicTrust \<longrightarrow> hd sfx \<noteq> 1"
proof -
  have "rest = kind_arcs kind @ sfx \<and> sfx \<noteq> [] \<and> (kind = PublicTrust \<longrightarrow> hd sfx \<noteq> 1)"
  proof -
    consider (test) "take 2 rest = [1, 2]" | (priv) "take 2 rest \<noteq> [1, 2]" "take 3 rest = [1, 3, 1]"
      | (ci) "take 2 rest \<noteq> [1, 2]" "take 3 rest \<noteq> [1, 3, 1]" "take 3 rest = [1, 4, 1]"
      | (other) "take 2 rest \<noteq> [1, 2]" "take 3 rest \<noteq> [1, 3, 1]" "take 3 rest \<noteq> [1, 4, 1]" by blast
    then show ?thesis
    proof cases
      case test
      then have "kind = PublicTrustTest" "sfx = drop 2 rest" "sfx \<noteq> []"
        using assms by (auto simp: classify_identity_suffix_def split: if_splits)
      then show ?thesis using take_eq_prefix [OF test] by simp
    next
      case priv
      then have "kind = PrivateTrust" "sfx = drop 3 rest" "sfx \<noteq> []"
        using assms by (auto simp: classify_identity_suffix_def split: if_splits)
      then show ?thesis using take_eq_prefix [OF priv(2)] by simp
    next
      case ci
      then have "kind = PrivateTrustCiPolicy" "sfx = drop 3 rest" "sfx \<noteq> []"
        using assms by (auto simp: classify_identity_suffix_def split: if_splits)
      then show ?thesis using take_eq_prefix [OF ci(3)] by simp
    next
      case other
      then show ?thesis using assms by (cases rest) (auto simp: classify_identity_suffix_def split: if_splits)
    qed
  qed
  then show "rest = kind_arcs kind @ sfx" "sfx \<noteq> []" "kind = PublicTrust \<longrightarrow> hd sfx \<noteq> 1" by simp_all
qed

lemma identity_of_arcs_shape:
  assumes "identity_of_arcs arcs = Some d"
  shows "\<exists>sfx. arcs = ARTIFACT_SIGNING_EKU_ARCS @ kind_arcs (identity_kind d) @ sfx \<and> sfx \<noteq> [] \<and>
    publisher_id d = dotted sfx \<and> identity_eku d = dotted arcs \<and> (identity_kind d = PublicTrust \<longrightarrow> hd sfx \<noteq> 1)"
proof -
  have t: "take 8 arcs = ARTIFACT_SIGNING_EKU_ARCS" using assms by (simp add: identity_of_arcs_def split: if_splits)
  with assms obtain kind sfx where c: "classify_identity_suffix (drop 8 arcs) = Some (kind, sfx)"
    and d: "d = \<lparr>identity_kind = kind, publisher_id = dotted sfx, identity_eku = dotted arcs,
      has_public_trust_marker = False, identity_code_signing = False\<rparr>" by (auto simp: identity_of_arcs_def)
  have "arcs = ARTIFACT_SIGNING_EKU_ARCS @ kind_arcs kind @ sfx"
    using append_take_drop_id [of 8 arcs] classify_shape(1) [OF c] t by simp
  then show ?thesis using classify_shape(2,3) [OF c] d by (intro exI [of _ sfx]) simp
qed

text \<open>C34: the publisher pin is exact. When a signer passes the rules for an identity, all its extended key
  usages decode, exactly one of them is an identity: the Artifact Signing prefix, the arcs of the
  kind and the arcs that the publisher identifier prints; with the code signing usage, and for Public
  Trust the marker; and when publishers are expected, those arcs print as one of the expected ones.\<close>

theorem publisher_pin_exact:
  assumes "checked_identity C signer policy = Inr identity"
  shows "\<exists>all_arcs arcs sfx. usages C signer all_arcs \<and> arcs \<in> set all_arcs \<and>
    arcs = ARTIFACT_SIGNING_EKU_ARCS @ kind_arcs (identity_kind identity) @ sfx \<and> sfx \<noteq> [] \<and>
    publisher_id identity = dotted sfx \<and> identity_kind identity \<noteq> PrivateTrustCiPolicy \<and>
    {a \<in> set all_arcs. identity_of_arcs a \<noteq> None} = {arcs} \<and> CODE_SIGNING_EKU_ARCS \<in> set all_arcs \<and>
    (identity_kind identity = PublicTrust \<longrightarrow> hd sfx \<noteq> 1) \<and>
    (identity_kind identity = PublicTrust \<longrightarrow> ARTIFACT_SIGNING_EKU_ARCS @ [1, 0] \<in> set all_arcs) \<and>
    (expected_publisher_ids policy \<noteq> [] \<longrightarrow> dotted sfx \<in> trim ` set (expected_publisher_ids policy))"
proof -
  have found: "artifact_signing_identity_from_certificate C signer = Inr (Some identity)"
    and rules: "identity_kind identity = PublicTrust \<longrightarrow> has_public_trust_marker identity"
      "identity_kind identity \<noteq> PrivateTrustCiPolicy" "identity_code_signing identity"
      "expected_publisher_ids policy \<noteq> [] \<longrightarrow> publisher_id identity \<in> trim ` set (expected_publisher_ids policy)"
    using assms by (auto simp: checked_identity_def res_simps split: if_splits)
  obtain ekus where e: "eku_extensions C signer = Some ekus"
    using found by (auto simp: artifact_signing_identity_from_certificate_def split: option.splits)
  obtain i m c where scan: "scan_extensions (cms_der C) ekus (None, False, False) = Inr (Some i, m, c)"
    and identity: "identity = i\<lparr>has_public_trust_marker := m, identity_code_signing := c\<rparr>"
    using found e by (auto simp: artifact_signing_identity_from_certificate_def res_simps)
  obtain arcss where a: "list_all2 (\<lambda>e a. decode_eku_arcs (cms_der C) e = Inr a) ekus arcss"
    "scan_arcs (concat arcss) (None, False, False) = Inr (Some i, m, c)"
    using scan_extensions_flat [OF scan] by blast
  let ?all = "concat arcss"
  have s: "c \<longleftrightarrow> CODE_SIGNING_EKU_ARCS \<in> set ?all" "m \<longleftrightarrow> ARTIFACT_SIGNING_EKU_ARCS @ [1, 0] \<in> set ?all"
    "\<exists>a\<in>set ?all. identity_of_arcs a = Some i"
    "\<And>a d. a \<in> set ?all \<Longrightarrow> identity_of_arcs a = Some d \<Longrightarrow> identity_eku d = identity_eku i"
    using scan_arcs_sound [OF a(2)] by auto
  obtain arcs where arcs: "arcs \<in> set ?all" "identity_of_arcs arcs = Some i" using s(3) by blast
  obtain sfx where sfx: "arcs = ARTIFACT_SIGNING_EKU_ARCS @ kind_arcs (identity_kind i) @ sfx" "sfx \<noteq> []"
    "publisher_id i = dotted sfx" "identity_eku i = dotted arcs" "identity_kind i = PublicTrust \<longrightarrow> hd sfx \<noteq> 1"
    using identity_of_arcs_shape [OF arcs(2)] by blast
  have "a = arcs" if "a \<in> set ?all" "identity_of_arcs a = Some d" for a d
  proof -
    from identity_of_arcs_shape [OF that(2)] have "identity_eku d = dotted a" "a \<noteq> []"
      by (auto simp: ARTIFACT_SIGNING_EKU_ARCS_def)
    moreover have "arcs \<noteq> []" using sfx(1,2) by simp
    ultimately show ?thesis using s(4) [OF that] sfx(4) dotted_inject [of a arcs] by simp
  qed
  then have "identity_of_arcs a \<noteq> None \<longleftrightarrow> a = arcs" if "a \<in> set ?all" for a
    using that arcs(2) by blast
  then have only: "{a \<in> set ?all. identity_of_arcs a \<noteq> None} = {arcs}" using arcs(1) by blast
  have used: "usages C signer ?all" unfolding usages_def using e a(1) by blast
  have same: "identity_kind identity = identity_kind i" "publisher_id identity = publisher_id i"
    "has_public_trust_marker identity = m" "identity_code_signing identity = c"
    by (simp_all add: identity)
  note r = rules [unfolded same]
  show ?thesis unfolding same
  proof (intro exI conjI)
    show "usages C signer ?all" by (rule used)
    show "arcs \<in> set ?all" by (rule arcs(1))
    show "arcs = ARTIFACT_SIGNING_EKU_ARCS @ kind_arcs (identity_kind i) @ sfx" by (rule sfx(1))
    show "sfx \<noteq> []" by (rule sfx(2))
    show "publisher_id i = dotted sfx" by (rule sfx(3))
    show "identity_kind i \<noteq> PrivateTrustCiPolicy" by (rule r(2))
    show "{a \<in> set ?all. identity_of_arcs a \<noteq> None} = {arcs}" by (rule only)
    show "CODE_SIGNING_EKU_ARCS \<in> set ?all" using r(3) s(1) by blast
    show "identity_kind i = PublicTrust \<longrightarrow> hd sfx \<noteq> 1" by (rule sfx(5))
    show "identity_kind i = PublicTrust \<longrightarrow> ARTIFACT_SIGNING_EKU_ARCS @ [1, 0] \<in> set ?all" using r(1) s(2) by blast
    show "expected_publisher_ids policy \<noteq> [] \<longrightarrow> dotted sfx \<in> trim ` set (expected_publisher_ids policy)"
      using r(4) unfolding sfx(3) .
  qed
qed

section \<open>What an accepted signature is\<close>

lemma merge_cert_thumbprints_set:
  "merge_cert_thumbprints X cs store = Inr store' \<Longrightarrow>
   t \<in> store' \<longleftrightarrow> t \<in> store \<or> (\<exists>c\<in>set cs. cert_sha1_thumbprint X c = Inr t)"
  by (induction cs arbitrary: store) (auto simp: res_simps)

lemma anchors_from_certs_set:
  "anchors_from_certs X certs = Inr (anchors, certs') \<Longrightarrow>
   t \<in> anchors \<longleftrightarrow> (\<exists>c\<in>set certs. cert_sha1_thumbprint X c = Inr t)"
  using merge_cert_thumbprints_set [of X certs anchor_empty anchors t]
  by (auto simp: anchors_from_certs_def res_simps anchor_empty_def)

lemma root_certificate_thumb: "root_certificate X h root = Inr c \<Longrightarrow> cert_sha1_thumbprint X c = Inr (root_sha1 root)"
  by (auto simp: root_certificate_def res_simps split: if_splits)

lemma root_certificates_thumbs:
  "root_certificates X h roots = Inr cs \<Longrightarrow> c \<in> set cs \<Longrightarrow>
   \<exists>r\<in>set roots. cert_sha1_thumbprint X c = Inr (root_sha1 r)"
  by (induction roots arbitrary: cs) (auto simp: res_simps root_certificate_thumb)

text \<open>Which roots may anchor an identity: the pinned ones for Public Trust, never a pinned one otherwise.\<close>

lemma artifact_anchors_sound:
  assumes "artifact_signing_anchors X h roots read_bytes kind policy = Inr (anchors, certs)"
  shows "if kind = PublicTrust then anchors \<subseteq> root_sha1 ` set roots else anchors \<inter> root_sha1 ` set roots = {}"
proof (cases "kind = PublicTrust")
  case True
  then obtain cs where cs: "root_certificates X h roots = Inr cs" "anchors_from_certs X cs = Inr (anchors, certs)"
    using assms by (auto simp: artifact_signing_anchors_def public_trust_anchors_def res_simps)
  have "t \<in> root_sha1 ` set roots" if t: "t \<in> anchors" for t
  proof -
    from t obtain c where c: "c \<in> set cs" "cert_sha1_thumbprint X c = Inr t"
      using anchors_from_certs_set [OF cs(2), of t] by blast
    with root_certificates_thumbs [OF cs(1) c(1)] show ?thesis by auto
  qed
  then show ?thesis using True by auto
next
  case False
  then obtain store cs where "anchors_from_certs X (filter (\<lambda>c. case cert_sha1_thumbprint X c of
      Inl _ \<Rightarrow> False | Inr t \<Rightarrow> t \<notin> root_sha1 ` set roots) cs) = Inr (anchors, certs)"
    using assms by (auto simp: artifact_signing_anchors_def res_simps Let_def split: if_splits)
  from anchors_from_certs_set [OF this] have "t \<in> anchors \<Longrightarrow> t \<notin> root_sha1 ` set roots" for t by auto
  then show ?thesis using False by auto
qed

abbreviation strict_policy :: AuthenticodeTrustPolicy where
  "strict_policy \<equiv> \<lparr>strict_code_signing_eku = True, policy_prefer_timestamp = False, policy_require_timestamp = False\<rparr>"


text \<open>
  The root that is reported comes from a second walk that does not fetch. A signer whose issuer is in no
  supplied certificate, so that the accepted chain was completed over the network, ends in an error.
\<close>

lemma fetched_chain_has_no_root:
  assumes "parse_pkcs7_signed_data_der (w_cms W) (normalize_pkcs7_der_for_authenticode pkcs7_der) = Inr sd"
    and "first_signer_certificate (w_cms W) sd = Inr x" "cert_of_x509 (w_x509 W) (w_cms W) x = Inr leaf"
    and "merge_unique_certs (w_x509 W) anchor_certs (case sd_certificates (w_cms W) sd of None \<Rightarrow> []
      | Some choices \<Rightarrow> readable_certs (w_x509 W) choices) = Inr pool"
    and "\<not> self_issued (w_x509 W) leaf" "\<forall>c\<in>set pool. subject_name (w_x509 W) c \<noteq> issuer_name (w_x509 W) leaf"
  shows "signer_terminal_root W pkcs7_der anchors anchor_certs = bail ''could not resolve issuer certificate''"
  using assms
  by (simp add: signer_terminal_root_def Let_def issuer_chain_excluding_leaf_def chain_loop.simps find_issuer_None [THEN iffD2]
      last_anchored_def)

section \<open>Concrete inputs\<close>

text \<open>The certificate of the trust samples with the usages of a Public Trust signer whose publisher is 7.\<close>

definition sample_usages :: "u8 list" where
  "sample_usages = [0x30, 33, 0x06, 9, 0x2b, 6, 1, 4, 1, 0x82, 0x37, 0x61, 7,
     0x06, 10, 0x2b, 6, 1, 4, 1, 0x82, 0x37, 0x61, 1, 0, 0x06, 8, 0x2b, 6, 1, 5, 5, 7, 3, 3]"

definition sample_signing_cms :: "(nat, unit, unit, nat, unit) cms_lib" where
  "sample_signing_cms = sample_cms\<lparr>eku_extensions := (\<lambda>_. Some [sample_usages])\<rparr>"

definition sample_publisher_policy :: ArtifactSigningPolicy where
  "sample_publisher_policy = \<lparr>expected_publisher_ids = [lit '' 7''], private_trust_root_files = [], require_timestamp = False\<rparr>"

definition sample_world :: "(nat, unit, unit, nat, unit, nat, unit) trust_world" where
  "sample_world = \<lparr>w_x509 = sample_x509, w_cms = sample_signing_cms, w_online = (\<lambda>_. sample_online []), w_fetched = (\<lambda>s. s),
     w_clock = (\<lambda>_. ()), w_rfc3339 = (\<lambda>_. []), w_subject = (\<lambda>_. []), w_sha256 = (\<lambda>d. d),
     w_pinned = [\<lparr>root_sha1 = [0], root_sha256 = [0], root_pem = [0]\<rparr>], w_read = (\<lambda>_. bail ''no file''),
     w_timestamp_date = (\<lambda>_. None),
     w_trusted_token_date = (\<lambda>_ _ _ _ _. run_res (bail ''no token'')), w_trusted_timestamp_date = (\<lambda>_ _ _ _. run_res (Inr None))\<rparr>"

lemma sample_arcs: "decode_eku_arcs sample_der sample_usages =
  Inr [ARTIFACT_SIGNING_EKU_ARCS @ [7], ARTIFACT_SIGNING_EKU_ARCS @ [1, 0], CODE_SIGNING_EKU_ARCS]"
  by (simp add: decode_eku_arcs_def eku_body_def sample_der_def slice_reader_def read_slice_def sample_usages_def
      decode_oid_arcs_def Let_def ARTIFACT_SIGNING_EKU_ARCS_def CODE_SIGNING_EKU_ARCS_def)

definition sample_identity :: ArtifactSigningIdentity where
  "sample_identity = \<lparr>identity_kind = PublicTrust, publisher_id = dotted [7], identity_eku = dotted (ARTIFACT_SIGNING_EKU_ARCS @ [7]),
     has_public_trust_marker = True, identity_code_signing = True\<rparr>"

lemma sample_scan: "scan_arcs [ARTIFACT_SIGNING_EKU_ARCS @ [7], ARTIFACT_SIGNING_EKU_ARCS @ [1, 0], CODE_SIGNING_EKU_ARCS]
  (None, False, False) = Inr (Some (sample_identity\<lparr>has_public_trust_marker := False, identity_code_signing := False\<rparr>), True, True)"
  by (simp add: scan_arcs_step identity_of_arcs_def classify_identity_suffix_def sample_identity_def
      ARTIFACT_SIGNING_EKU_ARCS_def CODE_SIGNING_EKU_ARCS_def)

lemma sample_found: "artifact_signing_identity_from_certificate sample_signing_cms x = Inr (Some sample_identity)"
  using sample_arcs sample_scan
  by (simp add: artifact_signing_identity_from_certificate_def sample_signing_cms_def sample_cms_def)
     (simp add: sample_identity_def)

lemma sample_checked: "checked_identity sample_signing_cms x sample_publisher_policy = Inr sample_identity"
  using sample_found [of x]
  by (simp add: checked_identity_def sample_publisher_policy_def)
     (simp add: sample_identity_def decimal.simps is_whitespace_def trim_def trim_start_def trim_end_def)

theorem publisher_pin_exact_witness:
  "\<exists>all_arcs sfx. usages sample_signing_cms 2 all_arcs \<and>
     {a \<in> set all_arcs. identity_of_arcs a \<noteq> None} = {ARTIFACT_SIGNING_EKU_ARCS @ sfx} \<and> dotted sfx = dotted [7]"
  using publisher_pin_exact [OF sample_checked [of 2]] by (auto simp: sample_identity_def)

lemma sample_signing_eku: "has_code_signing_eku sample_signing_cms x = Inr True"
  by (simp add: has_code_signing_eku_def x509_cert_has_code_signing_eku_def sample_signing_cms_def sample_cms_def
      sample_der_def extended_key_usage_contains_def eku_body_def slice_reader_def read_slice_def sample_usages_def
      oid_value_is_canonical_def CODE_SIGNING_EKU_OID_def)

lemma sample_anchors: "artifact_signing_anchors sample_x509 (\<lambda>d. d) [\<lparr>root_sha1 = [0], root_sha256 = [0], root_pem = [0]\<rparr>]
  read_bytes PublicTrust policy = Inr ({[0]}, [0])"
  by (simp add: artifact_signing_anchors_def public_trust_anchors_def root_certificate_def parse_cert_bytes_def
      trim_ascii_start_def utf8_char_def sample_x509_def cert_sha1_thumbprint_def anchors_from_certs_def anchor_empty_def Let_def)

lemma sample_fetch: "fetch_issuers_of sample_world sample_trust_options = no_fetch"
  by (intro ext) (simp add: fetch_issuers_of_def no_fetch_def ret_def issuer_candidates_from_aia_def sample_world_def
      trust_sample_simps)

lemma sample_trust: "pkcs7_trust sample_world Pkcs9MessageDigest [] [7] {[0]} [0] strict_policy sample_trust_options () () =
  Some ((), Inr ())"
  unfolding pkcs7_trust_def sample_fetch
  using sample_walk sample_revocation_ok sample_signing_eku [of 2]
  by (simp add: verify_pkcs9_message_digest_pkcs7_trust_def verify_pkcs7_trust_cms_rsa_sha256_fallback_def
      cms_signer_def sample_world_def sample_signing_cms_def sample_cms_def trust_leaf_def
      signed_data_embedded_picky_certs_def cert_of_x509_def merge_unique_certs_def cert_sha1_thumbprint_def
      sample_x509_def terminal_root_cert_def contains_thumbprint_def self_issued_def verify_trust_chain_def)

lemma sample_x509_facts: "cert_sha1_thumbprint sample_x509 c = Inr [word_of_nat c]" "subject_name sample_x509 c = [c]"
  "issuer_name sample_x509 c = [c div 2]" "from_der sample_x509 d = Inr (unat (hd d))"
  by (simp_all add: sample_x509_def cert_sha1_thumbprint_def)

lemma sample_root: "signer_terminal_root sample_world [] {[0]} [0] = Inr 0"
  using sample_walk [unfolded walks_agree]
  by (simp add: signer_terminal_root_def Let_def sample_world_def sample_signing_cms_def sample_cms_def cert_of_x509_def
      merge_unique_certs_def terminal_root_cert_def self_issued_def sample_x509_facts)

definition sample_options :: "unit TrustVerifyPeOptions" where
  "sample_options = default_trust_verify_options\<lparr>opt_online := sample_trust_options\<rparr>"

lemma sample_accepted: "verify_artifact_signing_pkcs7 sample_world [] 0 [7] Pkcs9MessageDigest sample_publisher_policy
    sample_options () = Some ((), Inr \<lparr>signature_index = 0, signer_subject = [2], v_identity = sample_identity,
      root_subject = [0], v_root_sha1 = hex_lower [0], timestamped = False, verification_time = []\<rparr>)"
proof -
  have w: "w_cms sample_world = sample_signing_cms" "w_x509 sample_world = sample_x509" "w_sha256 sample_world = (\<lambda>d. d)"
    "w_pinned sample_world = [\<lparr>root_sha1 = [0], root_sha256 = [0], root_pem = [0]\<rparr>]"
    "w_trusted_timestamp_date sample_world = (\<lambda>_ _ _ _. run_res (Inr None))" "w_clock sample_world = (\<lambda>_. ())"
    "w_rfc3339 sample_world = (\<lambda>_. [])"
    by (simp_all add: sample_world_def)
  have "pkcs7_signer_identity sample_signing_cms [] = Inr (2, Some sample_identity)"
    using sample_found [of 2] by (simp add: pkcs7_signer_identity_def sample_signing_cms_def sample_cms_def)
  moreover have "public_trust_anchors sample_x509 (\<lambda>d. d) [\<lparr>root_sha1 = [0], root_sha256 = [0], root_pem = [0]\<rparr>] = Inr ({[0]}, [0])"
    using sample_anchors by (simp add: artifact_signing_anchors_def)
  then have "artifact_signing_instant sample_world sample_publisher_policy sample_options
      (\<lambda>anchors certs. run_res (Inr None)) () = Some ((), Inr (False, ()))"
    by (simp add: artifact_signing_instant_def sample_options_def default_trust_verify_options_def run_then_def
        run_res_def w sample_publisher_policy_def)
  moreover have "subject_display sample_world 2 = [2]"
    by (simp add: subject_display_def cert_of_x509_def w sample_x509_facts sample_signing_cms_def sample_cms_def)
  then have "verified_signature sample_world 0 (subject_display sample_world 2) sample_identity 0 False () =
      Inr \<lparr>signature_index = 0, signer_subject = [2], v_identity = sample_identity,
      root_subject = [0], v_root_sha1 = hex_lower [0], timestamped = False, verification_time = []\<rparr>"
    by (simp add: verified_signature_def w sample_x509_facts)
  moreover have "identity_kind sample_identity = PublicTrust" "opt_online sample_options = sample_trust_options"
    by (simp_all add: sample_identity_def sample_options_def)
  ultimately show ?thesis
    by (simp add: verify_artifact_signing_pkcs7_def run_then_def run_res_def w sample_checked sample_anchors
        sample_trust sample_root)
qed


end
