(* ===== verification/Code_Pattern.thy ===== *)
theory Code_Pattern
  imports Search Text "HOL-Library.List_Lexorder"
begin

text \<open>
  Model of the file selection of the code command (\<^verbatim>\<open>src/code.rs\<close>): escapes and braces of a pattern, the glob
  matcher with its table, the walk over the base directory and the rules applied in order. A path
  below the base directory is the list of its components on a Unix target; the order of such lists is
  the order of \<^verbatim>\<open>Path\<close>. What \<^verbatim>\<open>is_file\<close> answers and the text of a file list are parameters.
\<close>

section \<open>Escapes\<close>

fun unescape_pattern :: "str \<Rightarrow> str res" where
  "unescape_pattern [] = Inr []"
| "unescape_pattern [ch] = (if ch = 92 then bail ''trailing escape'' else Inr [ch])"
| "unescape_pattern (ch # next # chars) =
     (if ch = 92 then
        rbind (unescape_pattern chars) (\<lambda>out.
        Inr ((if next \<in> {33, 123, 125, 92} then [next] else [92, next]) @ out))
      else rbind (unescape_pattern (next # chars)) (\<lambda>out. Inr (ch # out)))"

section \<open>Braces\<close>

text \<open>Positions count characters; the source slices at the same places by byte offsets.\<close>

fun first_brace_loop :: "str \<Rightarrow> nat \<Rightarrow> nat option \<Rightarrow> nat \<Rightarrow> bool \<Rightarrow> (nat \<times> nat) option res" where
  "first_brace_loop [] idx start depth escaped =
     (if depth \<noteq> 0 then bail ''unmatched opening brace in pattern'' else Inr None)"
| "first_brace_loop (ch # chars) idx start depth escaped =
     (if escaped then first_brace_loop chars (idx + 1) start depth False
      else if ch = 92 then first_brace_loop chars (idx + 1) start depth True
      else if ch = 123 then
        first_brace_loop chars (idx + 1) (if depth = 0 then Some idx else start) (depth + 1) False
      else if ch = 125 then
        (if depth = 0 then bail ''unmatched closing brace in pattern''
         else if depth = 1 then rbind (unwrap_or_panic start) (\<lambda>start. Inr (Some (start, idx)))
         else first_brace_loop chars (idx + 1) start (depth - 1) False)
      else first_brace_loop chars (idx + 1) start depth False)"

definition first_brace :: "str \<Rightarrow> (nat \<times> nat) option res" where
  "first_brace pattern = first_brace_loop pattern 0 None 0 False"

text \<open>\<^verbatim>\<open>parse::<i64>\<close>, and an integer padded with zeros behind its sign.\<close>

definition parse_i64 :: "str \<Rightarrow> int option" where
  "parse_i64 s =
     (case strip_prefix [45] s of
        Some ds \<Rightarrow> if starts_with [43] ds then None else map_option (\<lambda>n. - int n) (parse_decimal (2 ^ 63 + 1) ds)
      | None \<Rightarrow> map_option int (parse_decimal (2 ^ 63) s))"

definition padded :: "nat \<Rightarrow> int \<Rightarrow> str" where
  "padded width n =
     (let sign = (if n < 0 then [45] else []); ds = decimal (nat \<bar>n\<bar>) in
      sign @ replicate (width - (length sign + length ds)) 48 @ ds)"

definition split_dots :: "str \<Rightarrow> (str \<times> str) option" where
  "split_dots body = map_option (\<lambda>i. (take i body, drop (i + 2) body)) (find_subslice body [46, 46])"

definition number_range :: "str \<Rightarrow> str list option" where
  "number_range body =
     obind (split_dots body) (\<lambda>(start, end_text).
     obind (parse_i64 start) (\<lambda>first.
     obind (parse_i64 end_text) (\<lambda>last.
       let width = max (length (utf8 start)) (length (utf8 end_text));
           range = (if first \<le> last then [first..last] else rev [last..first])
       in Some (map (\<lambda>n. if 1 < width then padded width n else padded 0 n) range))))"

fun choices_loop :: "str \<Rightarrow> str list \<Rightarrow> str \<Rightarrow> nat \<Rightarrow> str list res" where
  "choices_loop [] choices current depth = Inr (choices @ [current])"
| "choices_loop (ch # chars) choices current depth =
     (if ch = 123 then choices_loop chars choices (current @ [ch]) (depth + 1)
      else if ch = 125 then
        (if depth = 0 then bail ''unmatched closing brace''
         else choices_loop chars choices (current @ [ch]) (depth - 1))
      else if ch = 44 \<and> depth = 0 then choices_loop chars (choices @ [current]) [] depth
      else choices_loop chars choices (current @ [ch]) depth)"

definition brace_choices :: "str \<Rightarrow> str list res" where
  "brace_choices body =
     (case number_range body of Some choices \<Rightarrow> Inr choices | None \<Rightarrow> choices_loop body [] [] 0)"

text \<open>A loop that extends a list by what each element gives.\<close>

fun each_res :: "('a \<Rightarrow> 'b list res) \<Rightarrow> 'a list \<Rightarrow> 'b list res" where
  "each_res f [] = Inr []"
| "each_res f (x # xs) = rbind (f x) (\<lambda>ys. rbind (each_res f xs) (\<lambda>zs. Inr (ys @ zs)))"

lemma each_res_cong [fundef_cong]:
  "xs = ys \<Longrightarrow> (\<And>x. x \<in> set ys \<Longrightarrow> f x = g x) \<Longrightarrow> each_res f xs = each_res g ys"
  by (induction xs arbitrary: ys) auto

text \<open>Where the first group of a pattern stands.\<close>

lemma first_brace_loop_place:
  assumes "first_brace_loop (drop idx pattern) idx start depth escaped = Inr (Some (s, e))"
    and "depth \<noteq> 0 \<Longrightarrow> \<exists>i. start = Some i \<and> i < idx \<and> pattern ! i = 123"
  shows "s < e \<and> e < length pattern \<and> pattern ! s = 123 \<and> pattern ! e = 125"
  using assms
proof (induction "length pattern - idx" arbitrary: idx start depth escaped)
  case 0
  then show ?case by (simp split: if_splits)
next
  case (Suc n)
  then have d: "drop idx pattern = pattern ! idx # drop (Suc idx) pattern" and idx: "idx < length pattern"
    and n: "n = length pattern - Suc idx" by (simp_all add: Cons_nth_drop_Suc)
  note IH = Suc.hyps(1) [OF n]
  consider (esc) "escaped" | (escape) "\<not> escaped" "pattern ! idx = 92" | (lbrace) "\<not> escaped" "pattern ! idx = 123"
    | (rbrace) "\<not> escaped" "pattern ! idx = 125"
    | (other) "\<not> escaped" "pattern ! idx \<noteq> 92" "pattern ! idx \<noteq> 123" "pattern ! idx \<noteq> 125" by blast
  then show ?case
  proof cases
    case esc
    then show ?thesis using Suc.prems IH [of start depth False] by (auto simp: d less_Suc_eq)
  next
    case escape
    then show ?thesis using Suc.prems IH [of start depth True] by (auto simp: d less_Suc_eq)
  next
    case lbrace
    then show ?thesis using Suc.prems IH [of "if depth = 0 then Some idx else start" "depth + 1" False]
      by (auto simp: d less_Suc_eq split: if_splits)
  next
    case rbrace
    then have "depth \<noteq> 0" using Suc.prems(1) by (cases "depth = 0") (auto simp: d)
    with Suc.prems(2) obtain i where i: "start = Some i" "i < idx" "pattern ! i = 123" by blast
    then show ?thesis using Suc.prems rbrace idx IH [of start "depth - 1" False]
      by (auto simp: d unwrap_or_panic_def less_Suc_eq split: if_splits)
  next
    case other
    then show ?thesis using Suc.prems IH [of start depth False] by (auto simp: d less_Suc_eq)
  qed
qed

lemma first_brace_place:
  "first_brace pattern = Inr (Some (s, e)) \<Longrightarrow> s < e \<and> e < length pattern \<and> pattern ! s = 123 \<and> pattern ! e = 125"
  using first_brace_loop_place [of 0 pattern None 0 False s e] by (simp add: first_brace_def)

text \<open>No choice has more opening braces than the body it comes from.\<close>

abbreviation opens :: "str \<Rightarrow> nat" where "opens s \<equiv> length (filter (\<lambda>c. c = 123) s)"

lemma digits_open: "123 \<notin> set (decimal n)"
  using decimal_digits [of n] by (auto simp: is_ascii_digit_def)

lemma padded_open: "123 \<notin> set (padded w n)"
  by (auto simp: padded_def Let_def digits_open)

lemma number_range_open: "number_range body = Some cs \<Longrightarrow> c \<in> set cs \<Longrightarrow> 123 \<notin> set c"
  by (auto simp: number_range_def obind_Some_iff Let_def padded_open split: prod.splits)

lemma choices_loop_opens:
  "choices_loop chars choices current depth = Inr cs \<Longrightarrow> c \<in> set cs \<Longrightarrow>
   c \<in> set choices \<or> opens c \<le> opens current + opens chars"
proof (induction chars arbitrary: choices current depth)
  case (Cons ch chars)
  note IH = Cons.IH [OF _ Cons.prems(2)]
  consider (o) "ch = 123" | (c) "ch = 125" | (comma) "ch = 44" "depth = 0"
    | (other) "ch \<noteq> 123" "ch \<noteq> 125" "ch \<noteq> 44 \<or> depth \<noteq> 0" by blast
  then show ?case
  proof cases
    case o
    then have "choices_loop chars choices (current @ [ch]) (depth + 1) = Inr cs" using Cons.prems(1) by simp
    from IH [OF this] show ?thesis using o by simp
  next
    case c
    then have "choices_loop chars choices (current @ [ch]) (depth - 1) = Inr cs"
      using Cons.prems(1) by (simp split: if_splits)
    from IH [OF this] show ?thesis using c by simp
  next
    case comma
    then have "choices_loop chars (choices @ [current]) [] 0 = Inr cs" using Cons.prems(1) by simp
    from IH [OF this] show ?thesis using comma by auto
  next
    case other
    then have "choices_loop chars choices (current @ [ch]) depth = Inr cs" using Cons.prems(1) by auto
    from IH [OF this] show ?thesis using other by simp
  qed
qed auto

lemma brace_choices_opens: "brace_choices body = Inr cs \<Longrightarrow> c \<in> set cs \<Longrightarrow> opens c \<le> opens body"
proof (cases "number_range body")
  case None
  then show "brace_choices body = Inr cs \<Longrightarrow> c \<in> set cs \<Longrightarrow> ?thesis"
    using choices_loop_opens [of body "[]" "[]" 0 cs c] by (simp add: brace_choices_def)
next
  case (Some choices)
  then have "brace_choices body = Inr cs \<Longrightarrow> c \<in> set cs \<Longrightarrow> 123 \<notin> set c"
    using number_range_open [OF Some] by (simp add: brace_choices_def)
  moreover have "123 \<notin> set c \<Longrightarrow> opens c = 0" by (auto simp: filter_empty_conv)
  ultimately show "brace_choices body = Inr cs \<Longrightarrow> c \<in> set cs \<Longrightarrow> ?thesis" by simp
qed

lemma group_parts:
  assumes "s < e" "e < length (p :: nat list)"
  shows "p = take s p @ p ! s # sub p (s + 1) (e - (s + 1)) @ p ! e # drop (e + 1) p"
proof -
  have "drop s p = p ! s # drop (s + 1) p" using assms by (simp add: Cons_nth_drop_Suc)
  moreover have "drop (s + 1) p = take (e - (s + 1)) (drop (s + 1) p) @ drop e p"
    using assms append_take_drop_id [of "e - (s + 1)" "drop (s + 1) p"] by simp
  moreover have "drop e p = p ! e # drop (e + 1) p" using assms by (simp add: Cons_nth_drop_Suc)
  ultimately show ?thesis by (metis append_take_drop_id sub_def)
qed

function expand_braces :: "str \<Rightarrow> str list res" where
  "expand_braces pattern =
     rbind (first_brace pattern) (\<lambda>found.
     case found of
       None \<Rightarrow> Inr [pattern]
     | Some (start, end_pos) \<Rightarrow>
         rbind (brace_choices (sub pattern (start + 1) (end_pos - (start + 1)))) (\<lambda>choices.
         each_res (\<lambda>choice. expand_braces (take start pattern @ choice @ drop (end_pos + 1) pattern)) choices))"
  by pat_completeness auto
termination
proof (relation "measure opens")
  fix pattern found x start end_pos choices choice
  assume f: "first_brace pattern = Inr found" "found = Some x" "(start, end_pos) = x"
    and c: "brace_choices (sub pattern (start + 1) (end_pos - (start + 1))) = Inr choices" "choice \<in> set choices"
  then have g: "first_brace pattern = Inr (Some (start, end_pos))" by simp
  note place = first_brace_place [OF g]
  have "opens pattern = opens (take start pattern) + Suc (opens (sub pattern (start + 1) (end_pos - (start + 1))))
      + opens (drop (end_pos + 1) pattern)"
    using place by (subst group_parts [of start end_pos pattern]) simp_all
  then show "(take start pattern @ choice @ drop (end_pos + 1) pattern, pattern) \<in> measure opens"
    using brace_choices_opens [OF c] by simp
qed simp

declare expand_braces.simps [simp del]

section \<open>Glob patterns\<close>

text \<open>
  The matcher on bytes with its table. \<open>pi\<close> never passes the end of the pattern: every call advances over
  bytes that were looked at. The bodies of the disjunctions are evaluated in order, each with the table
  the one before left.
\<close>

definition byte_lower :: "u8 \<Rightarrow> u8" where
  "byte_lower b = (if 65 \<le> unat b \<and> unat b \<le> 90 then b + 32 else b)"

type_synonym memo = "nat \<times> nat \<Rightarrow> bool option"

function glob_match_inner :: "u8 list \<Rightarrow> u8 list \<Rightarrow> nat \<Rightarrow> nat \<Rightarrow> memo \<Rightarrow> bool \<times> memo" where
  "glob_match_inner p t pi ti memo =
     (case memo (pi, ti) of
        Some v \<Rightarrow> (v, memo)
      | None \<Rightarrow>
          let (result, memo) =
            (if length p \<le> pi then (ti = length t, memo)
             else if p ! pi = 42 then
               (if pi + 1 < length p \<and> p ! (pi + 1) = 42 then
                  let (a, memo) = (if pi + 2 < length p \<and> p ! (pi + 2) = 47
                        then glob_match_inner p t (pi + 3) ti memo else (False, memo)) in
                  if a then (True, memo)
                  else
                    let (b, memo) = glob_match_inner p t (pi + 2) ti memo in
                    if b then (True, memo)
                    else if ti < length t then glob_match_inner p t pi (ti + 1) memo
                    else (False, memo)
                else
                  let (a, memo) = glob_match_inner p t (pi + 1) ti memo in
                  if a then (True, memo)
                  else if ti < length t \<and> t ! ti \<noteq> 47 then glob_match_inner p t pi (ti + 1) memo
                  else (False, memo))
             else if p ! pi = 63 then
               (if ti < length t \<and> t ! ti \<noteq> 47 then glob_match_inner p t (pi + 1) (ti + 1) memo
                else (False, memo))
             else
               (if ti < length t \<and> byte_lower (p ! pi) = byte_lower (t ! ti)
                then glob_match_inner p t (pi + 1) (ti + 1) memo else (False, memo)))
          in (result, memo((pi, ti) \<mapsto> result)))"
  by pat_completeness auto
termination
  by (relation "measure (\<lambda>(p, t, pi, ti, memo). (length p - pi) + (length t - ti))") auto

declare glob_match_inner.simps [simp del]

definition glob_match :: "str \<Rightarrow> str \<Rightarrow> bool" where
  "glob_match pattern text = fst (glob_match_inner (utf8 pattern) (utf8 text) 0 0 Map.empty)"

text \<open>The language of a pattern: what the pieces of a pattern stand for.\<close>

inductive globs :: "u8 list \<Rightarrow> u8 list \<Rightarrow> bool" where
  done_: "globs [] []"
| byte: "b \<noteq> 42 \<Longrightarrow> b \<noteq> 63 \<Longrightarrow> byte_lower b = byte_lower c \<Longrightarrow> globs p t \<Longrightarrow> globs (b # p) (c # t)"
| one: "c \<noteq> 47 \<Longrightarrow> globs p t \<Longrightarrow> globs (63 # p) (c # t)"
| star: "take 1 p \<noteq> [42] \<Longrightarrow> 47 \<notin> set s \<Longrightarrow> globs p t \<Longrightarrow> globs (42 # p) (s @ t)"
| stars: "globs p t \<Longrightarrow> globs (42 # 42 # p) (s @ t)"
| stars_slash: "globs p t \<Longrightarrow> globs (42 # 42 # 47 # p) (s @ t)"

inductive_simps globs_Nil [simp]: "globs [] t"
inductive_cases globs_ConsE: "globs (b # p) t"

lemma globs_byte: "b \<noteq> 42 \<Longrightarrow> b \<noteq> 63 \<Longrightarrow>
  globs (b # p) t \<longleftrightarrow> (\<exists>c t'. t = c # t' \<and> byte_lower b = byte_lower c \<and> globs p t')"
  by (auto elim: globs_ConsE intro: globs.byte)

lemma globs_one: "globs (63 # p) t \<longleftrightarrow> (\<exists>c t'. t = c # t' \<and> c \<noteq> 47 \<and> globs p t')"
  by (auto elim: globs_ConsE intro: globs.one)

lemma globs_star:
  assumes "take 1 p \<noteq> [42]"
  shows "globs (42 # p) t \<longleftrightarrow> globs p t \<or> (\<exists>c t'. t = c # t' \<and> c \<noteq> 47 \<and> globs (42 # p) t')"
proof
  assume "globs (42 # p) t"
  then show "globs p t \<or> (\<exists>c t'. t = c # t' \<and> c \<noteq> 47 \<and> globs (42 # p) t')"
  proof (rule globs_ConsE)
    fix s u assume s: "t = s @ u" "47 \<notin> set s" "globs p u"
    then show ?thesis using assms by (cases s) (auto intro: globs.star)
  qed (use assms in auto)
next
  assume "globs p t \<or> (\<exists>c t'. t = c # t' \<and> c \<noteq> 47 \<and> globs (42 # p) t')"
  then show "globs (42 # p) t"
  proof
    assume "globs p t"
    then show ?thesis using globs.star [OF assms, of "[]" t] by simp
  next
    assume "\<exists>c t'. t = c # t' \<and> c \<noteq> 47 \<and> globs (42 # p) t'"
    then obtain c t' where t: "t = c # t'" "c \<noteq> 47" "globs (42 # p) t'" by blast
    from t(3) show ?thesis
    proof (rule globs_ConsE)
      fix s u assume "t' = s @ u" "47 \<notin> set s" "globs p u"
      then show ?thesis using globs.star [OF assms, of "c # s" u] t by simp
    qed (use assms in auto)
  qed
qed

lemma globs_stars:
  "globs (42 # 42 # p) t \<longleftrightarrow>
   (\<exists>q. p = 47 # q \<and> globs q t) \<or> globs p t \<or> (\<exists>c t'. t = c # t' \<and> globs (42 # 42 # p) t')"
proof
  assume "globs (42 # 42 # p) t"
  then show "(\<exists>q. p = 47 # q \<and> globs q t) \<or> globs p t \<or> (\<exists>c t'. t = c # t' \<and> globs (42 # 42 # p) t')"
  proof (rule globs_ConsE)
    fix q s u assume "42 # p = 42 # q" "t = s @ u" "globs q u"
    then show ?thesis by (cases s) (auto intro: globs.stars)
  next
    fix q s u assume "42 # p = 42 # 47 # q" "t = s @ u" "globs q u"
    then show ?thesis by (cases s) (auto intro: globs.stars_slash)
  qed auto
next
  assume "(\<exists>q. p = 47 # q \<and> globs q t) \<or> globs p t \<or> (\<exists>c t'. t = c # t' \<and> globs (42 # 42 # p) t')"
  then consider q where "p = 47 # q" "globs q t" | "globs p t" | c t' where "t = c # t'" "globs (42 # 42 # p) t'" by blast
  then show "globs (42 # 42 # p) t"
  proof cases
    case 1
    then show ?thesis using globs.stars_slash [of q t "[]"] by simp
  next
    case 2
    then show ?thesis using globs.stars [of p t "[]"] by simp
  next
    case 3
    from 3(2) show ?thesis
    proof (rule globs_ConsE)
      fix q s u assume "42 # p = 42 # q" "t' = s @ u" "globs q u"
      then show ?thesis using globs.stars [of q u "c # s"] 3 by simp
    next
      fix q s u assume "42 # p = 42 # 47 # q" "t' = s @ u" "globs q u"
      then show ?thesis using globs.stars_slash [of q u "c # s"] 3 by simp
    qed auto
  qed
qed

text \<open>The table only ever holds what the language says.\<close>

definition memo_ok :: "u8 list \<Rightarrow> u8 list \<Rightarrow> memo \<Rightarrow> bool" where
  "memo_ok p t memo \<longleftrightarrow> (\<forall>i j v. memo (i, j) = Some v \<longrightarrow> v = globs (drop i p) (drop j t))"

lemma memo_ok_update: "memo_ok p t memo \<Longrightarrow> memo_ok p t (memo((i, j) \<mapsto> globs (drop i p) (drop j t)))"
  by (simp add: memo_ok_def)

lemma drop_step: "i < length xs \<Longrightarrow> drop i xs = xs ! i # drop (Suc i) xs"
  by (simp add: Cons_nth_drop_Suc)

definition answers :: "u8 list \<Rightarrow> u8 list \<Rightarrow> bool \<Rightarrow> bool \<times> memo \<Rightarrow> bool" where
  "answers p t v r \<longleftrightarrow> fst r = v \<and> memo_ok p t (snd r)"

lemma answers_simp [simp]: "answers p t v (r, memo) \<longleftrightarrow> r = v \<and> memo_ok p t memo"
  by (simp add: answers_def)

text \<open>One evaluated position, from what the recursive calls answer.\<close>

lemma answers_or:
  "answers p t a r \<Longrightarrow> (\<And>memo. memo_ok p t memo \<Longrightarrow> answers p t b (f memo)) \<Longrightarrow>
   answers p t (a \<or> b) (let (x, memo) = r in if x then (True, memo) else f memo)"
  by (cases r) auto

lemma inner_answers:
  "memo_ok p t memo \<Longrightarrow> ti \<le> length t \<Longrightarrow>
   answers p t (globs (drop pi p) (drop ti t)) (glob_match_inner p t pi ti memo)"
proof (induction "(length p - pi) + (length t - ti)" arbitrary: pi ti memo rule: less_induct)
  case less
  note IH = less.hyps
  show ?case
  proof (cases "memo (pi, ti)")
    case (Some v)
    then show ?thesis using less.prems by (subst glob_match_inner.simps) (auto simp: memo_ok_def)
  next
    case None
    let ?g = "\<lambda>i j. globs (drop i p) (drop j t)" and ?r = "\<lambda>i j m. glob_match_inner p t i j m"
    let ?body = "if length p \<le> pi then (ti = length t, memo)
      else if p ! pi = 42 then
        (if pi + 1 < length p \<and> p ! (pi + 1) = 42 then
           let (a, memo) = (if pi + 2 < length p \<and> p ! (pi + 2) = 47 then ?r (pi + 3) ti memo else (False, memo)) in
           if a then (True, memo)
           else
             let (b, memo) = ?r (pi + 2) ti memo in
             if b then (True, memo) else if ti < length t then ?r pi (ti + 1) memo else (False, memo)
         else
           let (a, memo) = ?r (pi + 1) ti memo in
           if a then (True, memo) else if ti < length t \<and> t ! ti \<noteq> 47 then ?r pi (ti + 1) memo else (False, memo))
      else if p ! pi = 63 then
        (if ti < length t \<and> t ! ti \<noteq> 47 then ?r (pi + 1) (ti + 1) memo else (False, memo))
      else (if ti < length t \<and> byte_lower (p ! pi) = byte_lower (t ! ti) then ?r (pi + 1) (ti + 1) memo else (False, memo))"
    have body: "answers p t (?g pi ti) ?body"
    proof (cases "length p \<le> pi")
      case True
      then show ?thesis using less.prems by auto
    next
      case inp: False
      then have dp: "drop pi p = p ! pi # drop (Suc pi) p" by (simp add: drop_step)
      have next_text: "answers p t (ti < length t \<and> t ! ti \<noteq> 47 \<and> ?g i (ti + 1))
          (if ti < length t \<and> t ! ti \<noteq> 47 then ?r i (ti + 1) m else (False, m))"
        "answers p t (ti < length t \<and> ?g i (ti + 1)) (if ti < length t then ?r i (ti + 1) m else (False, m))"
        "answers p t (ti < length t \<and> byte_lower (p ! pi) = byte_lower (t ! ti) \<and> ?g i (ti + 1))
          (if ti < length t \<and> byte_lower (p ! pi) = byte_lower (t ! ti) then ?r i (ti + 1) m else (False, m))"
        if "memo_ok p t m" "pi \<le> i" for i m
        using IH [of i "ti + 1" m] that by auto
      have here: "(\<exists>c t'. drop ti t = c # t' \<and> P c t') \<longleftrightarrow> ti < length t \<and> P (t ! ti) (drop (Suc ti) t)" for P
        using drop_step [of ti t] by (cases "ti < length t") auto
      consider (star) "p ! pi = 42" | (one) "p ! pi = 63" | (byte) "p ! pi \<noteq> 42" "p ! pi \<noteq> 63" by blast
      then show ?thesis
      proof cases
        case one
        then show ?thesis using inp next_text(1) [OF less.prems(1), of "pi + 1"] by (simp add: dp globs_one here)
      next
        case byte
        then show ?thesis using inp next_text(3) [OF less.prems(1), of "pi + 1"] by (simp add: dp globs_byte here)
      next
        case star
        show ?thesis
        proof (cases "pi + 1 < length p \<and> p ! (pi + 1) = 42")
          case True
          then have pat: "drop pi p = 42 # 42 # drop (pi + 2) p" using star dp drop_step [of "pi + 1" p] by simp
          have slash: "(\<exists>q. drop (pi + 2) p = 47 # q \<and> globs q (drop ti t)) \<longleftrightarrow>
              (pi + 2 < length p \<and> p ! (pi + 2) = 47) \<and> ?g (pi + 3) ti"
            using drop_step [of "pi + 2" p] by (cases "pi + 2 < length p") (auto simp: numeral_3_eq_3)
          have a: "answers p t ((pi + 2 < length p \<and> p ! (pi + 2) = 47) \<and> ?g (pi + 3) ti)
              (if pi + 2 < length p \<and> p ! (pi + 2) = 47 then ?r (pi + 3) ti memo else (False, memo))"
            using IH [of "pi + 3" ti memo] less.prems inp by auto
          have b: "answers p t (?g (pi + 2) ti \<or> (ti < length t \<and> ?g pi (ti + 1)))
              (let (b, m) = ?r (pi + 2) ti m in
               if b then (True, m) else if ti < length t then ?r pi (ti + 1) m else (False, m))" if "memo_ok p t m" for m
            by (rule answers_or [OF IH next_text(2)]) (use that less.prems inp in auto)
          have "answers p t (((pi + 2 < length p \<and> p ! (pi + 2) = 47) \<and> ?g (pi + 3) ti) \<or>
              (?g (pi + 2) ti \<or> (ti < length t \<and> ?g pi (ti + 1)))) ?body"
            using answers_or [OF a b] inp star True by simp
          moreover have "?g pi ti \<longleftrightarrow> (((pi + 2 < length p \<and> p ! (pi + 2) = 47) \<and> ?g (pi + 3) ti) \<or>
              (?g (pi + 2) ti \<or> (ti < length t \<and> ?g pi (ti + 1))))"
            unfolding pat globs_stars [of "drop (pi + 2) p" "drop ti t"] slash here by (simp add: pat)
          ultimately show ?thesis by (simp only:)
        next
          case False
          then have single: "take 1 (drop (Suc pi) p) \<noteq> [42]"
            using drop_step [of "Suc pi" p] by (cases "Suc pi < length p") auto
          have "answers p t (?g (pi + 1) ti \<or> (ti < length t \<and> t ! ti \<noteq> 47 \<and> ?g pi (ti + 1)))
              (let (a, memo) = ?r (pi + 1) ti memo in
               if a then (True, memo) else if ti < length t \<and> t ! ti \<noteq> 47 then ?r pi (ti + 1) memo else (False, memo))"
            by (rule answers_or [OF IH next_text(1)]) (use less.prems inp in auto)
          then have "answers p t (?g (pi + 1) ti \<or> (ti < length t \<and> t ! ti \<noteq> 47 \<and> ?g pi (ti + 1))) ?body"
            unfolding if_not_P [OF inp] if_P [OF star] if_not_P [OF False] .
          moreover have "?g pi ti \<longleftrightarrow> ?g (pi + 1) ti \<or> (ti < length t \<and> t ! ti \<noteq> 47 \<and> ?g pi (ti + 1))"
            unfolding dp star globs_star [OF single, of "drop ti t"] here by (simp add: dp star)
          ultimately show ?thesis by (simp only:)
        qed
      qed
    qed
    have "glob_match_inner p t pi ti memo = (let (result, memo) = ?body in (result, memo((pi, ti) \<mapsto> result)))"
      unfolding glob_match_inner.simps [of p t pi ti memo] None option.case ..
    also have "answers p t (?g pi ti) \<dots>"
    proof (cases ?body)
      case (Pair r m)
      from body [unfolded Pair] show ?thesis unfolding Pair by (simp add: memo_ok_update)
    qed
    finally show ?thesis .
  qed
qed

lemma glob_match_globs: "glob_match pattern text \<longleftrightarrow> globs (utf8 pattern) (utf8 text)"
  using inner_answers [of "utf8 pattern" "utf8 text" Map.empty 0 0]
  by (cases "glob_match_inner (utf8 pattern) (utf8 text) 0 0 Map.empty") (simp add: glob_match_def memo_ok_def)

text \<open>C29: the glob matcher is exact. The matcher with its table accepts a text precisely when the text is in the
  language of the pattern: a byte stands for itself up to ASCII case, a question mark for one byte other
  than a slash, a star for a run without a slash, and two stars for any run, after which a slash in the
  pattern may be missing in the text.\<close>

theorem glob_match_exact: "glob_match pattern text \<longleftrightarrow> globs (utf8 pattern) (utf8 text)"
  by (rule glob_match_globs)

section \<open>Rules\<close>

record PatternRule =
  rule_include :: bool
  rule_pattern :: str

text \<open>
  On a Unix target a pattern becomes a path by pushing its parts one by one; none of them contains a
  slash, so none makes the path absolute, and empty parts and single dots are no components.
\<close>

definition pattern_to_native_path :: "str \<Rightarrow> str list" where
  "pattern_to_native_path pattern = filter (\<lambda>part. part \<noteq> [] \<and> part \<noteq> lit ''.'') (split_on 47 pattern)"

definition validate_relative_pattern :: "str \<Rightarrow> unit res" where
  "validate_relative_pattern pattern =
     (if lit ''..'' \<in> set (pattern_to_native_path pattern) then
        bail ''pattern may not traverse outside the base directory''
      else Inr ())"

definition pattern_rules :: "str \<Rightarrow> PatternRule list res" where
  "pattern_rules input =
     (let (incl, pattern) =
        (case strip_prefix [92, 33] input of
           Some rest \<Rightarrow> (True, rbind (unescape_pattern rest) (\<lambda>p. Inr (33 # p)))
         | None \<Rightarrow>
             (case strip_prefix [33] input of
                Some rest \<Rightarrow> (False, unescape_pattern rest)
              | None \<Rightarrow> (True, unescape_pattern input))) in
      rbind pattern (\<lambda>pattern.
      if pattern = [] then bail ''empty pattern''
      else
        rbind (validate_relative_pattern pattern) (\<lambda>_.
        rbind (expand_braces pattern) (\<lambda>patterns.
        Inr (map (\<lambda>pattern. \<lparr>rule_include = incl, rule_pattern = pattern\<rparr>) patterns)))))"

text \<open>A file list is read as text; \<open>read_list\<close> is reading it where its path leads from the base.\<close>

fun list_rules :: "str list \<Rightarrow> PatternRule list res" where
  "list_rules [] = Inr []"
| "list_rules (raw # rest) =
     (let trimmed_line = trim raw in
      if trimmed_line = [] \<or> starts_with [35] trimmed_line then list_rules rest
      else
        rbind (pattern_rules trimmed_line) (\<lambda>rules.
        rbind (list_rules rest) (\<lambda>more_rules. Inr (rules @ more_rules))))"

definition selection_rules :: "str list \<Rightarrow> str res option \<Rightarrow> PatternRule list res" where
  "selection_rules inputs file_list =
     rbind (each_res pattern_rules inputs) (\<lambda>rules.
     rbind (case file_list of None \<Rightarrow> Inr [] | Some r \<Rightarrow> rbind r (\<lambda>content. list_rules (lines content))) (\<lambda>listed.
     if rules @ listed = [] then bail ''code dry-run requires at least one input or --file-list entry''
     else Inr (rules @ listed)))"

definition nested_exclude_patterns :: "str list \<Rightarrow> str res option \<Rightarrow> str list res" where
  "nested_exclude_patterns inputs file_list =
     rbind (selection_rules inputs file_list) (\<lambda>rules.
     Inr (map rule_pattern (filter (\<lambda>rule. \<not> rule_include rule) rules)))"

section \<open>The base directory\<close>

text \<open>What \<^verbatim>\<open>read_dir\<close> shows, symbolic links not followed. \<open>Dir None\<close> is a directory that cannot be read.\<close>

datatype fs_node = File | Other | Dir "(str \<times> fs_node) list option"

fun scan_dir :: "str list \<Rightarrow> (str \<times> fs_node) list \<Rightarrow> (str list \<times> (str \<times> fs_node) list option) list \<Rightarrow> str list list \<Rightarrow>
  (str list \<times> (str \<times> fs_node) list option) list \<times> str list list" where
  "scan_dir dir [] stack out = (stack, out)"
| "scan_dir dir ((name, node) # entries) stack out =
     (case node of
        Dir es \<Rightarrow> scan_dir dir entries ((dir @ [name], es) # stack) out
      | File \<Rightarrow> scan_dir dir entries stack (out @ [dir @ [name]])
      | Other \<Rightarrow> scan_dir dir entries stack out)"

fun weight :: "fs_node \<Rightarrow> nat" where
  "weight (Dir (Some entries)) = 1 + sum_list (map (\<lambda>e. weight (snd e)) entries)"
| "weight _ = 1"

definition stack_weight :: "(str list \<times> (str \<times> fs_node) list option) list \<Rightarrow> nat" where
  "stack_weight stack = sum_list (map (\<lambda>d. weight (Dir (snd d))) stack)"

lemma scan_dir_weight:
  "stack_weight (fst (scan_dir dir entries stack out)) \<le> stack_weight stack + sum_list (map (\<lambda>e. weight (snd e)) entries)"
proof (induction dir entries stack out rule: scan_dir.induct)
  case (2 dir name node entries stack out)
  show ?case
  proof (cases node)
    case (Dir es)
    with 2(3) [OF Dir] show ?thesis by (simp add: stack_weight_def)
  qed (use 2 in simp_all)
qed simp

function walk_loop :: "(str list \<times> (str \<times> fs_node) list option) list \<Rightarrow> str list list \<Rightarrow> str list list res" where
  "walk_loop [] out = Inr (sort out)"
| "walk_loop ((dir, None) # stack) out = bail ''read''"
| "walk_loop ((dir, Some entries) # stack) out =
     walk_loop (fst (scan_dir dir entries stack out)) (snd (scan_dir dir entries stack out))"
  by pat_completeness auto
termination
proof (relation "measure (\<lambda>(stack, out). stack_weight stack)")
  fix dir :: "str list" and entries stack out
  show "((fst (scan_dir dir entries stack out), snd (scan_dir dir entries stack out)), (dir, Some entries) # stack, out)
    \<in> measure (\<lambda>(stack, out). stack_weight stack)"
    using scan_dir_weight [of dir entries stack out] by (simp add: stack_weight_def case_prod_unfold)
qed simp

definition walk_files :: "fs_node \<Rightarrow> str list list res" where
  "walk_files root = (case root of Dir es \<Rightarrow> walk_loop [([], es)] [] | _ \<Rightarrow> bail ''read'')"

section \<open>Selecting files\<close>

definition has_glob_meta :: "str \<Rightarrow> bool" where
  "has_glob_meta pattern \<longleftrightarrow> 42 \<in> set pattern \<or> 63 \<in> set pattern"

fun join_slash :: "str list \<Rightarrow> str" where
  "join_slash [] = []"
| "join_slash [part] = part"
| "join_slash (part # parts) = part @ 47 # join_slash parts"

definition normalize_match_path :: "str list \<Rightarrow> str" where
  "normalize_match_path path =
     join_slash (map (map (\<lambda>c. if c = 92 then 47 else c)) (filter (\<lambda>part. part \<noteq> lit ''..'') path))"

definition resolve_rule :: "fs_node \<Rightarrow> (str list \<Rightarrow> bool) \<Rightarrow> PatternRule \<Rightarrow> str list list res" where
  "resolve_rule root is_file rule =
     (if has_glob_meta (rule_pattern rule) then
        rbind (walk_files root) (\<lambda>candidates.
        Inr (filter (\<lambda>rel. glob_match (rule_pattern rule) (normalize_match_path rel)) candidates))
      else
        let path = pattern_to_native_path (rule_pattern rule) in
        Inr (if is_file path then [path] else []))"

fun select_loop :: "fs_node \<Rightarrow> (str list \<Rightarrow> bool) \<Rightarrow> PatternRule list \<Rightarrow> str list set \<Rightarrow> str list set res" where
  "select_loop root is_file [] selected = Inr selected"
| "select_loop root is_file (rule # rules) selected =
     rbind (resolve_rule root is_file rule) (\<lambda>found.
     select_loop root is_file rules
       (if rule_include rule then selected \<union> set found else selected - set found))"

definition select_inputs :: "fs_node \<Rightarrow> (str list \<Rightarrow> bool) \<Rightarrow> PatternRule list \<Rightarrow> str list list res" where
  "select_inputs root is_file rules =
     rbind (select_loop root is_file rules {}) (\<lambda>selected. Inr (sorted_list_of_set selected))"

section \<open>What is selected\<close>

inductive file_at :: "fs_node \<Rightarrow> str list \<Rightarrow> bool" where
  here: "file_at File []"
| below: "(name, node) \<in> set entries \<Longrightarrow> file_at node path \<Longrightarrow> file_at (Dir (Some entries)) (name # path)"

inductive_simps file_at_simps [simp]: "file_at File path" "file_at Other path" "file_at (Dir None) path"
inductive_simps file_at_Dir: "file_at (Dir (Some entries)) path"

lemma file_at_Nil [simp]: "\<not> file_at (Dir (Some [])) path"
  by (simp add: file_at_Dir)

lemma file_at_Cons [simp]: "file_at (Dir (Some ((name, node) # entries))) path \<longleftrightarrow>
  (\<exists>p. path = name # p \<and> file_at node p) \<or> file_at (Dir (Some entries)) path"
  by (auto simp: file_at_Dir)

definition found_in :: "(str list \<times> (str \<times> fs_node) list option) list \<Rightarrow> str list set" where
  "found_in stack = {dir @ path |dir es path. (dir, es) \<in> set stack \<and> file_at (Dir es) path}"

lemma found_in_Cons: "found_in ((dir, es) # stack) = {dir @ path |path. file_at (Dir es) path} \<union> found_in stack"
  by (auto simp: found_in_def)

lemma scan_dir_files:
  "found_in (fst (scan_dir dir entries stack out)) \<union> set (snd (scan_dir dir entries stack out)) =
   {dir @ path |path. file_at (Dir (Some entries)) path} \<union> found_in stack \<union> set out"
proof (induction dir entries stack out rule: scan_dir.induct)
  case (1 dir stack out)
  then show ?case by auto
next
  case (2 dir name node entries stack out)
  have split: "{dir @ path |path. file_at (Dir (Some ((name, node) # entries))) path} =
      {dir @ [name] @ path |path. file_at node path} \<union> {dir @ path |path. file_at (Dir (Some entries)) path}"
    by auto
  show ?case
  proof (cases node)
    case (Dir es)
    with 2(3) [OF Dir] show ?thesis unfolding split by (auto simp: found_in_Cons)
  next
    case File
    have "{dir @ [name] @ path |path. file_at File path} = {dir @ [name]}" by auto
    with 2(1) [OF File] File show ?thesis unfolding split by auto
  qed (use 2 in \<open>simp add: split\<close>)
qed

lemma walk_loop_files: "walk_loop stack out = Inr files \<Longrightarrow> set files = found_in stack \<union> set out \<and> sorted files"
proof (induction stack out arbitrary: files rule: walk_loop.induct)
  case (1 out)
  then show ?case by (auto simp: found_in_def)
next
  case (3 dir entries stack out)
  then show ?case using scan_dir_files [of dir entries stack out] by (auto simp: found_in_Cons)
qed simp

lemma walk_files_exact: "walk_files root = Inr files \<Longrightarrow> f \<in> set files \<longleftrightarrow> file_at root f"
  using walk_loop_files [of "[([], es)]" "[]" files for es]
  by (cases root) (auto simp: walk_files_def found_in_def)

text \<open>Which files a rule is about, without the walk and the table.\<close>

definition rule_selects :: "fs_node \<Rightarrow> (str list \<Rightarrow> bool) \<Rightarrow> PatternRule \<Rightarrow> str list \<Rightarrow> bool" where
  "rule_selects root is_file rule f \<longleftrightarrow>
     (if has_glob_meta (rule_pattern rule) then
        file_at root f \<and> globs (utf8 (rule_pattern rule)) (utf8 (normalize_match_path f))
      else is_file f \<and> f = pattern_to_native_path (rule_pattern rule))"

lemma resolve_rule_exact:
  "resolve_rule root is_file rule = Inr found \<Longrightarrow> f \<in> set found \<longleftrightarrow> rule_selects root is_file rule f"
  by (auto simp: resolve_rule_def rule_selects_def res_simps walk_files_exact glob_match_globs Let_def split: if_splits)

text \<open>The decision on one file: the last rule that is about it.\<close>

fun decided :: "fs_node \<Rightarrow> (str list \<Rightarrow> bool) \<Rightarrow> PatternRule list \<Rightarrow> str list \<Rightarrow> bool \<Rightarrow> bool" where
  "decided root is_file [] f chosen = chosen"
| "decided root is_file (rule # rules) f chosen =
     decided root is_file rules f (if rule_selects root is_file rule f then rule_include rule else chosen)"

lemma select_loop_decided:
  "select_loop root is_file rules selected = Inr sel \<Longrightarrow> f \<in> sel \<longleftrightarrow> decided root is_file rules f (f \<in> selected)"
proof (induction rules arbitrary: selected)
  case (Cons rule rules)
  then obtain found where found: "resolve_rule root is_file rule = Inr found"
    "select_loop root is_file rules (if rule_include rule then selected \<union> set found else selected - set found) = Inr sel"
    by (auto simp: res_simps)
  from Cons.IH [OF found(2)] resolve_rule_exact [OF found(1), of f] show ?case by auto
qed simp

lemma select_loop_finite:
  "select_loop root is_file rules selected = Inr sel \<Longrightarrow> finite selected \<Longrightarrow> finite sel"
  by (induction rules arbitrary: selected) (auto simp: res_simps split: if_splits)

lemma decided_last:
  "decided root is_file rules f chosen \<longleftrightarrow>
   (\<exists>before rule after. rules = before @ rule # after \<and> rule_selects root is_file rule f \<and> rule_include rule \<and>
      (\<forall>r\<in>set after. \<not> rule_selects root is_file r f)) \<or>
   (chosen \<and> (\<forall>r\<in>set rules. \<not> rule_selects root is_file r f))"
proof (induction rules arbitrary: chosen)
  case (Cons r rules)
  have "(\<exists>before rule after. r # rules = before @ rule # after \<and> rule_selects root is_file rule f \<and> rule_include rule \<and>
        (\<forall>r\<in>set after. \<not> rule_selects root is_file r f)) \<longleftrightarrow>
      (rule_selects root is_file r f \<and> rule_include r \<and> (\<forall>r\<in>set rules. \<not> rule_selects root is_file r f)) \<or>
      (\<exists>before rule after. rules = before @ rule # after \<and> rule_selects root is_file rule f \<and> rule_include rule \<and>
        (\<forall>r\<in>set after. \<not> rule_selects root is_file r f))"
    by (auto simp: Cons_eq_append_conv)
  then show ?case unfolding decided.simps Cons.IH by (cases "rule_selects root is_file r f") auto
qed simp

text \<open>C28: the last rule about a file decides. When the inputs of a code command are selected, they are in order
  and without repetition, and a file is among them precisely when some include rule is about it and no
  later rule is: for a rule with wildcards, it is a file below the base directory whose path is in the
  language of the pattern; for one without, it is the file the pattern names.\<close>

theorem selection_exact:
  assumes "select_inputs root is_file rules = Inr sel"
  shows "sorted sel \<and> distinct sel \<and>
    (f \<in> set sel \<longleftrightarrow>
      (\<exists>before rule after. rules = before @ rule # after \<and> rule_selects root is_file rule f \<and> rule_include rule \<and>
        (\<forall>r\<in>set after. \<not> rule_selects root is_file r f)))"
proof -
  obtain chosen where c: "select_loop root is_file rules {} = Inr chosen" "sel = sorted_list_of_set chosen"
    using assms by (auto simp: select_inputs_def res_simps)
  have "finite chosen" using select_loop_finite [OF c(1)] by simp
  then show ?thesis using select_loop_decided [OF c(1), of f] c(2) decided_last [of root is_file rules f False] by auto
qed

definition sample_tree :: fs_node where
  "sample_tree = Dir (Some [(lit ''b'', File), (lit ''a'', File), (lit ''cc'', File)])"

definition sample_rules :: "PatternRule list" where
  "sample_rules = [\<lparr>rule_include = True, rule_pattern = lit ''?''\<rparr>, \<lparr>rule_include = False, rule_pattern = lit ''a''\<rparr>]"

lemma sample_selected: "select_inputs sample_tree (\<lambda>_. True) sample_rules = Inr [[lit ''b'']]"
  by code_simp

theorem selection_exact_witness:
  "\<exists>before rule after. sample_rules = before @ rule # after \<and> rule_selects sample_tree (\<lambda>_. True) rule [lit ''b''] \<and>
     rule_include rule"
  using selection_exact [OF sample_selected, of "[lit ''b'']"] by auto

section \<open>What braces expand to\<close>

datatype piece = Plain str | Group "str list"

fun join_comma :: "str list \<Rightarrow> str" where
  "join_comma [] = []"
| "join_comma [c] = c"
| "join_comma (c # cs) = c @ 44 # join_comma cs"

fun piece_text :: "piece \<Rightarrow> str" where
  "piece_text (Plain s) = s"
| "piece_text (Group cs) = 123 # join_comma cs @ [125]"

definition plain :: "str \<Rightarrow> bool" where
  "plain s \<longleftrightarrow> 92 \<notin> set s \<and> 123 \<notin> set s \<and> 125 \<notin> set s"

lemma plain_simps [simp]: "plain []" "plain (s @ t) \<longleftrightarrow> plain s \<and> plain t"
  "plain (c # s) \<longleftrightarrow> c \<noteq> 92 \<and> c \<noteq> 123 \<and> c \<noteq> 125 \<and> plain s"
  by (auto simp: plain_def)

fun piece_ok :: "piece \<Rightarrow> bool" where
  "piece_ok (Plain s) \<longleftrightarrow> plain s"
| "piece_ok (Group cs) \<longleftrightarrow> 2 \<le> length cs \<and> (\<forall>c\<in>set cs. plain c \<and> 44 \<notin> set c)"

fun combinations :: "piece list \<Rightarrow> str list" where
  "combinations [] = [[]]"
| "combinations (Plain s # ps) = map (\<lambda>t. s @ t) (combinations ps)"
| "combinations (Group cs # ps) = concat (map (\<lambda>c. map (\<lambda>t. c @ t) (combinations ps)) cs)"

lemma first_brace_plain:
  "plain s \<Longrightarrow> first_brace_loop (s @ rest) idx start depth False = first_brace_loop rest (idx + length s) start depth False"
  by (induction s arbitrary: idx) simp_all

lemma plain_join: "\<forall>c\<in>set cs. plain c \<Longrightarrow> plain (join_comma cs)"
  by (induction cs rule: join_comma.induct) auto

lemma first_brace_group:
  assumes "plain pre" "plain body"
  shows "first_brace (pre @ 123 # body @ 125 # rest) = Inr (Some (length pre, length pre + 1 + length body))"
  using assms by (simp add: first_brace_def first_brace_plain unwrap_or_panic_def)

lemma choices_loop_free:
  "plain c \<Longrightarrow> 44 \<notin> set c \<Longrightarrow> choices_loop (c @ rest) choices current 0 = choices_loop rest choices (current @ c) 0"
  by (induction c arbitrary: current) auto

lemma choices_loop_join:
  "cs \<noteq> [] \<Longrightarrow> \<forall>c\<in>set cs. plain c \<and> 44 \<notin> set c \<Longrightarrow> choices_loop (join_comma cs) choices [] 0 = Inr (choices @ cs)"
proof (induction cs arbitrary: choices rule: join_comma.induct)
  case (2 c)
  then show ?case using choices_loop_free [of c "[]" choices "[]"] by simp
next
  case (3 c d cs)
  then show ?case by (simp add: choices_loop_free)
qed simp

lemma parse_decimal_comma:
  assumes "44 \<in> set s"
  shows "parse_decimal limit s = None"
proof -
  let ?ds = "case strip_prefix [43] s of Some r \<Rightarrow> r | None \<Rightarrow> s"
  have "44 \<in> set ?ds" using assms by (auto simp: strip_prefix_Some split: option.splits)
  then have "\<not> (\<forall>d\<in>set ?ds. is_ascii_digit d)" by (auto simp: is_ascii_digit_def intro!: bexI [of _ 44])
  then show ?thesis unfolding parse_decimal_def Let_def by simp
qed

lemma parse_i64_comma: "44 \<in> set s \<Longrightarrow> parse_i64 s = None"
  by (cases s) (auto simp: parse_i64_def parse_decimal_comma split: if_splits)

lemma comma_in_join: "2 \<le> length cs \<Longrightarrow> 44 \<in> set (join_comma cs)"
  by (cases cs rule: join_comma.cases) auto

lemma number_range_comma: "44 \<in> set body \<Longrightarrow> number_range body = None"
proof (cases "find_subslice body [46, 46]")
  case (Some i)
  assume c: "44 \<in> set body"
  obtain a b where b: "body = a @ [46, 46] @ b" "length a = i"
    using Some by (auto simp: find_subslice_Some occurs_at_iff)
  then have "split_dots body = Some (a, b)" using Some by (simp add: split_dots_def)
  moreover have "44 \<in> set a \<or> 44 \<in> set b" using c b by auto
  ultimately show ?thesis by (auto simp: number_range_def parse_i64_comma obind_def split: option.splits)
qed (simp add: number_range_def split_dots_def)

lemma each_res_all: "(\<And>x. x \<in> set xs \<Longrightarrow> f x = Inr (g x)) \<Longrightarrow> each_res f xs = Inr (concat (map g xs))"
  by (induction xs) simp_all

lemma expand_pieces:
  "plain pre \<Longrightarrow> \<forall>p\<in>set ps. piece_ok p \<Longrightarrow>
   expand_braces (pre @ concat (map piece_text ps)) = Inr (map (\<lambda>t. pre @ t) (combinations ps))"
proof (induction ps arbitrary: pre)
  case Nil
  then have "first_brace pre = Inr None" using first_brace_plain [of pre "[]" 0 None 0] by (simp add: first_brace_def)
  then show ?case by (simp add: expand_braces.simps [of pre])
next
  case (Cons p ps)
  show ?case
  proof (cases p)
    case (Plain s)
    then show ?thesis using Cons.IH [of "pre @ s"] Cons.prems by (simp add: comp_def)
  next
    case (Group cs)
    let ?rest = "concat (map piece_text ps)" and ?body = "join_comma cs"
    have cs: "2 \<le> length cs" "\<forall>c\<in>set cs. plain c \<and> 44 \<notin> set c" using Cons.prems(2) Group by auto
    have choices: "brace_choices ?body = Inr cs"
      using cs choices_loop_join [of cs "[]"] number_range_comma [OF comma_in_join [OF cs(1)]]
      by (cases cs) (auto simp: brace_choices_def)
    have group: "first_brace (pre @ 123 # ?body @ 125 # ?rest) = Inr (Some (length pre, length pre + 1 + length ?body))"
      using cs Cons.prems(1) by (intro first_brace_group) (auto intro: plain_join)
    have "expand_braces (pre @ c @ ?rest) = Inr (map (\<lambda>t. pre @ c @ t) (combinations ps))" if "c \<in> set cs" for c
      using Cons.IH [of "pre @ c"] Cons.prems cs that by simp
    then have "each_res (\<lambda>c. expand_braces (pre @ c @ ?rest)) cs =
        Inr (concat (map (\<lambda>c. map (\<lambda>t. pre @ c @ t) (combinations ps)) cs))"
      by (rule each_res_all)
    then show ?thesis using Group group choices
      by (simp add: expand_braces.simps [of "pre @ 123 # ?body @ 125 # ?rest"] sub_def map_concat comp_def)
  qed
qed

text \<open>C30: braces expand to every combination. A pattern made of plain text and groups of at least two plain
  alternatives expands to all the combinations of one alternative per group, in the order of the
  alternatives with the first group slowest, and to nothing else.\<close>

theorem braces_expand_product:
  assumes "\<forall>p\<in>set ps. piece_ok p"
  shows "expand_braces (concat (map piece_text ps)) = Inr (combinations ps)"
  using expand_pieces [of "[]" ps] assms by simp

theorem braces_expand_product_witness:
  "expand_braces (lit ''s{a,bc}.{x,y}'') = Inr (map lit [''sa.x'', ''sa.y'', ''sbc.x'', ''sbc.y''])"
  using braces_expand_product [of "[Plain (lit ''s''), Group [lit ''a'', lit ''bc''], Plain (lit ''.''), Group [lit ''x'', lit ''y'']]"]
  by simp

section \<open>Where the checks do not hold\<close>

text \<open>The test for parent components is made before the braces are expanded.\<close>

lemma brace_hides_parent:
  "pattern_rules (lit ''{..,a}/x'') = Inr [\<lparr>rule_include = True, rule_pattern = lit ''../x''\<rparr>, \<lparr>rule_include = True, rule_pattern = lit ''a/x''\<rparr>]"
  using expand_pieces [of "[]" "[Group [lit ''..'', lit ''a''], Plain (lit ''/x'')]"]
  by (simp add: pattern_rules_def validate_relative_pattern_def pattern_to_native_path_def Let_def)

text \<open>Escapes are taken out before the braces are expanded, so an escaped group is a group.\<close>

lemma escaped_brace_expands:
  "pattern_rules (92 # lit ''{a,b'' @ 92 # lit ''}'') = Inr [\<lparr>rule_include = True, rule_pattern = lit ''a''\<rparr>, \<lparr>rule_include = True, rule_pattern = lit ''b''\<rparr>]"
  using expand_pieces [of "[]" "[Group [lit ''a'', lit ''b'']]"]
  by (simp add: pattern_rules_def validate_relative_pattern_def pattern_to_native_path_def Let_def)

text \<open>A pattern with a slash in front is taken as relative, and a wildcard in it can never match.\<close>

lemma absolute_pattern_accepted: "pattern_rules (lit ''/a'') = Inr [\<lparr>rule_include = True, rule_pattern = lit ''/a''\<rparr>]"
  using expand_pieces [of "[]" "[Plain (lit ''/a'')]"]
  by (simp add: pattern_rules_def validate_relative_pattern_def pattern_to_native_path_def Let_def)

end
