(* ===== verification/Code_Plan.thy ===== *)
theory Code_Plan
  imports Code_Pattern Tool_Main
begin

text \<open>
  Model of the plan of the code command (\<^verbatim>\<open>build_code_plan\<close> and \<^verbatim>\<open>PlanBuilder\<close> of \<^verbatim>\<open>src/code.rs\<close>) and of the signing
  of the entries of a container (\<^verbatim>\<open>sign_nested_package_entries\<close>). The ZIP library, the file system and the
  signers of single files are parameters. Containers nest, and the code recurses without a limit: \<open>fuel\<close>
  is the depth of the stack, and \<open>None\<close> is a stack that overflows.
\<close>

section \<open>Formats\<close>

datatype CodeFormat =
  F_Pe | F_Winmd | F_Cab | F_Msi | F_Msp | F_Mst | F_Catalog | F_Script | F_Msix | F_Appx | F_MsixBundle | F_AppxBundle
| F_AppxUpload | F_MsixUpload | F_EncryptedMsix | F_Nuget | F_Snupkg | F_Vsix | F_ClickOnceApplication | F_Vsto
| F_Manifest | F_Deploy | F_AppInstaller | F_BusinessCentralApp | F_Zip | F_Unknown

definition is_container :: "CodeFormat \<Rightarrow> bool" where
  "is_container f \<longleftrightarrow> f \<in> {F_Nuget, F_Snupkg, F_Vsix, F_Msix, F_Appx, F_MsixBundle, F_AppxBundle, F_AppxUpload,
     F_MsixUpload, F_Zip}"

definition is_extension :: "str \<Rightarrow> string \<Rightarrow> bool" where
  "is_extension path expected \<longleftrightarrow>
     (case extension path of None \<Rightarrow> False | Some ext \<Rightarrow> eq_ignore_ascii_case ext (lit expected))"

definition detect_format :: "str \<Rightarrow> u8 list option \<Rightarrow> CodeFormat" where
  "detect_format path bytes =
     (if is_extension path ''app'' then
        (case bytes of
           Some b \<Rightarrow> if take 4 b = utf8 (lit ''NAVX'') then F_BusinessCentralApp else F_Unknown
         | None \<Rightarrow> F_Unknown)
      else
        let ext = (case extension path of None \<Rightarrow> [] | Some e \<Rightarrow> to_ascii_lowercase e); among = (\<lambda>xs. ext \<in> set (map lit xs)) in
        if extension path = None then F_Unknown
        else if among [''exe'', ''dll'', ''sys'', ''ocx'', ''efi'', ''scr'', ''cpl'', ''mui''] then F_Pe
        else if among [''winmd''] then F_Winmd
        else if among [''cab''] then F_Cab
        else if among [''msi''] then F_Msi
        else if among [''msp''] then F_Msp
        else if among [''mst''] then F_Mst
        else if among [''cat''] then F_Catalog
        else if among [''ps1'', ''psd1'', ''psm1'', ''ps1xml'', ''psc1'', ''cdxml'', ''mof'', ''js'', ''vbs'', ''wsf'', ''jse'',
          ''vbe'', ''wsc''] then F_Script
        else if among [''msix''] then F_Msix
        else if among [''appx''] then F_Appx
        else if among [''msixbundle''] then F_MsixBundle
        else if among [''appxbundle''] then F_AppxBundle
        else if among [''appxupload''] then F_AppxUpload
        else if among [''msixupload''] then F_MsixUpload
        else if among [''eappx'', ''emsix'', ''eappxbundle'', ''emsixbundle''] then F_EncryptedMsix
        else if among [''nupkg''] then F_Nuget
        else if among [''snupkg''] then F_Snupkg
        else if among [''vsix''] then F_Vsix
        else if among [''application''] then F_ClickOnceApplication
        else if among [''vsto''] then F_Vsto
        else if among [''manifest''] then F_Manifest
        else if among [''deploy''] then F_Deploy
        else if among [''appinstaller''] then F_AppInstaller
        else if among [''zip''] then F_Zip
        else F_Unknown)"

fun signer_for_format :: "CodeFormat \<Rightarrow> string" where
  "signer_for_format F_Nuget = ''nuget-package-native''"
| "signer_for_format F_Snupkg = ''nuget-package-native''"
| "signer_for_format F_Vsix = ''vsix-opc-xmldsig''"
| "signer_for_format F_ClickOnceApplication = ''clickonce-manifest''"
| "signer_for_format F_Vsto = ''clickonce-manifest''"
| "signer_for_format F_Manifest = ''clickonce-manifest''"
| "signer_for_format F_Deploy = ''clickonce-manifest''"
| "signer_for_format F_EncryptedMsix = ''msix-encrypted-os-only''"
| "signer_for_format F_AppInstaller = ''appinstaller-detached-pkcs7''"
| "signer_for_format F_BusinessCentralApp = ''business-central-app''"
| "signer_for_format F_Zip = ''container-only''"
| "signer_for_format F_Unknown = ''unsupported''"
| "signer_for_format _ = ''authenticode''"

section \<open>Archives\<close>

record zip_entry =
  ze_name :: str
  ze_is_dir :: bool
  ze_bytes :: "u8 list res"

definition normalize_zip_name :: "str \<Rightarrow> str res" where
  "normalize_zip_name name =
     (if name = [] \<or> starts_with [47] name \<or> 92 \<in> set name then bail ''unsafe ZIP entry path''
      else if \<exists>part\<in>set (split_on 47 name). part = lit ''.'' \<or> part = lit ''..'' then bail ''unsafe ZIP entry path''
      else Inr name)"

definition nested_excluded :: "str list \<Rightarrow> str \<Rightarrow> str \<Rightarrow> bool" where
  "nested_excluded excludes name display \<longleftrightarrow>
     (\<exists>pattern\<in>set excludes. glob_match pattern name \<or>
        glob_match pattern (map (\<lambda>c. if c = 33 then 47 else c) display))"

record NestedEntry =
  ne_display :: str
  ne_output_display :: str
  ne_depth :: nat
  ne_bytes :: "u8 list"

fun inspect_loop :: "str list \<Rightarrow> str \<Rightarrow> str \<Rightarrow> nat \<Rightarrow> zip_entry res list \<Rightarrow> NestedEntry list res" where
  "inspect_loop excludes container container_output depth [] = Inr []"
| "inspect_loop excludes container container_output depth (found # rest) =
     rbind found (\<lambda>file.
     if ze_is_dir file then inspect_loop excludes container container_output depth rest
     else
       rbind (normalize_zip_name (ze_name file)) (\<lambda>name.
       let display = container @ 33 # name in
       if nested_excluded excludes name display \<or> detect_format name None = F_Unknown then
         inspect_loop excludes container container_output depth rest
       else
         rbind (ze_bytes file) (\<lambda>bytes.
         rbind (inspect_loop excludes container container_output depth rest) (\<lambda>entries.
         Inr (\<lparr>ne_display = display, ne_output_display = container_output @ 33 # name, ne_depth = depth,
           ne_bytes = bytes\<rparr> # entries)))))"

text \<open>The entries are sorted by the path that is displayed; the sort is stable.\<close>

definition inspect_zip_entries ::
  "(u8 list \<Rightarrow> zip_entry res list res) \<Rightarrow> str list \<Rightarrow> u8 list \<Rightarrow> str \<Rightarrow> str \<Rightarrow> nat \<Rightarrow> NestedEntry list res" where
  "inspect_zip_entries open_zip excludes reader container container_output depth =
     rbind (open_zip reader) (\<lambda>archive.
     rbind (inspect_loop excludes container container_output depth archive) (\<lambda>entries.
     Inr (sort_key ne_display entries)))"

section \<open>The plan\<close>

record CodePlanNode =
  cn_id :: nat
  cn_path :: str
  cn_output_path :: str
  cn_format :: CodeFormat
  cn_depth :: nat
  cn_container :: bool
  cn_signer :: string

record PlanBuilder =
  pb_nodes :: "CodePlanNode list"
  pb_edges :: "(nat \<times> nat) list"
  node_ids :: "str \<Rightarrow> nat option"
  nested_excludes :: "str list"
  pb_output :: "str option"
  top_level_count :: nat

text \<open>\<open>open_zip\<close> is the ZIP library; \<open>read_path\<close>, \<open>is_file\<close> and \<open>is_dir\<close> are the file system.\<close>

record plan_env =
  open_zip :: "u8 list \<Rightarrow> zip_entry res list res"
  read_path :: "str list \<Rightarrow> u8 list res"
  env_is_file :: "str list \<Rightarrow> bool"
  env_is_dir :: "str \<Rightarrow> bool"

datatype source = On_Disk "str list" | In_Memory "u8 list"

fun source_bytes :: "plan_env \<Rightarrow> source \<Rightarrow> u8 list res" where
  "source_bytes E (On_Disk path) = read_path E path"
| "source_bytes E (In_Memory bytes) = Inr bytes"

definition node_format :: "plan_env \<Rightarrow> source \<Rightarrow> str \<Rightarrow> CodeFormat res" where
  "node_format E src display =
     (case src of
        In_Memory bytes \<Rightarrow> Inr (detect_format display (Some bytes))
      | On_Disk path \<Rightarrow>
          if is_extension (join_slash path) ''app'' \<and> env_is_file E path then
            rbind (read_path E path) (\<lambda>bytes. Inr (detect_format (join_slash path) (Some (take 4 bytes))))
          else Inr (detect_format (join_slash path) None))"

definition push_node :: "str \<Rightarrow> str \<Rightarrow> CodeFormat \<Rightarrow> nat \<Rightarrow> PlanBuilder \<Rightarrow> PlanBuilder" where
  "push_node display output_display format depth pb =
     pb\<lparr>node_ids := (node_ids pb)(display \<mapsto> length (pb_nodes pb)),
        pb_nodes := pb_nodes pb @ [\<lparr>cn_id = length (pb_nodes pb), cn_path = display, cn_output_path = output_display,
          cn_format = format, cn_depth = depth, cn_container = is_container format,
          cn_signer = signer_for_format format\<rparr>]\<rparr>"

fun add_entries :: "(NestedEntry \<Rightarrow> PlanBuilder \<Rightarrow> (nat \<times> PlanBuilder) res option) \<Rightarrow> nat \<Rightarrow> NestedEntry list \<Rightarrow>
  PlanBuilder \<Rightarrow> (nat \<times> PlanBuilder) res option" where
  "add_entries add parent [] pb = Some (Inr (parent, pb))"
| "add_entries add parent (entry # entries) pb =
     obind (add entry pb) (\<lambda>r.
     case r of
       Inl e \<Rightarrow> Some (Inl e)
     | Inr (child, pb) \<Rightarrow> add_entries add parent entries (pb\<lparr>pb_edges := pb_edges pb @ [(child, parent)]\<rparr>))"

fun add_node_from_reader :: "nat \<Rightarrow> plan_env \<Rightarrow> bool \<Rightarrow> source \<Rightarrow> str \<Rightarrow> str \<Rightarrow> nat \<Rightarrow> PlanBuilder \<Rightarrow>
  (nat \<times> PlanBuilder) res option" where
  "add_node_from_reader 0 E recurse src display output_display depth pb = None"
| "add_node_from_reader (Suc fuel) E recurse src display output_display depth pb =
     (case node_ids pb display of
        Some i \<Rightarrow> Some (Inr (i, pb))
      | None \<Rightarrow>
          (case node_format E src display of
             Inl e \<Rightarrow> Some (Inl e)
           | Inr format \<Rightarrow>
               let i = length (pb_nodes pb); pb = push_node display output_display format depth pb in
               if recurse \<and> is_container format then
                 (case rbind (source_bytes E src) (\<lambda>bytes. inspect_zip_entries (open_zip E) (nested_excludes pb) bytes
                     display output_display (depth + 1)) of
                    Inl e \<Rightarrow> Some (Inl e)
                  | Inr nested \<Rightarrow>
                      add_entries (\<lambda>entry pb. add_node_from_reader fuel E recurse (In_Memory (ne_bytes entry))
                        (ne_display entry) (ne_output_display entry) (ne_depth entry) pb) i nested pb)
               else Some (Inr (i, pb))))"

definition normalize_output_display :: "str \<Rightarrow> str" where
  "normalize_output_display path = map (\<lambda>c. if c = 92 then 47 else c) path"

definition is_output_directory_target :: "plan_env \<Rightarrow> str \<Rightarrow> bool" where
  "is_output_directory_target E path \<longleftrightarrow> env_is_dir E path \<or> ends_with [47] path \<or> ends_with [92] path"

definition join_display_path :: "str \<Rightarrow> str \<Rightarrow> str" where
  "join_display_path base rel =
     (if base = [] then rel else if ends_with [47] base then base @ rel else base @ 47 # rel)"

definition top_level_output_path :: "plan_env \<Rightarrow> PlanBuilder \<Rightarrow> str \<Rightarrow> str" where
  "top_level_output_path E pb display =
     (case pb_output pb of
        None \<Rightarrow> display
      | Some output \<Rightarrow>
          if top_level_count pb = 1 \<and> \<not> is_output_directory_target E output then normalize_output_display output
          else join_display_path (normalize_output_display output) display)"

definition add_path :: "nat \<Rightarrow> plan_env \<Rightarrow> bool \<Rightarrow> str list \<Rightarrow> PlanBuilder \<Rightarrow> (nat \<times> PlanBuilder) res option" where
  "add_path fuel E recurse path pb =
     (let display = normalize_match_path path in
      add_node_from_reader fuel E recurse (On_Disk path) display (top_level_output_path E pb display) 0 pb)"

fun add_paths :: "nat \<Rightarrow> plan_env \<Rightarrow> bool \<Rightarrow> str list list \<Rightarrow> PlanBuilder \<Rightarrow> PlanBuilder res option" where
  "add_paths fuel E recurse [] pb = Some (Inr pb)"
| "add_paths fuel E recurse (path # paths) pb =
     obind (add_path fuel E recurse path pb) (\<lambda>r.
     case r of Inl e \<Rightarrow> Some (Inl e) | Inr (_, pb) \<Rightarrow> add_paths fuel E recurse paths pb)"

text \<open>The options of the command that the plan and its execution look at.\<close>

record CodeArgs =
  ca_inputs :: "str list"
  ca_file_list :: "str res option"
  ca_output :: "str option"
  recurse_containers :: bool
  max_concurrency :: "nat option"
  publisher_name :: "str option"
  file_digest :: DigestAlgorithm
  ca_timestamp_url :: "str option"
  ca_timestamp_digest :: "DigestAlgorithm option"
  continue_on_error :: bool
  skip_signed :: bool
  overwrite :: bool

record CodePlan =
  cp_base_directory :: str
  cp_output :: "str option"
  cp_recurse_containers :: bool
  cp_max_concurrency :: "nat option"
  cp_file_digest :: string
  cp_timestamp_digest :: "string option"
  cp_timestamp_url :: "str option"
  cp_continue_on_error :: bool
  cp_skip_signed :: bool
  cp_nodes :: "CodePlanNode list"
  cp_edges :: "(nat \<times> nat) list"

fun digest_name :: "DigestAlgorithm \<Rightarrow> string" where
  "digest_name Sha1 = ''sha1''"
| "digest_name Sha256 = ''sha256''"
| "digest_name Sha384 = ''sha384''"
| "digest_name Sha512 = ''sha512''"
| "digest_name CertHash = ''cert-hash''"

definition plan_args_ok :: "CodeArgs \<Rightarrow> unit res" where
  "plan_args_ok args =
     (if max_concurrency args = Some 0 then bail ''--max-concurrency must be greater than zero''
      else case (ca_timestamp_url args, ca_timestamp_digest args) of
        (Some _, None) \<Rightarrow> bail ''`psign-tool code` requires --timestamp-digest with --timestamp-url''
      | (None, Some _) \<Rightarrow> bail ''`psign-tool code` requires --timestamp-url with --timestamp-digest''
      | _ \<Rightarrow> Inr ())"

fun is_dir_node :: "fs_node \<Rightarrow> bool" where
  "is_dir_node (Dir es) \<longleftrightarrow> True"
| "is_dir_node _ \<longleftrightarrow> False"

text \<open>\<open>base\<close> is the canonical base directory with what is below it, or the error of resolving it.\<close>

definition build_code_plan :: "nat \<Rightarrow> plan_env \<Rightarrow> (str \<times> fs_node) res \<Rightarrow> CodeArgs \<Rightarrow> CodePlan res option" where
  "build_code_plan fuel E base args =
     (case rbind (plan_args_ok args) (\<lambda>_. rbind base (\<lambda>(base_path, root).
          if \<not> is_dir_node root then bail ''base directory is not a directory''
          else
            rbind (selection_rules (ca_inputs args) (ca_file_list args)) (\<lambda>rules.
            rbind (select_inputs root (env_is_file E) rules) (\<lambda>selected. Inr (base_path, rules, selected))))) of
        Inl e \<Rightarrow> Some (Inl e)
      | Inr (base_path, rules, selected) \<Rightarrow>
          obind (add_paths fuel E (recurse_containers args) selected
            \<lparr>pb_nodes = [], pb_edges = [], node_ids = Map.empty,
             nested_excludes = map rule_pattern (filter (\<lambda>rule. \<not> rule_include rule) rules),
             pb_output = ca_output args, top_level_count = length selected\<rparr>) (\<lambda>r.
          Some (rbind r (\<lambda>pb.
            Inr \<lparr>cp_base_directory = base_path, cp_output = ca_output args,
              cp_recurse_containers = recurse_containers args, cp_max_concurrency = max_concurrency args,
              cp_file_digest = digest_name (file_digest args),
              cp_timestamp_digest = map_option digest_name (ca_timestamp_digest args),
              cp_timestamp_url = ca_timestamp_url args, cp_continue_on_error = continue_on_error args,
              cp_skip_signed = skip_signed args, cp_nodes = pb_nodes pb, cp_edges = pb_edges pb\<rparr>))))"

section \<open>What a plan is\<close>

text \<open>
  \<open>plan_inv\<close>: numbers are positions, the table maps exactly the paths of the nodes to their numbers, what is
  shown of a format follows from it, and an edge leads from an entry to the container its path names.
\<close>

definition nested_in :: "str \<Rightarrow> str \<Rightarrow> bool" where
  "nested_in inner outer \<longleftrightarrow> (\<exists>name. inner = outer @ 33 # name)"

definition node_ok :: "nat \<Rightarrow> CodePlanNode \<Rightarrow> bool" where
  "node_ok i n \<longleftrightarrow> cn_id n = i \<and> cn_container n = is_container (cn_format n) \<and> cn_signer n = signer_for_format (cn_format n)"

definition plan_inv :: "PlanBuilder \<Rightarrow> bool" where
  "plan_inv pb \<longleftrightarrow>
     (\<forall>i<length (pb_nodes pb). node_ok i (pb_nodes pb ! i)) \<and>
     (\<forall>d i. node_ids pb d = Some i \<longleftrightarrow> i < length (pb_nodes pb) \<and> cn_path (pb_nodes pb ! i) = d) \<and>
     (\<forall>(b, a)\<in>set (pb_edges pb). b < length (pb_nodes pb) \<and> a < length (pb_nodes pb) \<and>
        nested_in (cn_path (pb_nodes pb ! b)) (cn_path (pb_nodes pb ! a)))"

definition grows :: "PlanBuilder \<Rightarrow> PlanBuilder \<Rightarrow> bool" where
  "grows pb pb' \<longleftrightarrow> (\<exists>more_nodes. pb_nodes pb' = pb_nodes pb @ more_nodes) \<and> nested_excludes pb' = nested_excludes pb"

lemma step_ok:
  "obind m (\<lambda>r. case r of Inl e \<Rightarrow> Some (Inl e) | Inr (i, pb) \<Rightarrow> k i pb) = Some (Inr y) \<longleftrightarrow>
   (\<exists>i pb. m = Some (Inr (i, pb)) \<and> k i pb = Some (Inr y))"
  by (cases m) (auto split: sum.splits)

lemma grows_refl [simp]: "grows pb pb"
  by (simp add: grows_def)

lemma grows_trans [trans]: "grows a b \<Longrightarrow> grows b c \<Longrightarrow> grows a c"
  by (auto simp: grows_def)

lemma grows_edges [simp]: "grows a (b\<lparr>pb_edges := es\<rparr>) \<longleftrightarrow> grows a b"
  by (simp add: grows_def)

lemma grows_edges_left [simp]: "grows (a\<lparr>pb_edges := es\<rparr>) b \<longleftrightarrow> grows a b"
  by (simp add: grows_def)

lemma node_ids_grows:
  "plan_inv pb \<Longrightarrow> plan_inv pb' \<Longrightarrow> grows pb pb' \<Longrightarrow> node_ids pb d = Some i \<Longrightarrow> node_ids pb' d = Some i"
  by (auto simp: plan_inv_def grows_def nth_append)

lemma push_node_inv:
  assumes "plan_inv pb" "node_ids pb d = None"
  shows "plan_inv (push_node d out f depth pb)"
    "node_ids (push_node d out f depth pb) d = Some (length (pb_nodes pb))" "grows pb (push_node d out f depth pb)"
proof -
  show "node_ids (push_node d out f depth pb) d = Some (length (pb_nodes pb))" "grows pb (push_node d out f depth pb)"
    by (simp_all add: push_node_def grows_def)
  have fresh: "cn_path (pb_nodes pb ! i) \<noteq> d" if "i < length (pb_nodes pb)" for i
    using assms that unfolding plan_inv_def by (metis option.distinct(1))
  have "(node_ids (push_node d out f depth pb) e = Some i) \<longleftrightarrow>
      i < length (pb_nodes (push_node d out f depth pb)) \<and> cn_path (pb_nodes (push_node d out f depth pb) ! i) = e" for e i
    using assms(1) fresh by (auto simp: push_node_def plan_inv_def nth_append less_Suc_eq)
  then show "plan_inv (push_node d out f depth pb)"
    using assms(1) by (auto simp: plan_inv_def push_node_def node_ok_def nth_append less_Suc_eq)
qed

lemma push_edge_inv:
  assumes "plan_inv pb" "node_ids pb e = Some child" "node_ids pb d = Some parent" "nested_in e d"
  shows "plan_inv (pb\<lparr>pb_edges := pb_edges pb @ [(child, parent)]\<rparr>)"
  using assms by (auto simp: plan_inv_def)

lemma add_entries_inv:
  assumes "add_entries add parent es pb = Some (Inr (j, pb'))" "plan_inv pb" "node_ids pb d = Some parent"
    and "\<And>e pb i pb'. e \<in> set es \<Longrightarrow> add e pb = Some (Inr (i, pb')) \<Longrightarrow> plan_inv pb \<Longrightarrow>
      plan_inv pb' \<and> grows pb pb' \<and> node_ids pb' (ne_display e) = Some i"
    and "\<And>e. e \<in> set es \<Longrightarrow> nested_in (ne_display e) d"
  shows "plan_inv pb' \<and> grows pb pb' \<and> j = parent"
  using assms
proof (induction es arbitrary: pb)
  case (Cons e es)
  then obtain child pb1 where a: "add e pb = Some (Inr (child, pb1))"
    and r: "add_entries add parent es (pb1\<lparr>pb_edges := pb_edges pb1 @ [(child, parent)]\<rparr>) = Some (Inr (j, pb'))"
    by (auto simp: step_ok)
  have i: "plan_inv pb1" "grows pb pb1" "node_ids pb1 (ne_display e) = Some child"
    using Cons.prems(4) [OF _ a Cons.prems(2)] by auto
  have d: "node_ids pb1 d = Some parent" by (rule node_ids_grows [OF Cons.prems(2) i(1,2) Cons.prems(3)])
  have "plan_inv (pb1\<lparr>pb_edges := pb_edges pb1 @ [(child, parent)]\<rparr>)"
    using push_edge_inv [OF i(1,3) d] Cons.prems(5) [of e] by simp
  then have "plan_inv pb' \<and> grows (pb1\<lparr>pb_edges := pb_edges pb1 @ [(child, parent)]\<rparr>) pb' \<and> j = parent"
  proof (rule Cons.IH [OF r])
    show "node_ids (pb1\<lparr>pb_edges := pb_edges pb1 @ [(child, parent)]\<rparr>) d = Some parent" using d by simp
  qed (use Cons.prems(4,5) in auto)
  then have "plan_inv pb' \<and> grows pb1 pb' \<and> j = parent" by simp
  then show ?case using i(2) grows_trans by blast
qed simp

lemma inspect_loop_names:
  "inspect_loop ex c out depth found = Inr es \<Longrightarrow> e \<in> set es \<Longrightarrow> nested_in (ne_display e) c"
  by (induction found arbitrary: es) (auto simp: res_simps Let_def nested_in_def split: if_splits)

lemma inspect_names:
  "inspect_zip_entries oz ex b c out depth = Inr es \<Longrightarrow> e \<in> set es \<Longrightarrow> nested_in (ne_display e) c"
  by (auto simp: inspect_zip_entries_def res_simps inspect_loop_names)

lemma add_node_inv:
  "add_node_from_reader fuel E recurse src d out depth pb = Some (Inr (i, pb')) \<Longrightarrow> plan_inv pb \<Longrightarrow>
   plan_inv pb' \<and> grows pb pb' \<and> node_ids pb' d = Some i"
proof (induction fuel arbitrary: src d out depth pb i pb')
  case (Suc fuel)
  show ?case
  proof (cases "node_ids pb d")
    case (Some j)
    then show ?thesis using Suc.prems by auto
  next
    case None
    then obtain f where f: "node_format E src d = Inr f" using Suc.prems(1) by (auto split: sum.splits)
    let ?pb = "push_node d out f depth pb" and ?n = "length (pb_nodes pb)"
    note push = push_node_inv [OF Suc.prems(2) None, of out f depth]
    show ?thesis
    proof (cases "recurse \<and> is_container f")
      case False
      then show ?thesis using Suc.prems(1) None f push by (auto simp: Let_def)
    next
      case True
      then obtain es where es: "rbind (source_bytes E src) (\<lambda>bytes. inspect_zip_entries (open_zip E) (nested_excludes ?pb) bytes
          d out (depth + 1)) = Inr es"
        and r: "add_entries (\<lambda>entry pb. add_node_from_reader fuel E recurse (In_Memory (ne_bytes entry))
            (ne_display entry) (ne_output_display entry) (ne_depth entry) pb) ?n es ?pb = Some (Inr (i, pb'))"
        using Suc.prems(1) None f by (auto simp: Let_def split: sum.splits)
      have "plan_inv pb' \<and> grows ?pb pb' \<and> i = ?n"
      proof (rule add_entries_inv [OF r push(1,2)])
        show "nested_in (ne_display e) d" if "e \<in> set es" for e
          using es that by (auto simp: res_simps intro: inspect_names)
      qed (rule Suc.IH)
      then show ?thesis using push node_ids_grows grows_trans by blast
    qed
  qed
qed simp

lemma add_paths_inv:
  "add_paths fuel E recurse paths pb = Some (Inr pb') \<Longrightarrow> plan_inv pb \<Longrightarrow>
   plan_inv pb' \<and> grows pb pb' \<and> (\<forall>p\<in>set paths. node_ids pb' (normalize_match_path p) \<noteq> None)"
proof (induction paths arbitrary: pb)
  case (Cons p paths)
  then obtain i pb1 where a: "add_path fuel E recurse p pb = Some (Inr (i, pb1))"
    and r: "add_paths fuel E recurse paths pb1 = Some (Inr pb')"
    by (auto simp: step_ok)
  from a have 1: "plan_inv pb1 \<and> grows pb pb1 \<and> node_ids pb1 (normalize_match_path p) = Some i"
    unfolding add_path_def Let_def by (rule add_node_inv) (rule Cons.prems(2))
  then have 2: "plan_inv pb' \<and> grows pb1 pb' \<and> (\<forall>p\<in>set paths. node_ids pb' (normalize_match_path p) \<noteq> None)"
    using Cons.IH [OF r] by blast
  then show ?case using 1 node_ids_grows [of pb1 pb'] grows_trans [of pb pb1 pb'] by auto
qed simp

lemma nested_longer: "nested_in b a \<Longrightarrow> length a < length b"
  by (auto simp: nested_in_def)

lemma plan_inv_acyclic: "plan_inv pb \<Longrightarrow> acyclic (set (pb_edges pb))"
proof (rule acyclic_subset)
  let ?m = "\<lambda>i. length (cn_path (pb_nodes pb ! i))"
  have "(set (pb_edges pb))\<inverse> \<subseteq> measure ?m" if "plan_inv pb"
    using that unfolding plan_inv_def by (auto dest!: nested_longer)
  then have "wf ((set (pb_edges pb))\<inverse>)" if "plan_inv pb" using that wf_subset [OF wf_measure] by blast
  then show "plan_inv pb \<Longrightarrow> acyclic (set (pb_edges pb))" using wf_acyclic acyclic_converse by blast
qed simp

lemma plan_inv_paths:
  assumes "plan_inv pb"
  shows "map cn_id (pb_nodes pb) = [0..<length (pb_nodes pb)]" "distinct (map cn_path (pb_nodes pb))"
proof -
  show "map cn_id (pb_nodes pb) = [0..<length (pb_nodes pb)]"
    using assms by (auto simp: plan_inv_def node_ok_def intro: nth_equalityI)
  have ids: "node_ids pb d = Some i \<longleftrightarrow> i < length (pb_nodes pb) \<and> cn_path (pb_nodes pb ! i) = d" for d i
    using assms by (simp add: plan_inv_def)
  have "i = j" if "i < length (pb_nodes pb)" "j < length (pb_nodes pb)" "cn_path (pb_nodes pb ! i) = cn_path (pb_nodes pb ! j)" for i j
    using ids [of "cn_path (pb_nodes pb ! j)" i] ids [of "cn_path (pb_nodes pb ! j)" j] that by simp
  then show "distinct (map cn_path (pb_nodes pb))" by (auto simp: distinct_conv_nth)
qed

lemma empty_builder_inv: "pb_nodes pb = [] \<Longrightarrow> pb_edges pb = [] \<Longrightarrow> node_ids pb = Map.empty \<Longrightarrow> plan_inv pb"
  by (simp add: plan_inv_def)

text \<open>C25: a plan is well formed. When a plan is built, the numbers of its nodes are their positions, no path is
  planned twice, every selected file is among them, and the edges, each from an entry to the container
  that its path names, have no cycle, so that there is an order that signs entries before containers.\<close>

theorem plan_well_formed:
  assumes "build_code_plan fuel E base args = Some (Inr plan)"
  shows "map cn_id (cp_nodes plan) = [0..<length (cp_nodes plan)] \<and> distinct (map cn_path (cp_nodes plan)) \<and>
    acyclic (set (cp_edges plan)) \<and>
    (\<forall>(b, a)\<in>set (cp_edges plan). nested_in (cn_path (cp_nodes plan ! b)) (cn_path (cp_nodes plan ! a))) \<and>
    (\<exists>base_path root rules selected. base = Inr (base_path, root) \<and>
       selection_rules (ca_inputs args) (ca_file_list args) = Inr rules \<and>
       select_inputs root (env_is_file E) rules = Inr selected \<and>
       (\<forall>p\<in>set selected. normalize_match_path p \<in> cn_path ` set (cp_nodes plan)))"
proof -
  let ?pre = "rbind (plan_args_ok args) (\<lambda>_. rbind base (\<lambda>(base_path, root).
          if \<not> is_dir_node root then bail ''base directory is not a directory''
          else
            rbind (selection_rules (ca_inputs args) (ca_file_list args)) (\<lambda>rules.
            rbind (select_inputs root (env_is_file E) rules) (\<lambda>selected. Inr (base_path, rules, selected)))))"
  obtain base_path rules selected where pre: "?pre = Inr (base_path, rules, selected)"
    using assms by (cases ?pre) (auto simp: build_code_plan_def)
  obtain p where p: "base = Inr p" using pre by (cases base) (auto simp: rbind_Inr_iff)
  obtain root where base: "base = Inr (base_path, root)"
    using pre p by (cases p) (auto simp: rbind_Inr_iff split: if_splits)
  have sel: "base = Inr (base_path, root)" "selection_rules (ca_inputs args) (ca_file_list args) = Inr rules"
    "select_inputs root (env_is_file E) rules = Inr selected"
    using pre base by (auto simp: rbind_Inr_iff split: if_splits)
  let ?pb0 = "\<lparr>pb_nodes = [], pb_edges = [], node_ids = Map.empty,
    nested_excludes = map rule_pattern (filter (\<lambda>rule. \<not> rule_include rule) rules),
    pb_output = ca_output args, top_level_count = length selected\<rparr>"
  obtain pb where pb: "add_paths fuel E (recurse_containers args) selected ?pb0 = Some (Inr pb)"
    "cp_nodes plan = pb_nodes pb" "cp_edges plan = pb_edges pb"
    using assms [unfolded build_code_plan_def pre] by (auto simp: obind_Some_iff rbind_Inr_iff)
  have inv: "plan_inv pb" "\<forall>p\<in>set selected. node_ids pb (normalize_match_path p) \<noteq> None"
    using add_paths_inv [OF pb(1) empty_builder_inv] by simp_all
  have "normalize_match_path p \<in> cn_path ` set (pb_nodes pb)" if chosen: "p \<in> set selected" for p
  proof -
    obtain i where "node_ids pb (normalize_match_path p) = Some i"
      using bspec [OF inv(2) chosen] by (cases "node_ids pb (normalize_match_path p)") simp_all
    then have "i < length (pb_nodes pb)" "cn_path (pb_nodes pb ! i) = normalize_match_path p"
      using inv(1) by (auto simp: plan_inv_def)
    then show ?thesis by (metis imageI nth_mem)
  qed
  moreover have "\<forall>(b, a)\<in>set (pb_edges pb). nested_in (cn_path (pb_nodes pb ! b)) (cn_path (pb_nodes pb ! a))"
    using inv(1) by (auto simp: plan_inv_def)
  ultimately show ?thesis using sel plan_inv_acyclic [OF inv(1)] plan_inv_paths [OF inv(1)] pb(2,3) by auto
qed

section \<open>Depth\<close>

text \<open>Archives that nest at all: what an archive holds has a smaller rank than the archive.\<close>

definition nests :: "plan_env \<Rightarrow> (u8 list \<Rightarrow> nat) \<Rightarrow> bool" where
  "nests E rank \<longleftrightarrow> (\<forall>b found e c. open_zip E b = Inr found \<longrightarrow> Inr e \<in> set found \<longrightarrow> ze_bytes e = Inr c \<longrightarrow> rank c < rank b)"

lemma inspect_loop_members:
  "inspect_loop ex c out depth found = Inr es \<Longrightarrow> e \<in> set es \<Longrightarrow> \<exists>z. Inr z \<in> set found \<and> ze_bytes z = Inr (ne_bytes e)"
proof (induction found arbitrary: es)
  case (Cons r rest)
  then show ?case by (fastforce simp: res_simps Let_def split: if_splits)
qed simp

lemma inspect_rank:
  "nests E rank \<Longrightarrow> inspect_zip_entries (open_zip E) ex b c out depth = Inr es \<Longrightarrow> e \<in> set es \<Longrightarrow> rank (ne_bytes e) < rank b"
  by (auto simp: inspect_zip_entries_def res_simps nests_def dest!: inspect_loop_members)

lemma add_entries_returns:
  "(\<And>e pb. e \<in> set es \<Longrightarrow> add e pb \<noteq> None) \<Longrightarrow> add_entries add parent es pb \<noteq> None"
proof (induction es arbitrary: pb)
  case (Cons e es)
  then obtain r where r: "add e pb = Some r" by force
  show ?case using Cons.IH [OF Cons.prems] r by (cases r) auto
qed simp

lemma add_node_returns:
  "nests E rank \<Longrightarrow> (\<And>b. source_bytes E src = Inr b \<Longrightarrow> rank b < fuel) \<Longrightarrow> 0 < fuel \<Longrightarrow>
   add_node_from_reader fuel E recurse src d out depth pb \<noteq> None"
proof (induction fuel arbitrary: src d out depth pb)
  case (Suc fuel)
  let ?pb = "\<lambda>f. push_node d out f depth pb"
  have "add_entries (\<lambda>entry pb. add_node_from_reader fuel E recurse (In_Memory (ne_bytes entry))
      (ne_display entry) (ne_output_display entry) (ne_depth entry) pb) n es (?pb f) \<noteq> None"
    if es: "rbind (source_bytes E src) (\<lambda>bytes. inspect_zip_entries (open_zip E) (nested_excludes (?pb f)) bytes
      d out (depth + 1)) = Inr es" for n es f
  proof (rule add_entries_returns)
    fix e pb assume e: "e \<in> set es"
    obtain b where b: "source_bytes E src = Inr b"
      "inspect_zip_entries (open_zip E) (nested_excludes (?pb f)) b d out (depth + 1) = Inr es"
      using es by (auto simp: res_simps)
    have "rank (ne_bytes e) < rank b" by (rule inspect_rank [OF Suc.prems(1) b(2) e])
    then have "rank (ne_bytes e) < fuel" using Suc.prems(2) [OF b(1)] by simp
    then show "add_node_from_reader fuel E recurse (In_Memory (ne_bytes e)) (ne_display e) (ne_output_display e)
        (ne_depth e) pb \<noteq> None"
      by (intro Suc.IH [OF Suc.prems(1)]) simp_all
  qed
  then show ?case by (auto simp: Let_def split: option.splits sum.splits)
qed simp

lemma add_paths_returns:
  "(\<And>p pb. p \<in> set paths \<Longrightarrow> add_path fuel E recurse p pb \<noteq> None) \<Longrightarrow> add_paths fuel E recurse paths pb \<noteq> None"
proof (induction paths arbitrary: pb)
  case (Cons p paths)
  then obtain r where r: "add_path fuel E recurse p pb = Some r" by force
  show ?case using Cons.IH [OF Cons.prems] r by (cases r) auto
qed simp

lemma obind_returns: "m \<noteq> None \<Longrightarrow> (\<And>x. f x \<noteq> None) \<Longrightarrow> obind m f \<noteq> None"
  by (cases m) auto

definition disk_rank :: "plan_env \<Rightarrow> (u8 list \<Rightarrow> nat) \<Rightarrow> str list \<Rightarrow> nat" where
  "disk_rank E rank p = (case read_path E p of Inr b \<Rightarrow> rank b | Inl _ \<Rightarrow> 0)"

lemma add_path_returns: "nests E rank \<Longrightarrow> disk_rank E rank p < fuel \<Longrightarrow> add_path fuel E recurse p pb \<noteq> None"
  unfolding add_path_def Let_def by (rule add_node_returns) (auto simp: disk_rank_def)


section \<open>An archive that contains itself\<close>

definition r_zip :: str where "r_zip = lit ''r.zip''"

lemma split_on_behind: "c \<notin> set y \<Longrightarrow> split_on c (x @ y) = butlast (split_on c x) @ [List.last (split_on c x) @ y]"
proof (induction x)
  case Nil
  then show ?case by (simp add: split_on_free)
next
  case (Cons a x)
  then show ?case by (cases "split_on c x") (auto split: list.splits)
qed

lemma format_nested_zip: "detect_format (d @ 33 # r_zip) b = F_Zip"
proof -
  let ?p = "d @ 33 # r_zip"
  have "split_on 47 ?p = butlast (split_on 47 d) @ [List.last (split_on 47 d) @ 33 # r_zip]"
    by (rule split_on_behind) (simp add: r_zip_def)
  then have "file_name ?p = Some (List.last (split_on 47 d) @ 33 # r_zip)"
    by (simp add: file_name_def Let_def) (auto simp: append_eq_Cons_conv Cons_eq_append_conv)
  then have "extension ?p = Some (lit ''zip'')" by (simp add: extension_def r_zip_def)
  then show ?thesis by (simp add: detect_format_def is_extension_def eq_ignore_ascii_case_def to_ascii_lowercase_def char_lower_def)
qed

definition holds_itself :: "plan_env \<Rightarrow> u8 list \<Rightarrow> bool" where
  "holds_itself E b \<longleftrightarrow> open_zip E b = Inr [Inr \<lparr>ze_name = r_zip, ze_is_dir = False, ze_bytes = Inr b\<rparr>]"

lemma format_r_zip: "detect_format r_zip b = F_Zip"
  by (simp add: r_zip_def detect_format_def is_extension_def extension_def file_name_def Let_def eq_ignore_ascii_case_def
      to_ascii_lowercase_def char_lower_def)

lemma r_zip_safe: "normalize_zip_name r_zip = Inr r_zip"
  by (simp add: normalize_zip_name_def starts_with_def r_zip_def)

lemma inspect_itself:
  "holds_itself E b \<Longrightarrow> inspect_zip_entries (open_zip E) [] b d out depth =
   Inr [\<lparr>ne_display = d @ 33 # r_zip, ne_output_display = out @ 33 # r_zip, ne_depth = depth, ne_bytes = b\<rparr>]"
  by (simp add: holds_itself_def inspect_zip_entries_def r_zip_safe nested_excluded_def format_r_zip Let_def)

lemma nested_itself_overflows:
  "holds_itself E b \<Longrightarrow> nested_excludes pb = [] \<Longrightarrow> \<forall>e i. node_ids pb e = Some i \<longrightarrow> length e \<le> length d \<Longrightarrow>
   add_node_from_reader fuel E True (In_Memory b) (d @ 33 # r_zip) out depth pb = None"
proof (induction fuel arbitrary: d out depth pb)
  case (Suc fuel)
  let ?d = "d @ 33 # r_zip"
  have new: "node_ids pb ?d = None"
  proof (cases "node_ids pb ?d")
    case (Some i)
    then have "length ?d \<le> length d" using Suc.prems(3) by blast
    then show ?thesis by simp
  qed
  have "add_node_from_reader fuel E True (In_Memory b) (?d @ 33 # r_zip) (out @ 33 # r_zip) (depth + 1)
      (push_node ?d out F_Zip depth pb) = None"
    using Suc.prems by (intro Suc.IH) (auto simp: push_node_def le_SucI split: if_splits intro: le_trans)
  then show ?case using new Suc.prems(1,2)
    by (simp add: node_format_def format_nested_zip is_container_def inspect_itself push_node_def Let_def)
qed simp

definition r_zip_rule :: PatternRule where
  "r_zip_rule = \<lparr>rule_include = True, rule_pattern = r_zip\<rparr>"

lemma r_zip_rule_simps [simp]: "rule_include r_zip_rule" "rule_pattern r_zip_rule = r_zip"
  by (simp_all add: r_zip_rule_def)

lemma r_zip_rules: "selection_rules [r_zip] None = Inr [r_zip_rule]"
proof -
  have "expand_braces r_zip = Inr [r_zip]" using expand_pieces [of "[]" "[piece.Plain r_zip]"] by (simp add: r_zip_def)
  then have "pattern_rules r_zip = Inr [r_zip_rule]"
    by (simp add: pattern_rules_def r_zip_def r_zip_rule_def validate_relative_pattern_def pattern_to_native_path_def Let_def)
  then show ?thesis by (simp add: selection_rules_def)
qed

lemma r_zip_selected: "is_file [r_zip] \<Longrightarrow> select_inputs root is_file [r_zip_rule] = Inr [[r_zip]]"
proof -
  have "split_on 47 r_zip = [r_zip]" by (simp add: r_zip_def)
  then have native: "pattern_to_native_path r_zip = [r_zip]" unfolding pattern_to_native_path_def by (simp add: r_zip_def)
  have glob: "\<not> has_glob_meta r_zip" by (simp add: has_glob_meta_def r_zip_def)
  assume "is_file [r_zip]"
  then show ?thesis using glob native by (simp add: select_inputs_def resolve_rule_def Let_def r_zip_rule_def)
qed

lemma r_zip_display: "normalize_match_path [r_zip] = r_zip"
  by (simp add: normalize_match_path_def r_zip_def)

lemma r_zip_format: "node_format E (On_Disk [r_zip]) r_zip = Inr F_Zip"
proof -
  have "is_extension r_zip ''app'' = False"
    by (simp add: r_zip_def is_extension_def extension_def file_name_def Let_def eq_ignore_ascii_case_def
        to_ascii_lowercase_def char_lower_def)
  then show ?thesis by (simp add: node_format_def format_r_zip)
qed

text \<open>C32: an archive that contains itself is never planned. When the one input is an archive whose only entry is
  that archive again, building the plan overflows the stack whatever its depth: the recursion into
  containers has no limit, and the path grows with every level, so that no two levels are the same node.\<close>

theorem self_containing_archive_overflows:
  assumes "holds_itself E b" "read_path E [r_zip] = Inr b" "env_is_file E [r_zip]"
    and "ca_inputs args = [r_zip]" "ca_file_list args = None" "recurse_containers args" "plan_args_ok args = Inr ()"
  shows "build_code_plan fuel E (Inr (base_path, Dir es)) args = None"
proof -
  have "add_path fuel E True [r_zip] \<lparr>pb_nodes = [], pb_edges = [], node_ids = Map.empty, nested_excludes = [],
      pb_output = out, top_level_count = Suc 0\<rparr> = None" for out
  proof (cases fuel)
    case (Suc n)
    let ?pb = "\<lambda>out. \<lparr>pb_nodes = [], pb_edges = [], node_ids = Map.empty, nested_excludes = [], pb_output = out, top_level_count = Suc 0\<rparr>"
    let ?out = "top_level_output_path E (?pb out) r_zip"
    have "add_node_from_reader n E True (In_Memory b) (r_zip @ 33 # r_zip) (?out @ 33 # r_zip) 1
        (push_node r_zip ?out F_Zip 0 (?pb out)) = None"
      using assms(1) by (intro nested_itself_overflows) (auto simp: push_node_def split: if_splits)
    then show ?thesis using Suc r_zip_format assms(1,2) r_zip_display
      by (simp add: add_path_def Let_def is_container_def inspect_itself push_node_def)
  qed (simp add: add_path_def Let_def)
  then show ?thesis using assms(4-7) r_zip_rules r_zip_selected [of "env_is_file E", OF assms(3)]
    by (simp add: build_code_plan_def)
qed

section \<open>Concrete inputs\<close>

definition sample_code_args :: CodeArgs where
  "sample_code_args = \<lparr>ca_inputs = [r_zip], ca_file_list = None, ca_output = None, recurse_containers = True,
     max_concurrency = None, publisher_name = None, file_digest = Sha256, ca_timestamp_url = None,
     ca_timestamp_digest = None, continue_on_error = False, skip_signed = False, overwrite = False\<rparr>"

text \<open>An archive \<open>[1]\<close> with one program in it; \<open>[3]\<close> is the archive that contains itself.\<close>

definition sample_plan_env :: "u8 list \<Rightarrow> plan_env" where
  "sample_plan_env b = \<lparr>open_zip = (\<lambda>z. if z = [1] then Inr [Inr \<lparr>ze_name = lit ''a.exe'', ze_is_dir = False, ze_bytes = Inr []\<rparr>]
       else if z = [3] then Inr [Inr \<lparr>ze_name = r_zip, ze_is_dir = False, ze_bytes = Inr [3]\<rparr>] else bail ''not an archive''),
     read_path = (\<lambda>_. Inr b), env_is_file = (\<lambda>_. True), env_is_dir = (\<lambda>_. False)\<rparr>"

definition inner_exe :: str where "inner_exe = lit ''r.zip!a.exe''"

definition sample_plan :: CodePlan where
  "sample_plan = \<lparr>cp_base_directory = [], cp_output = None, cp_recurse_containers = True, cp_max_concurrency = None,
     cp_file_digest = ''sha256'', cp_timestamp_digest = None, cp_timestamp_url = None, cp_continue_on_error = False,
     cp_skip_signed = False,
     cp_nodes = [\<lparr>cn_id = 0, cn_path = r_zip, cn_output_path = r_zip, cn_format = F_Zip, cn_depth = 0, cn_container = True,
        cn_signer = ''container-only''\<rparr>,
       \<lparr>cn_id = 1, cn_path = inner_exe, cn_output_path = inner_exe, cn_format = F_Pe, cn_depth = 1,
        cn_container = False, cn_signer = ''authenticode''\<rparr>],
     cp_edges = [(Suc 0, 0)]\<rparr>"

lemma sample_planned: "build_code_plan (Suc (Suc 0)) (sample_plan_env [1]) (Inr ([], Dir None)) sample_code_args = Some (Inr sample_plan)"
proof -
  have i: "inspect_zip_entries (open_zip (sample_plan_env [1])) [] [1] r_zip out 1 = Inr [\<lparr>ne_display = inner_exe,
      ne_output_display = out @ 33 # lit ''a.exe'', ne_depth = Suc 0, ne_bytes = []\<rparr>]" for out
    by (simp add: inspect_zip_entries_def sample_plan_env_def normalize_zip_name_def starts_with_def nested_excluded_def Let_def
        detect_format_def is_extension_def extension_def file_name_def eq_ignore_ascii_case_def to_ascii_lowercase_def
        char_lower_def r_zip_def inner_exe_def)
  have "detect_format inner_exe (Some []) = F_Pe" by code_simp
  then have f: "node_format (sample_plan_env [1]) (In_Memory []) inner_exe = Inr F_Pe" by (simp add: node_format_def)
  have n: "inner_exe \<noteq> r_zip" "r_zip @ 33 # lit ''a.exe'' = inner_exe" by (simp_all add: r_zip_def inner_exe_def)
  have env: "read_path (sample_plan_env [1]) = (\<lambda>_. Inr [1])" "env_is_file (sample_plan_env [1]) = (\<lambda>_. True)"
    by (simp_all add: sample_plan_env_def)
  have args: "ca_inputs sample_code_args = [r_zip]" "ca_file_list sample_code_args = None" "ca_output sample_code_args = None"
    "recurse_containers sample_code_args = True" "plan_args_ok sample_code_args = Inr ()"
    "max_concurrency sample_code_args = None" "file_digest sample_code_args = Sha256"
    "ca_timestamp_url sample_code_args = None" "ca_timestamp_digest sample_code_args = None"
    "continue_on_error sample_code_args = False" "skip_signed sample_code_args = False"
    by (simp_all add: sample_code_args_def plan_args_ok_def)
  let ?pb0 = "\<lparr>pb_nodes = [], pb_edges = [], node_ids = Map.empty, nested_excludes = [], pb_output = None, top_level_count = Suc 0\<rparr>"
  let ?pb1 = "push_node r_zip r_zip F_Zip 0 ?pb0" and ?E = "sample_plan_env [1]"
  have inner: "add_node_from_reader (Suc 0) ?E True (In_Memory []) inner_exe inner_exe (Suc 0) ?pb1 =
      Some (Inr (Suc 0, push_node inner_exe inner_exe F_Pe (Suc 0) ?pb1))"
    unfolding add_node_from_reader.simps Let_def by (simp add: f n push_node_def is_container_def)
  have i1: "inspect_zip_entries (open_zip ?E) (nested_excludes ?pb1) [1] r_zip r_zip (Suc 0) =
      Inr [\<lparr>ne_display = inner_exe, ne_output_display = inner_exe, ne_depth = Suc 0, ne_bytes = []\<rparr>]"
    using i [of r_zip] n by (simp add: push_node_def)
  have "add_node_from_reader (Suc (Suc 0)) ?E True (On_Disk [r_zip]) r_zip r_zip 0 ?pb0 =
      add_entries (\<lambda>entry pb. add_node_from_reader (Suc 0) ?E True (In_Memory (ne_bytes entry)) (ne_display entry)
        (ne_output_display entry) (ne_depth entry) pb) 0
        [\<lparr>ne_display = inner_exe, ne_output_display = inner_exe, ne_depth = Suc 0, ne_bytes = []\<rparr>] ?pb1"
    unfolding add_node_from_reader.simps(2) [of "Suc 0"] Let_def
    by (simp add: i1 r_zip_format env is_container_def del: add_node_from_reader.simps)
  also have "\<dots> = Some (Inr (0, (push_node inner_exe inner_exe F_Pe (Suc 0) ?pb1)\<lparr>pb_edges := [(Suc 0, 0)]\<rparr>))"
    by (simp add: inner del: add_node_from_reader.simps) (simp add: push_node_def)
  finally have "\<exists>pb. add_path (Suc (Suc 0)) ?E True [r_zip] ?pb0 = Some (Inr (0, pb)) \<and>
      pb_nodes pb = cp_nodes sample_plan \<and> pb_edges pb = cp_edges sample_plan"
    by (simp add: add_path_def Let_def r_zip_display top_level_output_path_def push_node_def sample_plan_def is_container_def
        del: add_node_from_reader.simps)
  then show ?thesis
    by (auto simp: build_code_plan_def args env r_zip_rules r_zip_selected sample_plan_def)
qed

theorem plan_well_formed_witness: "acyclic (set (cp_edges sample_plan)) \<and> distinct (map cn_path (cp_nodes sample_plan))"
  using plan_well_formed [OF sample_planned] by blast

theorem self_containing_archive_overflows_witness:
  "build_code_plan 1000 (sample_plan_env [3]) (Inr ([], Dir None)) sample_code_args = None"
  by (rule self_containing_archive_overflows [of _ "[3]"])
     (simp_all add: holds_itself_def sample_plan_env_def sample_code_args_def plan_args_ok_def)

definition flat_plan_env :: plan_env where
  "flat_plan_env = (sample_plan_env [1])\<lparr>open_zip := (\<lambda>z. if z = [1] then Inr [Inr \<lparr>ze_name = lit ''a.exe'', ze_is_dir = False, ze_bytes = Inr []\<rparr>] else bail ''not an archive'')\<rparr>"


end
