(* ===== verification/Code_Sign.thy ===== *)
theory Code_Sign
  imports Code_Plan
begin

text \<open>
  Model of the execution side of the code command (\<^verbatim>\<open>src/code.rs\<close>): which entries of a container are signed
  (\<^verbatim>\<open>sign_nested_package_entries\<close>, \<^verbatim>\<open>sign_nuget_bytes\<close>, \<^verbatim>\<open>sign_vsix_bytes\<close>, \<^verbatim>\<open>prepare_msix_family_bytes\<close>), the rewriting
  of an archive with its updates, and the loop over the top-level nodes. An archive is the list of its
  entries; compression methods and times are left out. The signers of single files, the last steps of a
  package signature and the ZIP library are parameters. \<open>fuel\<close> is the depth of the stack, as for the plan.
\<close>

section \<open>Rewriting an archive\<close>

type_synonym zip_out = "(str \<times> bool \<times> u8 list) list"

fun pending_updates :: "(str \<times> u8 list) list \<Rightarrow> (str \<times> u8 list) list \<Rightarrow> (str \<times> u8 list) list res" where
  "pending_updates [] pending = Inr pending"
| "pending_updates ((update_name, bytes) # updates) pending =
     rbind (normalize_zip_name update_name) (\<lambda>name.
     if name \<in> fst ` set pending then bail ''duplicate ZIP update entry''
     else pending_updates updates (pending @ [(name, bytes)]))"

fun repack_loop :: "zip_entry res list \<Rightarrow> (str \<times> u8 list) list \<Rightarrow> zip_out \<Rightarrow> (zip_out \<times> (str \<times> u8 list) list) res" where
  "repack_loop [] pending out = Inr (out, pending)"
| "repack_loop (found # rest) pending out =
     rbind found (\<lambda>file.
     rbind (normalize_zip_name (ze_name file)) (\<lambda>name.
     case map_of pending name of
       Some bytes \<Rightarrow> repack_loop rest (filter (\<lambda>u. fst u \<noteq> name) pending) (out @ [(name, False, bytes)])
     | None \<Rightarrow>
         if ze_is_dir file then repack_loop rest pending (out @ [(name, True, [])])
         else rbind (ze_bytes file) (\<lambda>bytes. repack_loop rest pending (out @ [(name, False, bytes)]))))"

definition repack_entries :: "zip_entry res list \<Rightarrow> (str \<times> u8 list) list \<Rightarrow> zip_out res" where
  "repack_entries archive updates =
     rbind (pending_updates updates []) (\<lambda>pending.
     rbind (repack_loop archive pending []) (\<lambda>(out, pending).
     Inr (out @ map (\<lambda>(name, bytes). (name, False, bytes)) (sort_key fst pending))))"

section \<open>Signing the entries of a container\<close>

text \<open>
  The signers of single files and the steps of the package formats that are not modelled: \<open>seal_nuget\<close> and
  \<open>seal_vsix\<close> are what follows the nested entries in \<^verbatim>\<open>sign_nuget_bytes\<close> and \<^verbatim>\<open>sign_vsix_bytes\<close>, \<open>new_block_map\<close> is
  the rewriting with a new block map.
\<close>

record code_signers =
  sign_pe :: "u8 list \<Rightarrow> str \<Rightarrow> bool \<Rightarrow> u8 list res"
  sign_clickonce_manifest :: "u8 list \<Rightarrow> str \<Rightarrow> u8 list res"
  sign_clickonce_deploy :: "u8 list \<Rightarrow> str \<Rightarrow> u8 list res"
  sign_companion :: "u8 list \<Rightarrow> u8 list res"
  manifest_has_signature :: "u8 list \<Rightarrow> bool"
  validate_appinstaller :: "u8 list \<Rightarrow> unit res"
  update_appinstaller_publisher :: "u8 list \<Rightarrow> str \<Rightarrow> u8 list res"
  update_msix_publisher :: "u8 list \<Rightarrow> str \<Rightarrow> str \<Rightarrow> u8 list res"
  update_bundle_publisher :: "u8 list \<Rightarrow> str \<Rightarrow> str \<Rightarrow> u8 list res"
  new_block_map :: "bool \<Rightarrow> u8 list \<Rightarrow> str \<Rightarrow> u8 list res"
  seal_nuget :: "u8 list \<Rightarrow> str \<Rightarrow> u8 list res"
  seal_vsix :: "u8 list \<Rightarrow> str \<Rightarrow> bool \<Rightarrow> u8 list res"
  code_open_zip :: "u8 list \<Rightarrow> zip_entry res list res"
  write_zip :: "zip_out \<Rightarrow> u8 list res"

record sign_options =
  so_excludes :: "str list"
  so_skip_signed :: bool
  so_overwrite :: bool

text \<open>An archive is opened and its entries are found by name as they are stored.\<close>

definition zip_contains_entry :: "code_signers \<Rightarrow> u8 list \<Rightarrow> str \<Rightarrow> bool res" where
  "zip_contains_entry S bytes name =
     rbind (code_open_zip S bytes) (\<lambda>archive. Inr (\<exists>found\<in>set archive. case found of Inl _ \<Rightarrow> False | Inr z \<Rightarrow> ze_name z = name))"

fun marks_signed :: "CodeFormat \<Rightarrow> str \<Rightarrow> bool" where
  "marks_signed F_Nuget name = (name = lit ''.signature.p7s'')"
| "marks_signed F_Snupkg name = (name = lit ''.signature.p7s'')"
| "marks_signed F_Vsix name =
     (name = lit ''package/services/digital-signature/origin.psdsor'' \<or>
      name = lit ''package/services/digital-signature/xml-signature/psign-signature.psdsxs'' \<or>
      starts_with (lit ''package/services/digital-signature/xml-signature/'') name)"
| "marks_signed _ name = False"

fun has_signature_loop :: "CodeFormat \<Rightarrow> zip_entry res list \<Rightarrow> bool res" where
  "has_signature_loop format [] = Inr False"
| "has_signature_loop format (found # rest) =
     rbind found (\<lambda>file.
     if ze_is_dir file then has_signature_loop format rest
     else
       rbind (normalize_zip_name (ze_name file)) (\<lambda>name.
       if marks_signed format name then Inr True else has_signature_loop format rest))"

definition package_has_signature :: "code_signers \<Rightarrow> u8 list \<Rightarrow> CodeFormat \<Rightarrow> bool res" where
  "package_has_signature S bytes format = rbind (code_open_zip S bytes) (has_signature_loop format)"

definition ensure_nuget_unsigned :: "code_signers \<Rightarrow> u8 list \<Rightarrow> unit res" where
  "ensure_nuget_unsigned S bytes =
     rbind (zip_contains_entry S bytes (lit ''.signature.p7s'')) (\<lambda>signed.
     if signed then bail ''already contains .signature.p7s'' else Inr ())"

definition ensure_unsigned_msix_family :: "code_signers \<Rightarrow> u8 list \<Rightarrow> unit res" where
  "ensure_unsigned_msix_family S bytes =
     rbind (zip_contains_entry S bytes (lit ''AppxSignature.p7x'')) (\<lambda>signed.
     if signed then bail ''already contains AppxSignature.p7x'' else Inr ())"

text \<open>\<open>nested\<close> signs the entries of a container; \<open>None\<close> is its stack overflow.\<close>

type_synonym sign_nested_fn = "u8 list \<Rightarrow> str \<Rightarrow> str option \<Rightarrow> u8 list res option"

definition rthen :: "'a res option \<Rightarrow> ('a \<Rightarrow> 'b res option) \<Rightarrow> 'b res option" where
  "rthen m f = obind m (\<lambda>r. case r of Inl e \<Rightarrow> Some (Inl e) | Inr x \<Rightarrow> f x)"

lemma rthen_Inr [simp]: "rthen m f = Some (Inr y) \<longleftrightarrow> (\<exists>x. m = Some (Inr x) \<and> f x = Some (Inr y))"
  by (cases m) (auto simp: rthen_def split: sum.splits)

lemma rthen_simps [simp]: "rthen (Some (Inr x)) f = f x" "rthen (Some (Inl e)) f = Some (Inl e)" "rthen None f = None"
  by (simp_all add: rthen_def)

definition sign_nuget_bytes :: "code_signers \<Rightarrow> sign_options \<Rightarrow> sign_nested_fn \<Rightarrow> u8 list \<Rightarrow> str \<Rightarrow> str option \<Rightarrow> u8 list res option" where
  "sign_nuget_bytes S Q nested input label publisher =
     rthen (Some (if so_skip_signed Q then package_has_signature S input F_Nuget else Inr False)) (\<lambda>signed.
     if signed then Some (Inr input)
     else
       rthen (nested input label publisher) (\<lambda>updated.
       Some (rbind (if so_overwrite Q then Inr () else ensure_nuget_unsigned S updated) (\<lambda>_. seal_nuget S updated label))))"

definition sign_vsix_bytes :: "code_signers \<Rightarrow> sign_options \<Rightarrow> sign_nested_fn \<Rightarrow> u8 list \<Rightarrow> str \<Rightarrow> str option \<Rightarrow> u8 list res option" where
  "sign_vsix_bytes S Q nested input label publisher =
     rthen (Some (if so_skip_signed Q then package_has_signature S input F_Vsix else Inr False)) (\<lambda>signed.
     if signed then Some (Inr input)
     else rthen (nested input label publisher) (\<lambda>updated. Some (seal_vsix S updated label (so_overwrite Q))))"

definition with_msix_publisher :: "code_signers \<Rightarrow> CodeFormat \<Rightarrow> str option \<Rightarrow> str \<Rightarrow> u8 list \<Rightarrow> u8 list res" where
  "with_msix_publisher S format publisher label updated =
     (case publisher of
        None \<Rightarrow> Inr updated
      | Some publisher \<Rightarrow>
          rbind (zip_contains_entry S updated (lit ''AppxManifest.xml'')) (\<lambda>flat.
          if flat then update_msix_publisher S updated label publisher
          else
            rbind (zip_contains_entry S updated (lit ''AppxMetadata/AppxBundleManifest.xml'')) (\<lambda>bundle.
            if bundle then update_bundle_publisher S updated label publisher
            else if format \<in> {F_Msix, F_Appx} then bail ''missing AppxManifest.xml''
            else if format \<in> {F_MsixBundle, F_AppxBundle} then bail ''missing AppxMetadata/AppxBundleManifest.xml''
            else Inr updated)))"

definition prepare_msix_family_bytes ::
  "code_signers \<Rightarrow> sign_nested_fn \<Rightarrow> u8 list \<Rightarrow> str \<Rightarrow> CodeFormat \<Rightarrow> str option \<Rightarrow> u8 list res option" where
  "prepare_msix_family_bytes S nested input label format publisher =
     rthen (Some (ensure_unsigned_msix_family S input)) (\<lambda>_.
     rthen (nested input label publisher) (\<lambda>updated.
     Some (rbind (with_msix_publisher S format publisher label updated) (\<lambda>updated.
       rbind (zip_contains_entry S updated (lit ''AppxMetadata/AppxBundleManifest.xml'')) (\<lambda>is_bundle_layout.
       rbind (zip_contains_entry S updated (lit ''AppxBlockMap.xml'')) (\<lambda>mapped.
       if mapped then new_block_map S is_bundle_layout updated label else Inr updated))))))"

definition is_unsupported_nested_signable :: "CodeFormat \<Rightarrow> bool" where
  "is_unsupported_nested_signable format \<longleftrightarrow>
     format \<in> {F_Cab, F_Msi, F_Msp, F_Mst, F_Catalog, F_Script, F_Msix, F_Appx, F_MsixBundle, F_AppxBundle, F_AppxUpload,
       F_MsixUpload, F_EncryptedMsix, F_ClickOnceApplication, F_Vsto, F_Manifest, F_AppInstaller, F_BusinessCentralApp}"

definition sign_appinstaller_entry ::
  "code_signers \<Rightarrow> sign_options \<Rightarrow> str option \<Rightarrow> u8 list \<Rightarrow> str \<Rightarrow> u8 list \<Rightarrow> (str \<times> u8 list) list res" where
  "sign_appinstaller_entry S Q publisher input name bytes =
     rbind (validate_appinstaller S bytes) (\<lambda>_.
     rbind (case publisher of
              None \<Rightarrow> Inr (bytes, [])
            | Some publisher \<Rightarrow>
                rbind (update_appinstaller_publisher S bytes publisher) (\<lambda>descriptor. Inr (descriptor, [(name, descriptor)])))
       (\<lambda>(descriptor, updates).
     let companion_name = name @ lit ''.p7'' in
     rbind (if so_overwrite Q then Inr False else zip_contains_entry S input companion_name) (\<lambda>present.
     if present then bail ''already has companion signature''
     else rbind (sign_companion S descriptor) (\<lambda>pkcs7. Inr (updates @ [(companion_name, pkcs7)])))))"

text \<open>What one entry contributes; the arms of the match are tried in order, the second ClickOnce arm is the guard.\<close>

definition sign_entry ::
  "code_signers \<Rightarrow> sign_options \<Rightarrow> sign_nested_fn \<Rightarrow> str option \<Rightarrow> u8 list \<Rightarrow> str \<Rightarrow> str \<Rightarrow> u8 list \<Rightarrow> CodeFormat \<Rightarrow>
   (str \<times> u8 list) list res option" where
  "sign_entry S Q nested publisher input label name bytes format =
     (let nested_label = label @ 33 # name; one = (\<lambda>signed. Some (Inr [(name, signed)])) in
      if format \<in> {F_Nuget, F_Snupkg} then rthen (sign_nuget_bytes S Q nested bytes nested_label None) one
      else if format = F_Vsix then rthen (sign_vsix_bytes S Q nested bytes nested_label None) one
      else if format = F_AppInstaller then Some (sign_appinstaller_entry S Q publisher input name bytes)
      else if format \<in> {F_ClickOnceApplication, F_Vsto, F_Manifest} \<and> \<not> (so_skip_signed Q \<and> manifest_has_signature S bytes) then
        rthen (Some (sign_clickonce_manifest S bytes nested_label)) one
      else if format = F_Deploy then rthen (Some (sign_clickonce_deploy S bytes nested_label)) one
      else if format \<in> {F_Pe, F_Winmd} then rthen (Some (sign_pe S bytes nested_label (so_skip_signed Q))) one
      else if format \<in> {F_Msix, F_Appx, F_MsixBundle, F_AppxBundle, F_AppxUpload, F_MsixUpload} then
        rthen (prepare_msix_family_bytes S nested bytes nested_label format publisher) one
      else if is_unsupported_nested_signable format then Some (bail ''nested execution cannot sign this format yet'')
      else Some (Inr []))"

fun collect_updates ::
  "code_signers \<Rightarrow> sign_options \<Rightarrow> sign_nested_fn \<Rightarrow> str option \<Rightarrow> u8 list \<Rightarrow> str \<Rightarrow> zip_entry res list \<Rightarrow>
   (str \<times> u8 list) list res option" where
  "collect_updates S Q nested publisher input label [] = Some (Inr [])"
| "collect_updates S Q nested publisher input label (found # rest) =
     rthen (Some found) (\<lambda>file.
     if ze_is_dir file then collect_updates S Q nested publisher input label rest
     else
       rthen (Some (normalize_zip_name (ze_name file))) (\<lambda>name.
       rthen (Some (ze_bytes file)) (\<lambda>bytes.
       if nested_excluded (so_excludes Q) name (label @ 33 # name) then
         collect_updates S Q nested publisher input label rest
       else
         rthen (sign_entry S Q nested publisher input label name bytes (detect_format name None)) (\<lambda>updates.
         rthen (collect_updates S Q nested publisher input label rest) (\<lambda>more_updates. Some (Inr (updates @ more_updates)))))))"

fun sign_nested_package_entries :: "code_signers \<Rightarrow> sign_options \<Rightarrow> nat \<Rightarrow> sign_nested_fn" where
  "sign_nested_package_entries S Q 0 input label publisher = None"
| "sign_nested_package_entries S Q (Suc fuel) input label publisher =
     rthen (Some (code_open_zip S input)) (\<lambda>archive.
     rthen (collect_updates S Q (sign_nested_package_entries S Q fuel) publisher input label archive) (\<lambda>updates.
     if updates = [] then Some (Inr input)
     else Some (rbind (repack_entries archive updates) (write_zip S))))"

definition sign_zip_container_bytes :: "code_signers \<Rightarrow> sign_options \<Rightarrow> nat \<Rightarrow> u8 list \<Rightarrow> str \<Rightarrow> str option \<Rightarrow> u8 list res option" where
  "sign_zip_container_bytes S Q fuel input label publisher = sign_nested_package_entries S Q fuel input label publisher"

section \<open>What a rewritten archive holds\<close>

lemma normalize_zip_name_id: "normalize_zip_name n = Inr m \<Longrightarrow> m = n"
  by (simp add: normalize_zip_name_def split: if_splits)

lemma pending_updates_all:
  "pending_updates ups pending = Inr p \<Longrightarrow> p = pending @ ups \<and> (distinct (map fst pending) \<longrightarrow> distinct (map fst p))"
proof (induction ups pending arbitrary: p rule: pending_updates.induct)
  case (2 name bytes updates pending)
  from "2.prems" have n: "normalize_zip_name name = Inr name" "name \<notin> fst ` set pending"
    "pending_updates updates (pending @ [(name, bytes)]) = Inr p"
    by (auto simp: res_simps dest: normalize_zip_name_id split: if_splits)
  have IH: "p = (pending @ [(name, bytes)]) @ updates \<and>
      (distinct (map fst (pending @ [(name, bytes)])) \<longrightarrow> distinct (map fst p))"
    by (rule "2.IH" [OF n])
  have "distinct (map fst pending) \<longrightarrow> distinct (map fst p)" using conjunct2 [OF IH] n(2) by simp
  then show ?case using conjunct1 [OF IH] by simp
qed simp

text \<open>The entry an archive keeps when no update has its name.\<close>

definition kept_entry :: "zip_entry \<Rightarrow> str \<times> bool \<times> u8 list" where
  "kept_entry f = (ze_name f, ze_is_dir f, if ze_is_dir f then [] else case ze_bytes f of Inr b \<Rightarrow> b | Inl _ \<Rightarrow> [])"

definition update_entry :: "str \<times> u8 list \<Rightarrow> str \<times> bool \<times> u8 list" where
  "update_entry u = (fst u, False, snd u)"

definition archive_names :: "zip_entry res list \<Rightarrow> str list" where
  "archive_names archive = concat (map (\<lambda>found. case found of Inl _ \<Rightarrow> [] | Inr f \<Rightarrow> [ze_name f]) archive)"

definition kept :: "zip_entry res list \<Rightarrow> str set \<Rightarrow> (str \<times> bool \<times> u8 list) set" where
  "kept archive names = {kept_entry f | f. Inr f \<in> set archive \<and> ze_name f \<notin> names}"

lemma kept_simps [simp]:
  "kept [] names = {}"
  "kept (Inr f # rest) names = (if ze_name f \<in> names then {} else {kept_entry f}) \<union> kept rest names"
  by (auto simp: kept_def)

lemma archive_names_simps [simp]: "archive_names [] = []" "archive_names (Inr f # rest) = ze_name f # archive_names rest"
  by (simp_all add: archive_names_def)

lemma repack_loop_keeps:
  "repack_loop archive pending out = Inr (out', pending') \<Longrightarrow> distinct (map fst pending) \<Longrightarrow>
   set out \<subseteq> set out' \<and> update_entry ` set pending \<subseteq> set out' \<union> update_entry ` set pending'"
proof (induction archive pending out rule: repack_loop.induct)
  case (2 found rest pending out)
  from "2.prems"(1) obtain f where f: "found = Inr f" "normalize_zip_name (ze_name f) = Inr (ze_name f)"
    by (auto simp: res_simps dest: normalize_zip_name_id)
  show ?case
  proof (cases "map_of pending (ze_name f)")
    case None
    then show ?thesis using "2.prems" "2.IH"(1,2) [OF f] f by (auto simp: res_simps split: if_splits)
  next
    case (Some b)
    let ?p = "filter (\<lambda>u. fst u \<noteq> ze_name f) pending"
    have m: "update_entry u = (ze_name f, False, b)" if "u \<in> set pending" "fst u = ze_name f" for u
    proof -
      have "map_of pending (fst u) = Some (snd u)" using that(1) "2.prems"(2) by (simp add: map_of_eq_Some_iff)
      then show ?thesis using that(2) Some by (simp add: update_entry_def)
    qed
    have d: "distinct (map fst ?p)" using "2.prems"(2) by (simp add: distinct_map_filter)
    have r: "repack_loop rest ?p (out @ [(ze_name f, False, b)]) = Inr (out', pending')"
      using "2.prems"(1) Some f by simp
    have IH: "set (out @ [(ze_name f, False, b)]) \<subseteq> set out' \<and> update_entry ` set ?p \<subseteq> set out' \<union> update_entry ` set pending'"
      by (rule "2.IH"(3) [OF f Some r d])
    have "update_entry ` set pending \<subseteq> set out' \<union> update_entry ` set pending'"
    proof
      fix x assume "x \<in> update_entry ` set pending"
      then obtain u where "u \<in> set pending" "x = update_entry u" by blast
      then show "x \<in> set out' \<union> update_entry ` set pending'"
        using IH m [of u] by (cases "fst u = ze_name f") auto
    qed
    then show ?thesis using IH by auto
  qed
qed auto

lemma repack_updates: "repack_entries archive ups = Inr z \<Longrightarrow> update_entry ` set ups \<subseteq> set z"
  using pending_updates_all [of ups "[]"] repack_loop_keeps [of archive ups "[]"]
  by (fastforce simp: repack_entries_def res_simps update_entry_def image_def)


lemma kept_removed: "n \<notin> set (archive_names archive) \<Longrightarrow> kept archive (names - {n}) = kept archive names"
  unfolding kept_def archive_names_def by (force split: sum.splits)

lemma found_names: "archive_names (found # rest) = (case found of Inl _ \<Rightarrow> [] | Inr f \<Rightarrow> [ze_name f]) @ archive_names rest"
  by (simp add: archive_names_def)

lemma split_at_key:
  assumes "distinct (map fst xs)" "(k, v) \<in> set xs"
  shows "set xs = insert (k, v) (set (filter (\<lambda>u. fst u \<noteq> k) xs))"
proof (intro equalityI subsetI)
  fix u assume u: "u \<in> set xs"
  show "u \<in> insert (k, v) (set (filter (\<lambda>u. fst u \<noteq> k) xs))"
  proof (cases "fst u = k")
    case True
    then have "(k, snd u) \<in> set xs" using u by (cases u) simp
    then have "snd u = v" by (rule eq_key_imp_eq_value [OF assms(1) _ assms(2)])
    then show ?thesis using True by (cases u) simp
  qed (use u in simp)
qed (use assms(2) in auto)

lemma repack_loop_exact:
  "repack_loop archive pending out = Inr (out', pending') \<Longrightarrow> distinct (map fst pending) \<Longrightarrow> distinct (archive_names archive) \<Longrightarrow>
   set out' \<union> update_entry ` set pending' = set out \<union> update_entry ` set pending \<union> kept archive (fst ` set pending)"
proof (induction archive pending out rule: repack_loop.induct)
  case (2 found rest pending out)
  from "2.prems"(1) obtain f where f: "found = Inr f" "normalize_zip_name (ze_name f) = Inr (ze_name f)"
    by (auto simp: res_simps dest: normalize_zip_name_id)
  have u: "ze_name f \<notin> set (archive_names rest)" "distinct (archive_names rest)" using "2.prems"(3) f by simp_all
  show ?case
  proof (cases "map_of pending (ze_name f)")
    case None
    then have n: "ze_name f \<notin> fst ` set pending" by (simp add: map_of_eq_None_iff)
    have "set out' \<union> update_entry ` set pending' =
        set (out @ [kept_entry f]) \<union> update_entry ` set pending \<union> kept rest (fst ` set pending)"
    proof (cases "ze_is_dir f")
      case True
      then show ?thesis using "2.prems"(1,2) "2.IH"(1) [OF f None True] f(2) u(2) None
        by (simp add: f(1) kept_entry_def)
    next
      case False
      then obtain b where b: "ze_bytes f = Inr b" using "2.prems"(1) f(2) None by (auto simp: f(1) res_simps)
      then show ?thesis using "2.prems"(1,2) "2.IH"(2) [OF f None False b] f(2) u(2) None False
        by (simp add: f(1) kept_entry_def)
    qed
    then show ?thesis using n by (simp add: f(1) Un_ac)
  next
    case (Some b)
    let ?p = "filter (\<lambda>u. fst u \<noteq> ze_name f) pending"
    have at: "(ze_name f, b) \<in> set pending" using Some by (rule map_of_SomeD)
    have d: "distinct (map fst ?p)" using "2.prems"(2) by (simp add: distinct_map_filter)
    have r: "repack_loop rest ?p (out @ [(ze_name f, False, b)]) = Inr (out', pending')"
      using "2.prems"(1) Some f by simp
    have IH: "set out' \<union> update_entry ` set pending' =
        set (out @ [(ze_name f, False, b)]) \<union> update_entry ` set ?p \<union> kept rest (fst ` set ?p)"
      by (rule "2.IH"(3) [OF f Some r d u(2)])
    have "set pending = insert (ze_name f, b) (set ?p)" by (rule split_at_key [OF "2.prems"(2) at])
    then have a: "update_entry ` set pending = insert (ze_name f, False, b) (update_entry ` set ?p)"
      by (simp only: image_insert) (simp add: update_entry_def)
    have "fst ` set ?p = fst ` set pending - {ze_name f}" by force
    then have k: "kept rest (fst ` set ?p) = kept rest (fst ` set pending)" by (simp only: kept_removed [OF u(1)])
    have "ze_name f \<in> fst ` set pending" using at by force
    then have l: "kept (found # rest) (fst ` set pending) = kept rest (fst ` set pending)" by (simp add: f(1))
    show ?thesis using IH by (simp only: a k l set_append list.set) blast
  qed
qed simp

text \<open>
  Rewriting an archive whose entries have different names gives exactly the updates, each as a file with the bytes of
  the update, and the entries with no update unchanged.
\<close>
lemma repack_contents:
  assumes "repack_entries archive ups = Inr z" "distinct (archive_names archive)"
  shows "set z = update_entry ` set ups \<union> kept archive (fst ` set ups)"
proof -
  obtain p out q where p: "pending_updates ups [] = Inr p" "repack_loop archive p [] = Inr (out, q)"
    "z = out @ map (\<lambda>(name, bytes). (name, False, bytes)) (sort_key fst q)"
    using assms(1) by (auto simp: repack_entries_def res_simps)
  have "set z = set out \<union> update_entry ` set q" by (simp add: p(3) update_entry_def image_def split_beta Bex_def)
  moreover have "p = ups" "distinct (map fst p)" using pending_updates_all [OF p(1)] by auto
  ultimately show ?thesis using repack_loop_exact [OF p(2) _ assms(2)] by simp
qed

section \<open>What the plan and the execution agree on\<close>

lemma sign_entry_empty: "sign_entry S Q nested publisher input label name bytes format = Some (Inr []) \<Longrightarrow> format \<in> {F_Zip, F_Unknown}"
  by (cases format) (auto simp: sign_entry_def sign_appinstaller_entry_def res_simps Let_def is_unsupported_nested_signable_def
      split: if_splits option.splits)

lemma sign_entry_names:
  "sign_entry S Q nested publisher input label name bytes format = Some (Inr us) \<Longrightarrow> u \<in> set us \<Longrightarrow>
   fst u = name \<or> (format = F_AppInstaller \<and> fst u = name @ lit ''.p7'')"
  by (cases format) (auto simp: sign_entry_def sign_appinstaller_entry_def res_simps Let_def is_unsupported_nested_signable_def
      split: if_splits option.splits)

text \<open>The planned entry of a name, and what its signing contributes.\<close>

definition contributes ::
  "code_signers \<Rightarrow> sign_options \<Rightarrow> sign_nested_fn \<Rightarrow> str option \<Rightarrow> u8 list \<Rightarrow> str \<Rightarrow> NestedEntry \<Rightarrow> str \<Rightarrow>
   (str \<times> u8 list) list \<Rightarrow> bool" where
  "contributes S Q nested publisher input label e name us \<longleftrightarrow>
     ne_display e = label @ 33 # name \<and> detect_format name None \<noteq> F_Unknown \<and>
     sign_entry S Q nested publisher input label name (ne_bytes e) (detect_format name None) = Some (Inr us)"

lemma collect_planned:
  "collect_updates S Q nested publisher input label found = Some (Inr ups) \<Longrightarrow>
   inspect_loop (so_excludes Q) label cout depth found = Inr es \<Longrightarrow>
   (\<forall>e\<in>set es. \<exists>name us. contributes S Q nested publisher input label e name us \<and> set us \<subseteq> set ups) \<and>
   (\<forall>u\<in>set ups. \<exists>e\<in>set es. \<exists>name us. contributes S Q nested publisher input label e name us \<and> u \<in> set us)"
proof (induction found arbitrary: ups es)
  case (Cons f rest)
  from Cons.prems(1) obtain fl where fl: "f = Inr fl" by (cases f) auto
  show ?case
  proof (cases "ze_is_dir fl")
    case True
    then show ?thesis using Cons fl by simp
  next
    case False
    then obtain name bytes where n: "normalize_zip_name (ze_name fl) = Inr name" "ze_bytes fl = Inr bytes"
      using Cons.prems(1) fl by auto
    let ?x = "nested_excluded (so_excludes Q) name (label @ 33 # name)"
    show ?thesis
    proof (cases ?x)
      case True
      then show ?thesis using Cons False fl n by (simp add: Let_def)
    next
      case nx: False
      obtain us more where s: "sign_entry S Q nested publisher input label name bytes (detect_format name None) = Some (Inr us)"
        "collect_updates S Q nested publisher input label rest = Some (Inr more)" "ups = us @ more"
        using Cons.prems(1) False fl n nx by auto
      show ?thesis
      proof (cases "detect_format name None = F_Unknown")
        case True
        have "us = []" using s(1) True by (simp add: sign_entry_def Let_def is_unsupported_nested_signable_def)
        moreover have "inspect_loop (so_excludes Q) label cout depth rest = Inr es"
          using Cons.prems(2) True False fl n by (simp add: Let_def)
        ultimately show ?thesis using Cons.IH [OF s(2)] s(3) by simp
      next
        case known: False
        obtain entries e where e: "inspect_loop (so_excludes Q) label cout depth rest = Inr entries" "es = e # entries"
          "ne_display e = label @ 33 # name" "ne_bytes e = bytes"
          using Cons.prems(2) known False fl n nx by (auto simp: Let_def res_simps)
        have c: "contributes S Q nested publisher input label e name us"
          using e s(1) known by (simp add: contributes_def)
        show ?thesis using Cons.IH [OF s(2) e(1)] c unfolding e(2) s(3) by (simp add: ball_Un) (meson subset_trans sup_ge1 sup_ge2)
      qed
    qed
  qed
qed auto


lemma signed_container:
  assumes "sign_nested_package_entries S Q (Suc fuel) input label publisher = Some (Inr out)"
    "inspect_zip_entries (code_open_zip S) (so_excludes Q) input label cout depth = Inr nested"
  obtains archive ups where "code_open_zip S input = Inr archive"
    "collect_updates S Q (sign_nested_package_entries S Q fuel) publisher input label archive = Some (Inr ups)"
    "ups = [] \<and> out = input \<or> (\<exists>z. ups \<noteq> [] \<and> repack_entries archive ups = Inr z \<and> write_zip S z = Inr out)"
    "\<And>e. e \<in> set nested \<Longrightarrow> \<exists>name us.
       contributes S Q (sign_nested_package_entries S Q fuel) publisher input label e name us \<and> set us \<subseteq> set ups"
    "\<And>u. u \<in> set ups \<Longrightarrow> \<exists>e\<in>set nested. \<exists>name us.
       contributes S Q (sign_nested_package_entries S Q fuel) publisher input label e name us \<and> u \<in> set us"
proof -
  obtain archive ups where a: "code_open_zip S input = Inr archive"
    "collect_updates S Q (sign_nested_package_entries S Q fuel) publisher input label archive = Some (Inr ups)"
    "ups = [] \<and> out = input \<or> (\<exists>z. ups \<noteq> [] \<and> repack_entries archive ups = Inr z \<and> write_zip S z = Inr out)"
    using assms(1) by (auto simp: res_simps split: if_splits)
  obtain es where "inspect_loop (so_excludes Q) label cout depth archive = Inr es" "set nested = set es"
    using assms(2) a(1) by (auto simp: inspect_zip_entries_def res_simps)
  then show thesis using that [OF a] collect_planned [OF a(2)] by auto
qed




section \<open>A container with an image, a text and a nested archive\<close>

definition sample_file :: "string \<Rightarrow> u8 list \<Rightarrow> zip_entry" where
  "sample_file name bytes = \<lparr>ze_name = lit name, ze_is_dir = False, ze_bytes = Inr bytes\<rparr>"

definition sample_archive :: "zip_entry res list" where
  "sample_archive = [Inr (sample_file ''a.exe'' [77, 90]), Inr (sample_file ''b.txt'' [7])]"

definition sample_code_signers :: code_signers where
  "sample_code_signers = \<lparr>sign_pe = (\<lambda>b l skip. Inr (b @ [1])), sign_clickonce_manifest = (\<lambda>b l. Inr b),
     sign_clickonce_deploy = (\<lambda>b l. Inr b), sign_companion = (\<lambda>b. Inr b), manifest_has_signature = (\<lambda>b. False),
     validate_appinstaller = (\<lambda>b. Inr ()), update_appinstaller_publisher = (\<lambda>b p. Inr b),
     update_msix_publisher = (\<lambda>b l p. Inr b), update_bundle_publisher = (\<lambda>b l p. Inr b), new_block_map = (\<lambda>d b l. Inr b),
     seal_nuget = (\<lambda>b l. Inr b), seal_vsix = (\<lambda>b l r. Inr b),
     code_open_zip = (\<lambda>b. if b = [1] then Inr sample_archive else bail ''not a ZIP''),
     write_zip = (\<lambda>z. Inr (concat (map (\<lambda>(name, is_dir, bytes). bytes) z)))\<rparr>"

definition sample_sign_options :: sign_options where
  "sample_sign_options = \<lparr>so_excludes = [], so_skip_signed = False, so_overwrite = False\<rparr>"

definition sample_planned_entry :: NestedEntry where
  "sample_planned_entry = \<lparr>ne_display = lit ''p!a.exe'', ne_output_display = lit ''p!a.exe'', ne_depth = 1, ne_bytes = [77, 90]\<rparr>"

lemma sample_names:
  "normalize_zip_name (lit ''a.exe'') = Inr (lit ''a.exe'')" "normalize_zip_name (lit ''b.txt'') = Inr (lit ''b.txt'')"
  "detect_format (lit ''a.exe'') None = F_Pe" "detect_format (lit ''b.txt'') None = F_Unknown"
  by code_simp+

lemma sample_opened: "code_open_zip sample_code_signers [1] = Inr sample_archive"
  by (simp add: sample_code_signers_def)

lemma sample_inspected:
  "inspect_zip_entries (code_open_zip sample_code_signers) (so_excludes sample_sign_options) [1] (lit ''p'') (lit ''p'') 1 =
   Inr [sample_planned_entry]"
proof -
  have "inspect_loop [] (lit ''p'') (lit ''p'') 1 sample_archive = Inr [sample_planned_entry]"
    using sample_names by (simp add: sample_archive_def sample_file_def sample_planned_entry_def Let_def nested_excluded_def)
  then show ?thesis by (simp add: inspect_zip_entries_def sample_opened sample_sign_options_def)
qed

lemma sample_container_signed:
  "sign_nested_package_entries sample_code_signers sample_sign_options (Suc 0) [1] (lit ''p'') None = Some (Inr [77, 90, 1, 7])"
proof -
  let ?f = "sign_nested_package_entries sample_code_signers sample_sign_options 0"
  have "sign_entry sample_code_signers sample_sign_options ?f None [1] (lit ''p'') (lit ''a.exe'') [77, 90] F_Pe =
      Some (Inr [(lit ''a.exe'', [77, 90, 1])])"
    by (simp add: sign_entry_def sample_code_signers_def)
  moreover have "sign_entry sample_code_signers sample_sign_options ?f None [1] (lit ''p'') (lit ''b.txt'') [7] F_Unknown = Some (Inr [])"
    by (simp add: sign_entry_def is_unsupported_nested_signable_def)
  ultimately have c: "collect_updates sample_code_signers sample_sign_options ?f None [1] (lit ''p'') sample_archive =
      Some (Inr [(lit ''a.exe'', [77, 90, 1])])"
    using sample_names by (simp add: sample_archive_def sample_file_def nested_excluded_def sample_sign_options_def)
  have "repack_entries sample_archive [(lit ''a.exe'', [77, 90, 1])] =
      Inr [(lit ''a.exe'', False, [77, 90, 1]), (lit ''b.txt'', False, [7])]"
    using sample_names by (simp add: repack_entries_def sample_archive_def sample_file_def)
  then show ?thesis using c sample_opened by (simp add: sample_code_signers_def)
qed



section \<open>Where the plan and the execution differ\<close>

text \<open>A nested ZIP is planned as a container and contributes nothing, so nothing in it is signed.\<close>

lemma nested_zip_left_unsigned:
  "is_container F_Zip \<and> sign_entry S Q nested publisher input label name bytes F_Zip = Some (Inr [])"
  by (simp add: is_container_def sign_entry_def is_unsupported_nested_signable_def)

text \<open>A nested ClickOnce manifest that is already signed is not skipped: it ends the signing with an error.\<close>

lemma signed_nested_manifest_rejected:
  assumes "so_skip_signed Q" "manifest_has_signature S bytes" "format \<in> {F_ClickOnceApplication, F_Vsto, F_Manifest}"
  shows "sign_entry S Q nested publisher input label name bytes format = Some (bail ''nested execution cannot sign this format yet'')"
  using assms by (auto simp: sign_entry_def is_unsupported_nested_signable_def)

end
